(* ===== verification/Prelude.thy ===== *)
theory Prelude
  imports Main "HOL-Library.Word" "HOL-Library.List_Lexorder" "HOL-Library.Product_Lexorder"
begin

text \<open>
  What the other theories share: the collections of rewrite rules, Go's 64-bit integers as
  \<open>64 word\<close> read through \<open>sint\<close> and \<open>uint\<close>, a few facts about lists whose elements carry
  a key (the rows of a table), and the two locales for "an operation that preserves an
  invariant" and "an operation that grows a component", each with its lemma about a run.
\<close>

section \<open>Machine arithmetic\<close>

named_theorems go_arith \<open>values of machine integers\<close>

section \<open>Go integers\<close>

type_synonym int64 = "64 word"
type_synonym uint64 = "64 word"

definition max_int64 :: int64 where
  "max_int64 = word_of_int (2 ^ 63 - 1)"

text \<open>Go's \<open>/\<close> on int64: the quotient truncated towards zero. The divisor is not zero where it is used.\<close>

definition go_div :: "int64 \<Rightarrow> int64 \<Rightarrow> int64" where
  "go_div a b = word_of_int (sgn (sint a) * sgn (sint b) * (\<bar>sint a\<bar> div \<bar>sint b\<bar>))"

lemma sint_max_int64 [simp, go_arith]: "sint max_int64 = 9223372036854775807"
  by (simp add: max_int64_def)

lemma sint_upper: "sint (a :: int64) \<le> 9223372036854775807"
  using sint_less [of a] by simp

lemma sint_lower: "- 9223372036854775808 \<le> sint (a :: int64)"
  using sint_greater_eq [of a] by simp

lemma sint_of_int [go_arith]:
  "- 9223372036854775808 \<le> k \<Longrightarrow> k \<le> 9223372036854775807 \<Longrightarrow>
   sint (word_of_int k :: int64) = k"
  by (simp add: sint_sbintrunc' signed_take_bit_int_eq_self)

lemma sint_mult [go_arith]:
  "- 9223372036854775808 \<le> sint a * sint b \<Longrightarrow> sint a * sint b \<le> 9223372036854775807 \<Longrightarrow>
   sint ((a :: int64) * b) = sint a * sint b"
  by (simp add: sint_word_ariths signed_take_bit_int_eq_self)

lemma sint_plus [go_arith]:
  "- 9223372036854775808 \<le> sint a + sint b \<Longrightarrow> sint a + sint b \<le> 9223372036854775807 \<Longrightarrow>
   sint ((a :: int64) + b) = sint a + sint b"
  by (simp add: sint_word_ariths signed_take_bit_int_eq_self)

lemma sint_eq_iff: "sint (a :: int64) = sint b \<longleftrightarrow> a = b"
  by (auto dest: arg_cong [where f = "of_int :: int \<Rightarrow> int64"])

lemma sint_go_div:
  assumes "0 \<le> sint a" and "0 < sint b"
  shows "sint (go_div a b) = sint a div sint b"
proof -
  have "sint a div sint b \<le> sint a"
    using assms zdiv_mono2 [of "sint a" 1 "sint b"] by simp
  moreover have "0 \<le> sint a div sint b"
    using assms by (simp add: pos_imp_zdiv_nonneg_iff)
  moreover have "sgn (sint a) * sgn (sint b) * (\<bar>sint a\<bar> div \<bar>sint b\<bar>) = sint a div sint b"
    using assms by (cases "sint a = 0") auto
  ultimately show ?thesis
    using sint_upper [of a] by (simp add: go_div_def sint_of_int)
qed

lemma div_less_iff_mult_less:
  assumes "0 < (r :: int)"
  shows "m div r < u \<longleftrightarrow> m < u * r"
proof
  assume "m div r < u"
  then have "m div r + 1 \<le> u" by simp
  then have "(m div r + 1) * r \<le> u * r"
    using assms by (intro mult_right_mono) auto
  moreover have "m < (m div r + 1) * r"
    using assms pos_mod_bound [of r m] div_mult_mod_eq [of m r] distrib_right [of "m div r" 1 r]
    by linarith
  ultimately show "m < u * r" by simp
next
  assume "m < u * r"
  show "m div r < u"
  proof (rule ccontr)
    assume "\<not> m div r < u"
    then have "u * r \<le> (m div r) * r"
      using assms by (intro mult_right_mono) auto
    also have "\<dots> \<le> m"
      using assms pos_mod_sign [of r m] div_mult_mod_eq [of m r] by linarith
    finally show False using \<open>m < u * r\<close> by simp
  qed
qed

text \<open>The overflow test \<open>u > math.MaxInt64 / r\<close> is exact for positive factors.\<close>

lemma mul_overflow_test:
  assumes "0 < sint u" and "0 < sint r"
  shows "sint u > sint (go_div max_int64 r) \<longleftrightarrow> sint u * sint r > 9223372036854775807"
proof -
  have "sint (go_div max_int64 r) = 9223372036854775807 div sint r"
    using assms by (simp add: sint_go_div)
  moreover have "9223372036854775807 div sint r < sint u \<longleftrightarrow> 9223372036854775807 < sint u * sint r"
    using assms(2) by (rule div_less_iff_mult_less)
  ultimately show ?thesis by simp
qed

section \<open>Rows found by their key\<close>

text \<open>Looking a row up by its key after an insert, a delete and an update of a table.\<close>

lemma find_append:
  "find P (xs @ ys) = (case find P xs of None \<Rightarrow> find P ys | Some x \<Rightarrow> Some x)"
  by (induction xs) auto

lemma find_key_None: "find (\<lambda>x. k x = i) xs = None \<longleftrightarrow> i \<notin> set (map k xs)"
  by (auto simp: find_None_iff)

lemma find_key_Some: "find (\<lambda>x. k x = i) xs = Some x \<Longrightarrow> x \<in> set xs \<and> k x = i"
  by (auto simp: find_Some_iff)

lemma find_key_filter:
  "find (\<lambda>x. k x = i) (filter (\<lambda>x. k x \<notin> S) xs) =
     (if i \<in> S then None else find (\<lambda>x. k x = i) xs)"
  by (induction xs) auto

lemma find_key_map:
  assumes "\<And>x. k (f x) = k x"
  shows "find (\<lambda>x. k x = i) (map (\<lambda>x. if k x = j then f x else x) xs) =
     (if i = j then map_option f (find (\<lambda>x. k x = i) xs) else find (\<lambda>x. k x = i) xs)"
  by (induction xs) (auto simp: assms)

lemma map_key_map:
  assumes "\<And>x. k (f x) = k x"
  shows "map k (map (\<lambda>x. if k x = j then f x else x) xs) = map k xs"
  by (induction xs) (auto simp: assms)

lemma map_key_filter: "map k (filter (\<lambda>x. k x \<notin> S) xs) = filter (\<lambda>i. i \<notin> S) (map k xs)"
  by (induction xs) auto

lemma find_key_distinct:
  "distinct (map k xs) \<Longrightarrow> x \<in> set xs \<Longrightarrow> find (\<lambda>y. k y = k x) xs = Some x"
proof (induction xs)
  case (Cons y ys)
  show ?case
  proof (cases "x = y")
    case False
    with Cons.prems have "x \<in> set ys" and "k y \<noteq> k x" by auto
    with Cons show ?thesis by simp
  qed simp
qed simp

lemma length_filter_key_distinct:
  "distinct (map k xs) \<Longrightarrow> set is \<subseteq> set (map k xs) \<Longrightarrow> distinct is \<Longrightarrow>
   length (filter (\<lambda>x. k x \<in> set is) xs) = length is"
proof -
  assume d: "distinct (map k xs)" and s: "set is \<subseteq> set (map k xs)" and di: "distinct is"
  have "map k (filter (\<lambda>x. k x \<in> set is) xs) = filter (\<lambda>i. i \<in> set is) (map k xs)"
    by (induction xs) auto
  moreover have "distinct (filter (\<lambda>i. i \<in> set is) (map k xs))"
    using d by (rule distinct_filter)
  moreover have "set (filter (\<lambda>i. i \<in> set is) (map k xs)) = set is"
    using s by auto
  ultimately show ?thesis
    using di by (metis distinct_card length_map)
qed

lemma filter_concat_map_single:
  "filter P (concat (map (\<lambda>x. [f x]) xs)) = map f (filter (\<lambda>x. P (f x)) xs)"
  by (induction xs) auto

section \<open>Runs\<close>

text \<open>
  Operations that share an invariant: whatever the sequence, the invariant holds at its end.
  \<open>grows\<close> adds a preorder every operation moves up in, for components that are only appended to.
\<close>

locale invariant_steps =
  fixes apply_op :: "'op \<Rightarrow> 's \<Rightarrow> 's"
    and inv :: "'s \<Rightarrow> bool"
  assumes step_inv: "inv s \<Longrightarrow> inv (apply_op x s)"
begin

lemma run_inv: "inv s \<Longrightarrow> inv (fold apply_op xs s)"
  by (induction xs arbitrary: s) (auto intro: step_inv)

end

locale growing_steps = invariant_steps apply_op inv
  for apply_op :: "'op \<Rightarrow> 's \<Rightarrow> 's" and inv :: "'s \<Rightarrow> bool" +
  fixes below :: "'s \<Rightarrow> 's \<Rightarrow> bool"
  assumes below_refl: "inv s \<Longrightarrow> below s s"
    and below_trans: "below s t \<Longrightarrow> below t u \<Longrightarrow> below s u"
    and step_below: "inv s \<Longrightarrow> below s (apply_op x s)"
begin

lemma run_below: "inv s \<Longrightarrow> below s (fold apply_op xs s)"
proof (induction xs arbitrary: s)
  case Nil
  then show ?case by (simp add: below_refl)
next
  case (Cons x xs)
  then show ?case by (auto intro: below_trans [OF step_below] step_inv)
qed

end

text \<open>The same for a step relation: the invariant holds in every reachable state.\<close>

locale step_invariant =
  fixes step :: "'s \<Rightarrow> 's \<Rightarrow> bool"
    and inv :: "'s \<Rightarrow> bool"
  assumes inv_step: "inv s \<Longrightarrow> step s t \<Longrightarrow> inv t"
begin

lemma reachable_inv: "step\<^sup>*\<^sup>* s t \<Longrightarrow> inv s \<Longrightarrow> inv t"
  by (induction rule: rtranclp_induct) (auto intro: inv_step)

end

end
