(* ===== verification/Go_Errors.thy ===== *)
theory Go_Errors
  imports Prelude
begin

text \<open>
  Go error values as a datatype. The package-level sentinels of \<open>internal/billing/types.go\<close>
  and of pgx are constructors of their own, because Go compares them by identity; what the
  database driver reports is \<open>Driver\<close> of a \<open>driver_error\<close>; \<open>fmt.Errorf\<close> with one \<open>%w\<close>
  verb is \<open>Wrap\<close>, \<open>errors.Join\<close> is \<open>Join\<close>, and an \<open>errors.New\<close> made on the spot is \<open>New\<close>.
  A nil error is \<open>None\<close> of type \<open>go_error option\<close>, and a Go result \<open>(v, err)\<close> whose value is
  only meaningful without an error is \<open>go_error + 'a\<close>.
\<close>

datatype driver_error =
    PgErr string            \<comment> \<open>\<open>*pgconn.PgError\<close> with its SQLSTATE\<close>
  | Canceled                \<comment> \<open>\<open>context.Canceled\<close>\<close>
  | DeadlineExceeded        \<comment> \<open>\<open>context.DeadlineExceeded\<close>\<close>
  | ConnFailure string      \<comment> \<open>any other failure of the connection\<close>

datatype go_error =
    ErrInvalid
  | ErrConflict
  | ErrNotFound
  | ErrQueueFull
  | ErrRetryConflict
  | ErrNoRows               \<comment> \<open>\<open>pgx.ErrNoRows\<close>\<close>
  | ErrTxClosed             \<comment> \<open>\<open>pgx.ErrTxClosed\<close>\<close>
  | ErrTxCommitRollback     \<comment> \<open>\<open>pgx.ErrTxCommitRollback\<close>\<close>
  | Driver driver_error
  | New string
  | Wrap string go_error
  | Join "go_error list"

text \<open>
  \<open>errors.Is\<close> compares the error itself and then everything it wraps, depth first.
  \<open>errors.AsType\<close> for \<open>*pgconn.PgError\<close> returns the first one on the same walk.
\<close>

fun errors_is :: "go_error \<Rightarrow> go_error \<Rightarrow> bool" where
  "errors_is (Wrap m e) t = (Wrap m e = t \<or> errors_is e t)"
| "errors_is (Join es) t = (Join es = t \<or> (\<exists>e\<in>set es. errors_is e t))"
| "errors_is e t = (e = t)"

fun as_pg_error :: "go_error \<Rightarrow> string option"
  and as_pg_error_list :: "go_error list \<Rightarrow> string option" where
  "as_pg_error (Driver (PgErr code)) = Some code"
| "as_pg_error (Wrap m e) = as_pg_error e"
| "as_pg_error (Join es) = as_pg_error_list es"
| "as_pg_error e = None"
| "as_pg_error_list [] = None"
| "as_pg_error_list (e # es) =
     (case as_pg_error e of Some c \<Rightarrow> Some c | None \<Rightarrow> as_pg_error_list es)"

text \<open>\<open>errors.Join\<close> drops nil errors and is nil when nothing is left.\<close>

definition errors_join :: "go_error option list \<Rightarrow> go_error option" where
  "errors_join es = (case List.map_filter id es of [] \<Rightarrow> None | xs \<Rightarrow> Some (Join xs))"

text \<open>The sentinels a caller tests for with \<open>errors.Is\<close>: none of them wraps anything.\<close>

definition sentinel :: "go_error \<Rightarrow> bool" where
  "sentinel e \<longleftrightarrow> e \<in> {ErrInvalid, ErrConflict, ErrNotFound, ErrQueueFull, ErrRetryConflict,
     ErrNoRows, ErrTxClosed, ErrTxCommitRollback, Driver Canceled, Driver DeadlineExceeded}"

lemma sentinels [simp]:
  "sentinel ErrInvalid" "sentinel ErrConflict" "sentinel ErrNotFound" "sentinel ErrQueueFull"
  "sentinel ErrRetryConflict" "sentinel ErrNoRows" "sentinel ErrTxClosed"
  "sentinel ErrTxCommitRollback" "sentinel (Driver Canceled)" "sentinel (Driver DeadlineExceeded)"
  by (simp_all add: sentinel_def)

lemma errors_is_Wrap [simp]: "sentinel t \<Longrightarrow> errors_is (Wrap m e) t \<longleftrightarrow> errors_is e t"
  by (auto simp: sentinel_def)

lemma errors_is_Join [simp]:
  "sentinel t \<Longrightarrow> errors_is (Join es) t \<longleftrightarrow> (\<exists>e\<in>set es. errors_is e t)"
  by (auto simp: sentinel_def)

lemma not_sentinel [simp]: "\<not> sentinel (Wrap m e)" "\<not> sentinel (Join es)" "\<not> sentinel (New m)"
  by (simp_all add: sentinel_def)

lemma errors_is_refl [simp]: "errors_is e e"
  by (cases e) auto

declare errors_is.simps(1,2) [simp del]

lemma errors_join_simps [simp]:
  "errors_join [] = None"
  "errors_join (None # es) = errors_join es"
  "errors_join [Some e] = Some (Join [e])"
  "errors_join [Some e, Some f] = Some (Join [e, f])"
  "errors_join [Some e, None] = Some (Join [e])"
  by (simp_all add: errors_join_def map_filter_simps)

text \<open>An error that carries one of the billing sentinels; the driver never produces one.\<close>

definition billing_sentinel :: "go_error \<Rightarrow> bool" where
  "billing_sentinel t \<longleftrightarrow> t \<in> {ErrInvalid, ErrConflict, ErrNotFound, ErrQueueFull, ErrRetryConflict}"

lemma billing_sentinel_sentinel [simp]: "billing_sentinel t \<Longrightarrow> sentinel t"
  by (auto simp: billing_sentinel_def sentinel_def)

lemma not_billing_sentinel [simp]:
  "\<not> billing_sentinel (Wrap m e)" "\<not> billing_sentinel (Join es)" "\<not> billing_sentinel (New m)"
  by (simp_all add: billing_sentinel_def)

lemma billing_sentinels [simp]:
  "billing_sentinel ErrInvalid" "billing_sentinel ErrConflict" "billing_sentinel ErrNotFound"
  "billing_sentinel ErrQueueFull" "billing_sentinel ErrRetryConflict"
  by (simp_all add: billing_sentinel_def)

lemma driver_no_billing_sentinel [simp]: "billing_sentinel t \<Longrightarrow> \<not> errors_is (Driver d) t"
  by (auto simp: billing_sentinel_def)

end
