(* ===== verification/Go_Text.thy ===== *)
theory Go_Text
  imports Go_Errors "HOL-Library.Char_ord"
begin

text \<open>
  The parts of Go's text libraries the program uses, on strings as lists of bytes:
  decimal printing and parsing (\<open>strconv\<close>), hexadecimal (\<open>encoding/hex\<close>), and
  \<open>strings.Split\<close>, \<open>strings.Cut\<close>, \<open>strings.EqualFold\<close>.
\<close>

section \<open>Decimal numbers\<close>

definition digit_char :: "nat \<Rightarrow> char" where
  "digit_char d = char_of (48 + d)"

definition is_digit :: "char \<Rightarrow> bool" where
  "is_digit c \<longleftrightarrow> CHR ''0'' \<le> c \<and> c \<le> CHR ''9''"

definition digit_value :: "char \<Rightarrow> nat" where
  "digit_value c = of_char c - 48"

fun show_nat :: "nat \<Rightarrow> string" where
  "show_nat n = (if n < 10 then [digit_char n] else show_nat (n div 10) @ [digit_char (n mod 10)])"

declare show_nat.simps [simp del]

text \<open>\<open>strconv.FormatInt(i, 10)\<close>, \<open>strconv.Itoa\<close> and PostgreSQL's \<open>numeric::text\<close> on integers.\<close>

definition show_int :: "int \<Rightarrow> string" where
  "show_int i = (if i < 0 then CHR ''-'' # show_nat (nat (- i)) else show_nat (nat i))"

definition digits_value :: "string \<Rightarrow> nat" where
  "digits_value s = foldl (\<lambda>n c. 10 * n + digit_value c) 0 s"

definition parse_digits :: "string \<Rightarrow> int option" where
  "parse_digits s = (if s \<noteq> [] \<and> list_all is_digit s then Some (int (digits_value s)) else None)"

text \<open>
  \<open>strconv.ParseInt(s, 10, 64)\<close>, and \<open>strconv.Atoi\<close> on a 64-bit platform: an optional sign,
  then decimal digits only, then the range check. Callers only test whether it failed.
\<close>

definition parse_int64 :: "string \<Rightarrow> int64 option" where
  "parse_int64 s =
     (let v = (case s of
                 [] \<Rightarrow> None
               | c # r \<Rightarrow> (if c = CHR ''-'' then map_option uminus (parse_digits r)
                           else if c = CHR ''+'' then parse_digits r
                           else parse_digits s))
      in case v of
           None \<Rightarrow> None
         | Some k \<Rightarrow> (if - 9223372036854775808 \<le> k \<and> k \<le> 9223372036854775807
                      then Some (word_of_int k) else None))"

lemma of_char_digit_char [simp]: "d < 10 \<Longrightarrow> of_char (digit_char d) = (48 + d :: nat)"
  by (simp add: digit_char_def)

lemma is_digit_digit_char [simp]: "d < 10 \<Longrightarrow> is_digit (digit_char d)"
  by (simp add: is_digit_def less_eq_char_def)

lemma digit_value_digit_char [simp]: "d < 10 \<Longrightarrow> digit_value (digit_char d) = d"
  by (simp add: digit_value_def)

lemma digits_value_snoc [simp]: "digits_value (s @ [c]) = 10 * digits_value s + digit_value c"
  by (simp add: digits_value_def)

lemma digits_value_Nil [simp]: "digits_value [] = 0"
  by (simp add: digits_value_def)

lemma show_nat_correct: "show_nat n \<noteq> [] \<and> list_all is_digit (show_nat n) \<and> digits_value (show_nat n) = n"
proof (induction n rule: show_nat.induct)
  case (1 n)
  show ?case
  proof (cases "n < 10")
    case True
    then show ?thesis by (simp add: show_nat.simps [of n] digits_value_def)
  next
    case False
    with "1.IH" show ?thesis by (simp add: show_nat.simps [of n])
  qed
qed

lemma parse_digits_show_nat [simp]: "parse_digits (show_nat n) = Some (int n)"
  by (simp add: parse_digits_def show_nat_correct)

lemma show_nat_first:
  obtains c r where "show_nat n = c # r" and "is_digit c"
  using show_nat_correct [of n] by (cases "show_nat n") auto

lemma not_digit_sign [simp]: "\<not> is_digit CHR ''-''" "\<not> is_digit CHR ''+''"
  by (simp_all add: is_digit_def less_eq_char_def)

lemma parse_int64_show_int: "parse_int64 (show_int (sint (w :: int64))) = Some w"
proof (cases "sint w < 0")
  case True
  then have "parse_int64 (show_int (sint w)) = Some (word_of_int (sint w))"
    using sint_lower [of w] by (simp add: parse_int64_def show_int_def)
  then show ?thesis by simp
next
  case False
  obtain c r where "show_nat (nat (sint w)) = c # r" and "is_digit c"
    by (rule show_nat_first)
  moreover from this have "parse_digits (c # r) = Some (sint w)"
    using False parse_digits_show_nat [of "nat (sint w)"] by simp
  ultimately have "parse_int64 (show_int (sint w)) = Some (word_of_int (sint w))"
    using False sint_upper [of w] by (auto simp: parse_int64_def show_int_def)
  then show ?thesis by simp
qed

lemma show_int_inject: "show_int i = show_int j \<Longrightarrow> i = j"
proof -
  assume eq: "show_int i = show_int j"
  have digits: "show_nat n \<noteq> CHR ''-'' # s" for n s
    using show_nat_first [of n] by (metis list.sel(1) not_digit_sign(1))
  have nat_inj: "show_nat m = show_nat n \<Longrightarrow> m = n" for m n
    by (metis show_nat_correct)
  from eq show ?thesis
    by (auto simp: show_int_def digits digits [symmetric] split: if_splits dest!: nat_inj)
qed

section \<open>Hexadecimal\<close>

type_synonym byte = "8 word"

definition hex_char :: "nat \<Rightarrow> char" where
  "hex_char n = (if n < 10 then char_of (48 + n) else char_of (87 + n))"

definition hex_value :: "char \<Rightarrow> nat option" where
  "hex_value c =
     (if CHR ''0'' \<le> c \<and> c \<le> CHR ''9'' then Some (of_char c - 48)
      else if CHR ''a'' \<le> c \<and> c \<le> CHR ''f'' then Some (of_char c - 87)
      else if CHR ''A'' \<le> c \<and> c \<le> CHR ''F'' then Some (of_char c - 55)
      else None)"

text \<open>\<open>hex.EncodeToString\<close> and \<open>hex.DecodeString\<close>; an odd length or a bad digit is an error.\<close>

fun hex_encode :: "byte list \<Rightarrow> string" where
  "hex_encode [] = []"
| "hex_encode (b # bs) = hex_char (unat b div 16) # hex_char (unat b mod 16) # hex_encode bs"

fun hex_decode :: "string \<Rightarrow> byte list option" where
  "hex_decode [] = Some []"
| "hex_decode [c] = None"
| "hex_decode (c # d # s) =
     (case (hex_value c, hex_value d, hex_decode s) of
        (Some h, Some l, Some bs) \<Rightarrow> Some (word_of_nat (16 * h + l) # bs)
      | _ \<Rightarrow> None)"

definition is_lower_hex :: "char \<Rightarrow> bool" where
  "is_lower_hex c \<longleftrightarrow> (CHR ''0'' \<le> c \<and> c \<le> CHR ''9'') \<or> (CHR ''a'' \<le> c \<and> c \<le> CHR ''f'')"

lemma hex_value_hex_char [simp]: "n < 16 \<Longrightarrow> hex_value (hex_char n) = Some n"
  by (auto simp: hex_value_def hex_char_def less_eq_char_def)

lemma is_lower_hex_hex_char [simp]: "n < 16 \<Longrightarrow> is_lower_hex (hex_char n)"
  by (auto simp: is_lower_hex_def hex_char_def less_eq_char_def)

lemma unat_byte_less [simp]: "unat (b :: byte) < 256"
proof -
  have "unat b < 2 ^ LENGTH(8)" by (rule unsigned_less)
  then show ?thesis by simp
qed

lemma byte_nibbles [simp]:
  "unat (b :: byte) div 16 < 16" "unat b mod 16 < 16"
  using unat_byte_less [of b] by linarith+

lemma hex_decode_encode [simp]: "hex_decode (hex_encode bs) = Some bs"
  by (induction bs) simp_all

lemma length_hex_encode [simp]: "length (hex_encode bs) = 2 * length bs"
  by (induction bs) simp_all

lemma hex_encode_lower: "list_all is_lower_hex (hex_encode bs)"
  by (induction bs) simp_all

lemma hex_value_less: "hex_value c = Some n \<Longrightarrow> n < 16"
  by (auto simp: hex_value_def less_eq_char_def split: if_splits)

lemma hex_char_value:
  "is_lower_hex c \<Longrightarrow> \<exists>n < 16. hex_value c = Some n \<and> hex_char n = c"
  by (auto simp: is_lower_hex_def hex_value_def hex_char_def less_eq_char_def)

lemma length_hex_decode: "hex_decode s = Some bs \<Longrightarrow> length s = 2 * length bs"
  by (induction s arbitrary: bs rule: hex_decode.induct) (auto split: option.splits)

lemma hex_encode_decode_lower:
  "list_all is_lower_hex s \<Longrightarrow> even (length s) \<Longrightarrow> \<exists>bs. hex_decode s = Some bs \<and> hex_encode bs = s"
proof (induction s rule: hex_decode.induct)
  case (3 c d s)
  then obtain bs where bs: "hex_decode s = Some bs" "hex_encode bs = s" by auto
  from 3 have "is_lower_hex c" and "is_lower_hex d" by simp_all
  then obtain h l where h: "h < 16" "hex_value c = Some h" "hex_char h = c"
    and l: "l < 16" "hex_value d = Some l" "hex_char l = d"
    by (blast dest: hex_char_value)
  have "unat (word_of_nat (16 * h + l) :: byte) = 16 * h + l"
    unfolding unat_of_nat using h l by simp
  with bs h l show ?case by simp
qed auto

section \<open>Splitting\<close>

text \<open>\<open>strings.Split(s, sep)\<close> for a one-byte separator: always at least one part.\<close>

fun split_on :: "char \<Rightarrow> string \<Rightarrow> string list" where
  "split_on c [] = [[]]"
| "split_on c (x # xs) =
     (if x = c then [] # split_on c xs
      else (case split_on c xs of [] \<Rightarrow> [[x]] | p # ps \<Rightarrow> (x # p) # ps))"

text \<open>\<open>strings.Cut(s, sep)\<close>: \<open>None\<close> when the separator does not occur.\<close>

fun cut :: "char \<Rightarrow> string \<Rightarrow> (string \<times> string) option" where
  "cut c [] = None"
| "cut c (x # xs) = (if x = c then Some ([], xs) else map_option (\<lambda>(a, b). (x # a, b)) (cut c xs))"

definition lower_ascii :: "char \<Rightarrow> char" where
  "lower_ascii c = (if CHR ''A'' \<le> c \<and> c \<le> CHR ''Z'' then char_of (of_char c + 32 :: nat) else c)"

text \<open>
  \<open>strings.EqualFold(s, t)\<close> for a \<open>t\<close> of ASCII letters none of which has a non-ASCII case
  variant, as in \<open>"Bearer"\<close>.
\<close>

definition equal_fold :: "string \<Rightarrow> string \<Rightarrow> bool" where
  "equal_fold s t \<longleftrightarrow> map lower_ascii s = map lower_ascii t"

text \<open>Joining with the separator: the inverse of \<open>split_on\<close>.\<close>

fun join_on :: "char \<Rightarrow> string list \<Rightarrow> string" where
  "join_on c [] = []"
| "join_on c [p] = p"
| "join_on c (p # ps) = p @ c # join_on c ps"

lemma split_on_not_Nil [simp]: "split_on c s \<noteq> []"
  by (induction s) (auto split: list.splits)

lemma join_split [simp]: "join_on c (split_on c s) = s"
proof (induction s)
  case (Cons x xs)
  obtain p ps where ps: "split_on c xs = p # ps"
    by (cases "split_on c xs") auto
  with Cons show ?case by (cases ps) auto
qed simp

lemma split_on_parts: "p \<in> set (split_on c s) \<Longrightarrow> c \<notin> set p"
  by (induction s arbitrary: p) (auto split: list.splits if_splits)

lemma split_on_single: "c \<notin> set s \<Longrightarrow> split_on c s = [s]"
  by (induction s) auto

lemma split_on_append: "c \<notin> set p \<Longrightarrow> split_on c (p @ c # s) = p # split_on c s"
  by (induction p) auto

lemma split_join: "ps \<noteq> [] \<Longrightarrow> \<forall>p\<in>set ps. c \<notin> set p \<Longrightarrow> split_on c (join_on c ps) = ps"
  by (induction c ps rule: join_on.induct) (auto simp: split_on_single split_on_append)

lemma cut_Some: "cut c s = Some (a, b) \<longleftrightarrow> s = a @ c # b \<and> c \<notin> set a"
proof (induction s arbitrary: a)
  case (Cons x xs)
  then show ?case by (cases a) auto
qed simp

end
