(* ===== verification/Billing_Types.thy ===== *)
theory Billing_Types
  imports Go_Text
begin

text \<open>
  The data of \<open>internal/billing/types.go\<close>: the structs as records with the source's field
  names (prefixed where two structs share one), int64 fields as \<open>int64\<close>, Go strings as
  \<open>string\<close>, \<open>time.Time\<close> as microseconds since the Unix epoch, and Go's \<open>int\<close> counters,
  which the schema keeps between 0 and 3, as \<open>int\<close>. The repository interface is a record of
  functions over a state \<open>'s\<close>: the context argument is what the call meets (\<open>'e ctx\<close> of
  theory \<open>Request_Id\<close> carries it), an error result is \<open>Inl\<close>.
\<close>

datatype 'a go_outcome = Return 'a | Panic string

record input =
  EventID :: string
  CustomerID :: string
  Meter :: string
  Units :: int64

record event =
  Input :: input
  RequestID :: string
  UnitPriceMicros :: int64
  AmountMicros :: int64
  Currency :: string
  Processed :: bool
  CreatedAt :: int
  Failed :: bool
  ProcessingFailures :: int
  FailureCode :: string
  RetryGeneration :: int64

record processing_event =
  pe_RequestID :: string
  pe_Outcome :: string
  pe_FailureCode :: string
  pe_ProcessingFailures :: int
  pe_RetryGeneration :: int64

record batch_result =
  br_Processed :: int
  br_Events :: "processing_event list"

record summary =
  sm_CustomerID :: string
  sm_Currency :: string
  sm_Units :: string
  sm_AmountMicros :: string
  sm_Pending :: int
  sm_Processed :: int
  sm_Failed :: int

text \<open>The zero values Go fills unset fields with; the zero \<open>time.Time\<close> is 1 January of year 1.\<close>

definition zero_input :: input where
  "zero_input = \<lparr>EventID = [], CustomerID = [], Meter = [], Units = 0\<rparr>"

definition zero_event :: event where
  "zero_event = \<lparr>Input = zero_input, RequestID = [], UnitPriceMicros = 0, AmountMicros = 0,
     Currency = [], Processed = False, CreatedAt = - 62135596800000000, Failed = False,
     ProcessingFailures = 0, FailureCode = [], RetryGeneration = 0\<rparr>"

definition zero_processing_event :: processing_event where
  "zero_processing_event = \<lparr>pe_RequestID = [], pe_Outcome = [], pe_FailureCode = [],
     pe_ProcessingFailures = 0, pe_RetryGeneration = 0\<rparr>"

definition zero_batch_result :: batch_result where
  "zero_batch_result = \<lparr>br_Processed = 0, br_Events = []\<rparr>"

text \<open>What acceptance freezes: everything of an event but its processing state.\<close>

definition frozen :: "event \<Rightarrow> input \<times> string \<times> int64 \<times> int64 \<times> string \<times> int" where
  "frozen e = (Input e, RequestID e, UnitPriceMicros e, AmountMicros e, Currency e, CreatedAt e)"

end
