(* ===== verification/Request_Id.thy ===== *)
theory Request_Id
  imports Billing_Types
begin

text \<open>
  \<open>internal/requestid/requestid.go\<close>: server-generated correlation identifiers. A Go context is
  a record of the one value the program stores in it and of \<open>ctx_env\<close>, what a call made with
  that context meets (deadline, database, clock); the outcome of \<open>crypto/rand\<close> is an argument.
\<close>

record 'e ctx =
  ctx_request_id :: "string option"
  ctx_env :: 'e

text \<open>\<open>New\<close>: the entropy source fills 16 bytes or fails.\<close>

definition requestid_New :: "byte list option \<Rightarrow> string go_outcome" where
  "requestid_New rand = (case rand of
     None \<Rightarrow> Panic ''request id entropy unavailable''
   | Some raw \<Rightarrow> Return (hex_encode raw))"

definition ForLog :: "string \<Rightarrow> string" where
  "ForLog rid = (if length rid \<noteq> 32 then [] else
     (case hex_decode rid of None \<Rightarrow> [] | Some raw \<Rightarrow> hex_encode raw))"

definition WithContext :: "'e ctx \<Rightarrow> string \<Rightarrow> 'e ctx" where
  "WithContext c rid = c\<lparr>ctx_request_id := Some (ForLog rid)\<rparr>"

definition FromContext :: "'e ctx \<Rightarrow> string" where
  "FromContext c = (case ctx_request_id c of None \<Rightarrow> [] | Some rid \<Rightarrow> rid)"

text \<open>A well-formed identifier: 32 lower-case hexadecimal digits.\<close>

definition request_id_ok :: "string \<Rightarrow> bool" where
  "request_id_ok s \<longleftrightarrow> length s = 32 \<and> list_all is_lower_hex s"

lemma request_id_ok_not_Nil [simp]: "\<not> request_id_ok []"
  by (simp add: request_id_ok_def)

lemma ForLog_ok: "ForLog rid = [] \<or> request_id_ok (ForLog rid)"
  by (auto simp: ForLog_def request_id_ok_def hex_encode_lower dest!: length_hex_decode
        split: option.splits)

lemma ForLog_id: "request_id_ok rid \<Longrightarrow> ForLog rid = rid"
  using hex_encode_decode_lower [of rid] by (auto simp: ForLog_def request_id_ok_def)

lemma ForLog_fixed_iff: "rid \<noteq> [] \<Longrightarrow> ForLog rid = rid \<longleftrightarrow> request_id_ok rid"
  by (metis ForLog_id ForLog_ok)

lemma ForLog_idem [simp]: "ForLog (ForLog rid) = ForLog rid"
  using ForLog_ok [of rid] by (auto simp: ForLog_id) (simp add: ForLog_def)

lemma requestid_New_ok: "requestid_New (Some raw) = Return rid \<Longrightarrow> length raw = 16 \<Longrightarrow> request_id_ok rid"
  by (auto simp: requestid_New_def request_id_ok_def hex_encode_lower)

lemma FromContext_WithContext [simp]: "FromContext (WithContext c rid) = ForLog rid"
  by (simp add: FromContext_def WithContext_def)

lemma WithContext_env [simp]: "ctx_env (WithContext c rid) = ctx_env c"
  by (simp add: WithContext_def)

text \<open>A context whose identifier was stored by \<open>WithContext\<close>, or that carries none.\<close>

definition ctx_ok :: "'e ctx \<Rightarrow> bool" where
  "ctx_ok c \<longleftrightarrow> FromContext c = [] \<or> request_id_ok (FromContext c)"

lemma WithContext_ok [simp]: "ctx_ok (WithContext c rid)"
  using ForLog_ok [of rid] by (simp add: ctx_ok_def)

end
