(* ===== verification/Billing_Service.thy ===== *)
theory Billing_Service
  imports Request_Id
begin

text \<open>
  \<open>internal/billing/service.go\<close>: validation, pricing with the overflow check, and the four
  calls of the repository. The repository interface of \<open>types.go\<close> is the record
  \<open>repository\<close>; what the service relies on is the locale \<open>billing_repository\<close>, in which the
  service's lemmas are proved once, for every repository that keeps the contract.
\<close>

section \<open>The repository interface and the service\<close>

record ('e, 's) repository =
  repo_Accept :: "'e ctx \<Rightarrow> event \<Rightarrow> 's \<Rightarrow> (go_error + event \<times> bool) \<times> 's"
  repo_Get :: "'e ctx \<Rightarrow> string \<Rightarrow> 's \<Rightarrow> go_error + event"
  repo_Summary :: "'e ctx \<Rightarrow> string \<Rightarrow> 's \<Rightarrow> go_error + summary"
  repo_Retry :: "'e ctx \<Rightarrow> string \<Rightarrow> int64 \<Rightarrow> 's \<Rightarrow> (go_error + event \<times> bool) \<times> 's"

record ('e, 's) service =
  svc_repo :: "('e, 's) repository"
  svc_rate :: int64

text \<open>\<open>New\<close>: a nil repository is \<open>None\<close>.\<close>

definition service_New :: "('e, 's) repository option \<Rightarrow> int64 \<Rightarrow> go_error + ('e, 's) service" where
  "service_New repo rate = (case repo of
     None \<Rightarrow> Inl (New ''billing repository is required'')
   | Some r \<Rightarrow> (if sint rate \<le> 0 then Inl (New ''billing rate must be positive'')
               else Inr \<lparr>svc_repo = r, svc_rate = rate\<rparr>))"

definition id_byte :: "char \<Rightarrow> bool" where
  "id_byte b \<longleftrightarrow>
     (let letter = (b \<ge> CHR ''a'' \<and> b \<le> CHR ''z'') \<or> (b \<ge> CHR ''A'' \<and> b \<le> CHR ''Z'');
          digit = b \<ge> CHR ''0'' \<and> b \<le> CHR ''9'';
          separator = b = CHR ''_'' \<or> b = CHR ''-''
      in \<not> (\<not> letter \<and> \<not> digit \<and> \<not> separator))"

fun validate_bytes :: "string \<Rightarrow> go_error option" where
  "validate_bytes [] = None"
| "validate_bytes (b # bs) = (if \<not> id_byte b then Some ErrInvalid else validate_bytes bs)"

definition ValidateID :: "string \<Rightarrow> go_error option" where
  "ValidateID eid = (if length eid = 0 \<or> length eid > 64 then Some ErrInvalid else validate_bytes eid)"

text \<open>The event \<open>Accept\<close> hands to the repository.\<close>

definition priced_event :: "int64 \<Rightarrow> string \<Rightarrow> input \<Rightarrow> event" where
  "priced_event rate rid inp = zero_event\<lparr>RequestID := rid, Input := inp, UnitPriceMicros := rate,
     AmountMicros := Units inp * rate, Currency := ''USD''\<rparr>"

definition service_Accept ::
  "('e, 's) service \<Rightarrow> byte list option \<Rightarrow> 'e ctx \<Rightarrow> input \<Rightarrow> 's \<Rightarrow>
   ((go_error + event \<times> bool) \<times> 's) go_outcome" where
  "service_Accept sv rand c inp s =
     (case ValidateID (EventID inp) of
        Some err \<Rightarrow> Return (Inl (Wrap ''event identifier'' err), s)
      | None \<Rightarrow>
     (case ValidateID (CustomerID inp) of
        Some err \<Rightarrow> Return (Inl (Wrap ''customer identifier'' err), s)
      | None \<Rightarrow>
     (if Meter inp \<noteq> ''api_calls'' \<or> sint (Units inp) \<le> 0 then Return (Inl ErrInvalid, s)
      else if sint (Units inp) > sint (go_div max_int64 (svc_rate sv)) then
        (case repo_Get (svc_repo sv) c (EventID inp) s of
           Inl err \<Rightarrow>
             (if errors_is err ErrNotFound then Return (Inl ErrInvalid, s)
              else Return (Inl (Wrap ''find original usage'' err), s))
         | Inr existing \<Rightarrow>
             (if Input existing \<noteq> inp then Return (Inl ErrConflict, s)
              else Return (Inr (existing, False), s)))
      else
        (case (if FromContext c = [] then requestid_New rand else Return (FromContext c)) of
           Panic m \<Rightarrow> Panic m
         | Return rid \<Rightarrow>
             (case repo_Accept (svc_repo sv) c (priced_event (svc_rate sv) rid inp) s of
                (Inl err, s') \<Rightarrow> Return (Inl (Wrap ''accept usage'' err), s')
              | (Inr (event, created), s') \<Rightarrow> Return (Inr (event, created), s'))))))"

definition service_Get :: "('e, 's) service \<Rightarrow> 'e ctx \<Rightarrow> string \<Rightarrow> 's \<Rightarrow> go_error + event" where
  "service_Get sv c eid s =
     (case ValidateID eid of
        Some err \<Rightarrow> Inl err
      | None \<Rightarrow> (case repo_Get (svc_repo sv) c eid s of
          Inl err \<Rightarrow> Inl (Wrap ''get usage'' err)
        | Inr event \<Rightarrow> Inr event))"

definition service_Summary :: "('e, 's) service \<Rightarrow> 'e ctx \<Rightarrow> string \<Rightarrow> 's \<Rightarrow> go_error + summary" where
  "service_Summary sv c customer s =
     (case ValidateID customer of
        Some err \<Rightarrow> Inl err
      | None \<Rightarrow> (case repo_Summary (svc_repo sv) c customer s of
          Inl err \<Rightarrow> Inl (Wrap ''get customer summary'' err)
        | Inr summary \<Rightarrow> Inr summary))"

definition service_Retry ::
  "('e, 's) service \<Rightarrow> 'e ctx \<Rightarrow> string \<Rightarrow> int64 \<Rightarrow> 's \<Rightarrow> (go_error + event \<times> bool) \<times> 's" where
  "service_Retry sv c eid generation s =
     (case ValidateID eid of
        Some err \<Rightarrow> (Inl err, s)
      | None \<Rightarrow>
     (if sint generation < 0 \<or> generation = max_int64 then (Inl ErrInvalid, s)
      else (case repo_Retry (svc_repo sv) c eid generation s of
              (Inl err, s') \<Rightarrow> (Inl (Wrap ''retry usage'' err), s')
            | (Inr (event, retried), s') \<Rightarrow> (Inr (event, retried), s'))))"

section \<open>Identifiers and prices\<close>

definition valid_id :: "string \<Rightarrow> bool" where
  "valid_id s \<longleftrightarrow> 1 \<le> length s \<and> length s \<le> 64 \<and> list_all id_byte s"

lemma validate_bytes_iff: "validate_bytes bs = (if list_all id_byte bs then None else Some ErrInvalid)"
  by (induction bs) auto

lemma ValidateID_iff: "ValidateID eid = (if valid_id eid then None else Some ErrInvalid)"
  by (cases eid) (auto simp: ValidateID_def valid_id_def validate_bytes_iff)

definition valid_input :: "input \<Rightarrow> bool" where
  "valid_input inp \<longleftrightarrow> valid_id (EventID inp) \<and> valid_id (CustomerID inp) \<and>
     Meter inp = ''api_calls'' \<and> 0 < sint (Units inp)"

text \<open>The charge of an input at a rate fits in an int64.\<close>

definition fits :: "int64 \<Rightarrow> input \<Rightarrow> bool" where
  "fits rate inp \<longleftrightarrow> sint (Units inp) * sint rate \<le> 9223372036854775807"

lemma overflow_test_fits:
  "valid_input inp \<Longrightarrow> 0 < sint rate \<Longrightarrow>
   sint (go_div max_int64 rate) < sint (Units inp) \<longleftrightarrow> \<not> fits rate inp"
  by (auto simp: fits_def valid_input_def mul_overflow_test)

lemma priced_event_amount:
  "valid_input inp \<Longrightarrow> 0 < sint rate \<Longrightarrow> fits rate inp \<Longrightarrow>
   sint (AmountMicros (priced_event rate rid inp)) = sint (Units inp) * sint rate"
  by (simp add: priced_event_def fits_def valid_input_def go_arith order.trans [OF _ mult_nonneg_nonneg])

lemma priced_event_simps [simp]:
  "Input (priced_event rate rid inp) = inp"
  "RequestID (priced_event rate rid inp) = rid"
  "UnitPriceMicros (priced_event rate rid inp) = rate"
  "Currency (priced_event rate rid inp) = ''USD''"
  by (simp_all add: priced_event_def)

section \<open>What each operation does\<close>

lemma service_Accept_invalid:
  "\<not> valid_input inp \<Longrightarrow>
   \<exists>err. service_Accept sv rand c inp s = Return (Inl err, s) \<and> errors_is err ErrInvalid"
  by (auto simp: service_Accept_def valid_input_def ValidateID_iff)

lemma service_Accept_overflow:
  "valid_input inp \<Longrightarrow> 0 < sint (svc_rate sv) \<Longrightarrow> \<not> fits (svc_rate sv) inp \<Longrightarrow>
   service_Accept sv rand c inp s =
     Return (case repo_Get (svc_repo sv) c (EventID inp) s of
        Inl err \<Rightarrow> Inl (if errors_is err ErrNotFound then ErrInvalid else Wrap ''find original usage'' err)
      | Inr existing \<Rightarrow> (if Input existing = inp then Inr (existing, False) else Inl ErrConflict), s)"
  using overflow_test_fits [of inp "svc_rate sv"]
  by (auto simp: service_Accept_def valid_input_def ValidateID_iff split: sum.splits)

lemma service_Accept_priced:
  "valid_input inp \<Longrightarrow> 0 < sint (svc_rate sv) \<Longrightarrow> fits (svc_rate sv) inp \<Longrightarrow>
   (if FromContext c = [] then requestid_New rand else Return (FromContext c)) = Return rid \<Longrightarrow>
   service_Accept sv rand c inp s =
     Return (case repo_Accept (svc_repo sv) c (priced_event (svc_rate sv) rid inp) s of
        (Inl err, s') \<Rightarrow> (Inl (Wrap ''accept usage'' err), s')
      | (Inr r, s') \<Rightarrow> (Inr r, s'))"
  using overflow_test_fits [of inp "svc_rate sv"]
  by (auto simp: service_Accept_def valid_input_def ValidateID_iff split: sum.splits prod.splits)

lemma service_Retry_invalid:
  "\<not> (valid_id eid \<and> 0 \<le> sint g \<and> g \<noteq> max_int64) \<Longrightarrow> service_Retry sv c eid g s = (Inl ErrInvalid, s)"
  by (auto simp: service_Retry_def ValidateID_iff)

lemma service_Retry_valid:
  "valid_id eid \<Longrightarrow> 0 \<le> sint g \<Longrightarrow> g \<noteq> max_int64 \<Longrightarrow>
   service_Retry sv c eid g s = (case repo_Retry (svc_repo sv) c eid g s of
        (Inl err, s') \<Rightarrow> (Inl (Wrap ''retry usage'' err), s')
      | (Inr r, s') \<Rightarrow> (Inr r, s'))"
  by (auto simp: service_Retry_def ValidateID_iff split: sum.splits prod.splits)


section \<open>What the service relies on\<close>

text \<open>
  The contract of \<open>Repository\<close>: \<open>stored s i\<close> is the event kept under an identifier. A success
  of \<open>Accept\<close> is a new event with the given price, or the one already kept for the same input;
  the sentinels tell why it failed; nothing kept ever changes its frozen part.
\<close>

locale billing_repository =
  fixes repo :: "('e, 's) repository"
    and inv :: "'s \<Rightarrow> bool"
    and stored :: "'s \<Rightarrow> string \<Rightarrow> event option"
  assumes accept_inv: "inv s \<Longrightarrow> inv (snd (repo_Accept repo c ev s))"
    and accept_created: "inv s \<Longrightarrow> repo_Accept repo c ev s = (Inr (e, True), s') \<Longrightarrow>
      stored s (EventID (Input ev)) = None \<and> stored s' = (stored s)(EventID (Input ev) \<mapsto> e) \<and>
      (\<exists>now. frozen e = frozen (ev\<lparr>CreatedAt := now\<rparr>)) \<and> \<not> Processed e"
    and accept_replayed: "inv s \<Longrightarrow> repo_Accept repo c ev s = (Inr (e, False), s') \<Longrightarrow>
      stored s (EventID (Input ev)) = Some e \<and> Input e = Input ev \<and> s' = s"
    and accept_conflict: "inv s \<Longrightarrow> repo_Accept repo c ev s = (Inl err, s') \<Longrightarrow> errors_is err ErrConflict \<Longrightarrow>
      (\<exists>e. stored s (EventID (Input ev)) = Some e \<and> Input e \<noteq> Input ev) \<and> s' = s"
    and accept_kept: "inv s \<Longrightarrow> stored s i = Some e \<Longrightarrow> stored (snd (repo_Accept repo c ev s)) i = Some e"
    and get_found: "inv s \<Longrightarrow> repo_Get repo c i s = Inr e \<Longrightarrow> stored s i = Some e"
    and get_missing: "inv s \<Longrightarrow> repo_Get repo c i s = Inl err \<Longrightarrow> errors_is err ErrNotFound \<Longrightarrow> stored s i = None"
    and get_sentinels: "inv s \<Longrightarrow> repo_Get repo c i s = Inl err \<Longrightarrow> \<not> errors_is err ErrConflict"
    and retry_inv: "inv s \<Longrightarrow> inv (snd (repo_Retry repo c i g s))"
    and retry_kept: "inv s \<Longrightarrow> stored s i = Some e \<Longrightarrow>
      \<exists>e'. stored (snd (repo_Retry repo c j g s)) i = Some e' \<and> frozen e' = frozen e"
begin

text \<open>The three ways an \<open>Accept\<close> goes, whatever the request.\<close>

lemma Accept_unfold:
  assumes "valid_input inp" and "0 < sint (svc_rate sv)" and "svc_repo sv = repo"
    and "service_Accept sv rand c inp s = Return (r, s')"
  obtains (overflow) "\<not> fits (svc_rate sv) inp" "s' = s"
      "r = (case repo_Get repo c (EventID inp) s of
        Inl err \<Rightarrow> Inl (if errors_is err ErrNotFound then ErrInvalid else Wrap ''find original usage'' err)
      | Inr existing \<Rightarrow> (if Input existing = inp then Inr (existing, False) else Inl ErrConflict))"
  | (priced) rid a where "fits (svc_rate sv) inp"
      "(if FromContext c = [] then requestid_New rand else Return (FromContext c)) = Return rid"
      "repo_Accept repo c (priced_event (svc_rate sv) rid inp) s = (a, s')"
      "r = (case a of Inl err \<Rightarrow> Inl (Wrap ''accept usage'' err) | Inr x \<Rightarrow> Inr x)"
proof (cases "fits (svc_rate sv) inp")
  case False
  with service_Accept_overflow [OF assms(1,2) False] assms(3,4) overflow show thesis by auto
next
  case True
  obtain rid where rid: "(if FromContext c = [] then requestid_New rand else Return (FromContext c)) = Return rid"
    using assms True overflow_test_fits [OF assms(1,2)]
    by (cases "if FromContext c = [] then requestid_New rand else Return (FromContext c)")
      (auto simp: service_Accept_def valid_input_def ValidateID_iff)
  obtain a s1 where a: "repo_Accept repo c (priced_event (svc_rate sv) rid inp) s = (a, s1)" by fastforce
  from service_Accept_priced [OF assms(1,2) True rid, of s] a assms(3,4)
  have "r = (case a of Inl err \<Rightarrow> Inl (Wrap ''accept usage'' err) | Inr x \<Rightarrow> Inr x)" "s1 = s'"
    by (auto split: sum.splits)
  with True rid a priced show thesis by simp
qed

lemma Accept_keeps_inv:
  assumes "inv s" and "service_Accept sv rand c inp s = Return (r, s')"
    and "0 < sint (svc_rate sv)" and "svc_repo sv = repo"
  shows "inv s' \<and> (\<forall>i e. stored s i = Some e \<longrightarrow> stored s' i = Some e)"
proof (cases "valid_input inp")
  case False
  with service_Accept_invalid [OF False, of sv rand c s] assms show ?thesis by auto
next
  case True
  from True assms(3,4,2) show ?thesis
  proof (cases rule: Accept_unfold)
    case overflow
    with assms(1) show ?thesis by simp
  next
    case (priced rid a)
    from accept_inv [OF assms(1)] accept_kept [OF assms(1)] priced(3) show ?thesis
      by (metis snd_conv)
  qed
qed

lemma Accept_created:
  assumes "inv s" and "0 < sint (svc_rate sv)" and "svc_repo sv = repo"
    and run: "service_Accept sv rand c inp s = Return (Inr (e, True), s')"
  shows "valid_input inp \<and> Input e = inp \<and> UnitPriceMicros e = svc_rate sv \<and> Currency e = ''USD'' \<and>
     sint (AmountMicros e) = sint (Units inp) * sint (svc_rate sv) \<and>
     stored s (EventID inp) = None \<and> stored s' = (stored s)(EventID inp \<mapsto> e)"
proof -
  have valid: "valid_input inp"
    using service_Accept_invalid [of inp sv rand c s] run by fastforce
  from valid assms(2,3) run show ?thesis
  proof (cases rule: Accept_unfold)
    case overflow
    then show ?thesis by (auto split: sum.splits if_splits)
  next
    case (priced rid a)
    then have a: "a = Inr (e, True)" by (auto split: sum.splits)
    from accept_created [OF assms(1) priced(3) [unfolded a]] obtain now where
      "stored s (EventID inp) = None" "stored s' = (stored s)(EventID inp \<mapsto> e)"
      and fr: "frozen e = frozen ((priced_event (svc_rate sv) rid inp)\<lparr>CreatedAt := now\<rparr>)" by auto
    moreover from fr have "AmountMicros e = AmountMicros (priced_event (svc_rate sv) rid inp)"
      "Input e = inp" "UnitPriceMicros e = svc_rate sv" "Currency e = ''USD''"
      by (simp_all add: frozen_def)
    ultimately show ?thesis
      using priced_event_amount [OF valid assms(2) priced(1), of rid] valid by simp
  qed
qed

text \<open>The invariant needs neither a valid input nor a sensible rate.\<close>

lemma Accept_inv:
  assumes "inv s" and "svc_repo sv = repo" and "service_Accept sv rand c inp s = Return (r, s')"
  shows "inv s'"
proof -
  have "inv s1" if "repo_Accept repo c ev s = (x, s1)" for ev x s1
    using accept_inv [OF assms(1), of c ev] that by simp
  with assms show ?thesis
    by (auto simp: service_Accept_def split: option.splits if_splits sum.splits go_outcome.splits prod.splits)
qed

lemma Retry_inv:
  assumes "inv s" and "svc_repo sv = repo"
  shows "inv (snd (service_Retry sv c i g s))"
  using retry_inv [OF assms(1), of c i g] assms
  by (auto simp: service_Retry_def split: option.splits sum.splits prod.splits)

text \<open>A replay returns what was kept, with the price of its first acceptance; nothing changes.\<close>

lemma Accept_replayed:
  assumes "inv s" and "0 < sint (svc_rate sv)" and "svc_repo sv = repo"
    and run: "service_Accept sv rand c inp s = Return (Inr (e, False), s')"
  shows "stored s (EventID inp) = Some e \<and> Input e = inp \<and> s' = s"
proof -
  have valid: "valid_input inp"
    using service_Accept_invalid [of inp sv rand c s] run by fastforce
  from valid assms(2,3) run show ?thesis
  proof (cases rule: Accept_unfold)
    case overflow
    then show ?thesis using get_found [OF assms(1)] by (auto split: sum.splits if_splits)
  next
    case (priced rid a)
    then have a: "a = Inr (e, False)" by (auto split: sum.splits)
    from accept_replayed [OF assms(1) priced(3) [unfolded a]] show ?thesis by simp
  qed
qed

text \<open>A conflict is a different input kept under the identifier.\<close>

lemma Accept_conflict:
  assumes "inv s" and "0 < sint (svc_rate sv)" and "svc_repo sv = repo"
    and run: "service_Accept sv rand c inp s = Return (Inl err, s')" and err: "errors_is err ErrConflict"
  shows "(\<exists>e. stored s (EventID inp) = Some e \<and> Input e \<noteq> inp) \<and> s' = s"
proof -
  have valid: "valid_input inp"
  proof (rule ccontr)
    assume "\<not> valid_input inp"
    then have "\<exists>err. service_Accept sv rand c inp s = Return (Inl err, s) \<and> \<not> errors_is err ErrConflict"
      by (auto simp: service_Accept_def valid_input_def ValidateID_iff)
    with run err show False by auto
  qed
  from valid assms(2,3) run show ?thesis
  proof (cases rule: Accept_unfold)
    case overflow
    then show ?thesis using err get_found [OF assms(1)] get_sentinels [OF assms(1)]
      by (auto split: sum.splits if_splits)
  next
    case (priced rid a)
    then obtain e0 where a: "a = Inl e0" "err = Wrap ''accept usage'' e0" by (auto split: sum.splits)
    from accept_conflict [OF assms(1) priced(3) [unfolded a(1)]] a err show ?thesis by simp
  qed
qed

end

end
