(* ===== verification/Pg_Schema.thy ===== *)
theory Pg_Schema
  imports Billing_Service
begin

text \<open>
  The schema of \<open>migrations/*.up.sql\<close> as records and check predicates, and every SQL statement
  of \<open>internal/postgres/store.go\<close> as a function on the three tables. A table is the list of its
  rows; a statement maps the tables it sees to its result and the changed tables, or to the
  SQLSTATE it fails with. What a statement takes from the database service and not from its own
  text (the clock, the rows other transactions have locked, the collation, constraints an
  operator has added to the ledger) is an argument.
\<close>

section \<open>Tables\<close>

record usage_row =
  u_event_id :: string
  u_customer_id :: string
  u_meter :: string
  u_units :: int64
  u_unit_price_micros :: int64
  u_amount_micros :: int64
  u_currency :: string
  u_created_at :: int
  u_request_id :: string

record pending_row =
  p_event_id :: string
  p_enqueued_at :: int
  p_processing_failures :: int
  p_failure_code :: string
  p_retry_generation :: int64

record ledger_row =
  l_event_id :: string
  l_processed_at :: int

record db =
  usage_events :: "usage_row list"
  pending_events :: "pending_row list"
  ledger_entries :: "ledger_row list"

definition empty_db :: db where
  "empty_db = \<lparr>usage_events = [], pending_events = [], ledger_entries = []\<rparr>"

abbreviation usage_ids :: "db \<Rightarrow> string list" where
  "usage_ids d \<equiv> map u_event_id (usage_events d)"

abbreviation pending_ids :: "db \<Rightarrow> string list" where
  "pending_ids d \<equiv> map p_event_id (pending_events d)"

abbreviation ledger_ids :: "db \<Rightarrow> string list" where
  "ledger_ids d \<equiv> map l_event_id (ledger_entries d)"

section \<open>Check constraints\<close>

text \<open>The regular expression \<open>^[A-Za-z0-9_-]{1,64}$\<close>, and \<open>^[0-9a-f]{32}$\<close> or empty.\<close>

definition sql_id_char :: "char \<Rightarrow> bool" where
  "sql_id_char c \<longleftrightarrow> (CHR ''A'' \<le> c \<and> c \<le> CHR ''Z'') \<or> (CHR ''a'' \<le> c \<and> c \<le> CHR ''z'') \<or>
     (CHR ''0'' \<le> c \<and> c \<le> CHR ''9'') \<or> c = CHR ''_'' \<or> c = CHR ''-''"

definition sql_id :: "string \<Rightarrow> bool" where
  "sql_id s \<longleftrightarrow> 1 \<le> length s \<and> length s \<le> 64 \<and> list_all sql_id_char s"

definition sql_request_id :: "string \<Rightarrow> bool" where
  "sql_request_id s \<longleftrightarrow> s = [] \<or> length s = 32 \<and> list_all is_lower_hex s"

definition usage_check :: "usage_row \<Rightarrow> bool" where
  "usage_check u \<longleftrightarrow> sql_id (u_event_id u) \<and> sql_id (u_customer_id u) \<and>
     u_meter u = ''api_calls'' \<and> 0 < sint (u_units u) \<and> 0 < sint (u_unit_price_micros u) \<and>
     0 < sint (u_amount_micros u) \<and> u_currency u = ''USD'' \<and>
     sint (u_amount_micros u) = sint (u_units u) * sint (u_unit_price_micros u) \<and>
     sql_request_id (u_request_id u)"

definition failure_codes :: "string list" where
  "failure_codes = ['''', ''23502'', ''23503'', ''23505'', ''23514'', ''23P01'']"

definition pending_check :: "pending_row \<Rightarrow> bool" where
  "pending_check p \<longleftrightarrow> 0 \<le> p_processing_failures p \<and> p_processing_failures p \<le> 3 \<and>
     p_failure_code p \<in> set failure_codes \<and> 0 \<le> sint (p_retry_generation p) \<and>
     (p_processing_failures p = 0) = (p_failure_code p = '''')"

section \<open>Joins\<close>

definition inner_join :: "('a \<Rightarrow> 'b \<Rightarrow> bool) \<Rightarrow> 'a list \<Rightarrow> 'b list \<Rightarrow> ('a \<times> 'b) list" where
  "inner_join on xs ys = concat (map (\<lambda>x. map (Pair x) (filter (on x) ys)) xs)"

definition left_join :: "('a \<Rightarrow> 'b \<Rightarrow> bool) \<Rightarrow> 'a list \<Rightarrow> 'b list \<Rightarrow> ('a \<times> 'b option) list" where
  "left_join on xs ys = concat (map (\<lambda>x. (case filter (on x) ys of
      [] \<Rightarrow> [(x, None)] | zs \<Rightarrow> map (\<lambda>z. (x, Some z)) zs)) xs)"

section \<open>Statements of Accept\<close>

text \<open>
  \<open>INSERT INTO usage_events ... ON CONFLICT (event_id) DO NOTHING\<close>: the number of rows affected.
  The new row's checks are evaluated before the conflict is looked for.
\<close>

definition usage_row_of :: "event \<Rightarrow> int \<Rightarrow> usage_row" where
  "usage_row_of ev now = \<lparr>u_event_id = EventID (Input ev), u_customer_id = CustomerID (Input ev),
     u_meter = Meter (Input ev), u_units = Units (Input ev),
     u_unit_price_micros = UnitPriceMicros ev, u_amount_micros = AmountMicros ev,
     u_currency = Currency ev, u_created_at = now, u_request_id = RequestID ev\<rparr>"

definition sql_insert_usage :: "event \<Rightarrow> int \<Rightarrow> db \<Rightarrow> string + nat \<times> db" where
  "sql_insert_usage ev now d =
     (let u = usage_row_of ev now in
      if \<not> usage_check u then Inl ''23514''
      else if u_event_id u \<in> set (usage_ids d) then Inr (0, d)
      else Inr (1, d\<lparr>usage_events := usage_events d @ [u]\<rparr>))"

text \<open>\<open>SELECT pg_advisory_xact_lock(...)\<close> changes no table.\<close>

definition sql_advisory_lock :: "int \<Rightarrow> db \<Rightarrow> string + unit \<times> db" where
  "sql_advisory_lock now d = Inr ((), d)"

text \<open>\<open>SELECT COUNT(*) FROM (SELECT 1 FROM pending_events LIMIT $1)\<close>\<close>

definition sql_count_pending :: "int64 \<Rightarrow> int \<Rightarrow> db \<Rightarrow> string + int \<times> db" where
  "sql_count_pending limit now d = Inr (int (length (take (nat (sint limit)) (pending_events d))), d)"

text \<open>\<open>INSERT INTO pending_events (event_id) VALUES ($1)\<close> with the column defaults.\<close>

definition pending_row_of :: "string \<Rightarrow> int \<Rightarrow> pending_row" where
  "pending_row_of i now = \<lparr>p_event_id = i, p_enqueued_at = now, p_processing_failures = 0,
     p_failure_code = '''', p_retry_generation = 0\<rparr>"

definition sql_insert_pending :: "string \<Rightarrow> int \<Rightarrow> db \<Rightarrow> string + nat \<times> db" where
  "sql_insert_pending i now d =
     (if i \<in> set (pending_ids d) then Inl ''23505''
      else if i \<notin> set (usage_ids d) then Inl ''23503''
      else Inr (1, d\<lparr>pending_events := pending_events d @ [pending_row_of i now]\<rparr>))"

section \<open>Statements of the readers\<close>

text \<open>The SELECT of \<open>readEvent\<close>: the first row, if there is one.\<close>

definition sql_read_event ::
  "string \<Rightarrow> int \<Rightarrow> db \<Rightarrow> string + (usage_row \<times> bool \<times> int \<times> string \<times> int64) option \<times> db" where
  "sql_read_event i now d =
     (let rows = filter (\<lambda>(u, p). u_event_id u = i)
        (left_join (\<lambda>u p. p_event_id p = u_event_id u) (usage_events d) (pending_events d))
      in Inr (case rows of
           [] \<Rightarrow> None
         | (u, p) # _ \<Rightarrow> Some (u, u_event_id u \<in> set (ledger_ids d),
             case p of None \<Rightarrow> 0 | Some r \<Rightarrow> p_processing_failures r,
             case p of None \<Rightarrow> '''' | Some r \<Rightarrow> p_failure_code r,
             case p of None \<Rightarrow> 0 | Some r \<Rightarrow> p_retry_generation r), d))"

text \<open>The aggregate of \<open>Summary\<close>: two left joins, filtered sums as decimal text, three counts.\<close>

definition summary_rows :: "string \<Rightarrow> db \<Rightarrow> (usage_row \<times> ledger_row option \<times> pending_row option) list" where
  "summary_rows customer d =
     map (\<lambda>((u, l), p). (u, l, p))
       (filter (\<lambda>((u, l), p). u_customer_id u = customer)
         (left_join (\<lambda>(u, l) p. p_event_id p = u_event_id u)
           (left_join (\<lambda>u l. l_event_id l = u_event_id u) (usage_events d) (ledger_entries d))
           (pending_events d)))"

definition sql_summary :: "string \<Rightarrow> db \<Rightarrow> string \<times> string \<times> int \<times> int \<times> int" where
  "sql_summary customer d =
     (let rows = summary_rows customer d;
          posted = filter (\<lambda>(u, l, p). l \<noteq> None) rows
      in (show_int (sum_list (map (\<lambda>(u, l, p). sint (u_units u)) posted)),
          show_int (sum_list (map (\<lambda>(u, l, p). sint (u_amount_micros u)) posted)),
          int (length (filter (\<lambda>(u, l, p). case p of None \<Rightarrow> False | Some r \<Rightarrow> p_processing_failures r < 3) rows)),
          int (length posted),
          int (length (filter (\<lambda>(u, l, p). case p of None \<Rightarrow> False | Some r \<Rightarrow> p_processing_failures r = 3) rows))))"

text \<open>
  The aggregate of \<open>QueueStats\<close>: both counts, and the age of the oldest eligible row in
  microseconds (the code scans it as seconds in a float64), 0 when there is none.
\<close>

definition sql_queue_stats :: "int \<Rightarrow> db \<Rightarrow> int \<times> int \<times> int" where
  "sql_queue_stats now d =
     (let eligible = filter (\<lambda>p. p_processing_failures p < 3) (pending_events d)
      in (int (length eligible),
          int (length (filter (\<lambda>p. p_processing_failures p = 3) (pending_events d))),
          if eligible = [] then 0 else now - Min (set (map p_enqueued_at eligible))))"

section \<open>Statements of ProcessBatch and Retry\<close>

text \<open>
  The claim: eligible rows no other transaction has locked, oldest first, at most \<open>limit\<close>. The
  collation of \<open>event_id\<close> is given by a sort key for each text.
\<close>

definition sql_claim ::
  "(string \<Rightarrow> bool) \<Rightarrow> (string \<Rightarrow> nat list) \<Rightarrow> int \<Rightarrow> int \<Rightarrow> db \<Rightarrow>
   string + (string \<times> string \<times> int \<times> int64) list \<times> db" where
  "sql_claim locked collate limit now d =
     (let rows = filter (\<lambda>(p, u). p_processing_failures p < 3)
            (inner_join (\<lambda>p u. u_event_id u = p_event_id p) (pending_events d) (usage_events d));
          sorted = sort_key (\<lambda>(p, u). (p_enqueued_at p, collate (p_event_id p))) rows;
          free = filter (\<lambda>(p, u). \<not> locked (p_event_id p)) sorted
      in Inr (map (\<lambda>(p, u). (p_event_id p, u_request_id u, p_processing_failures p, p_retry_generation p))
           (take (nat limit) free), d))"

text \<open>
  \<open>INSERT INTO ledger_entries ... ON CONFLICT (event_id) DO NOTHING\<close> for a list of identifiers:
  \<open>violation\<close> gives the SQLSTATE of a check or trigger an identifier runs into, if any; the
  foreign key to \<open>usage_events\<close> is the schema's own.
\<close>

fun sql_post_ledger ::
  "(string \<Rightarrow> string option) \<Rightarrow> string list \<Rightarrow> int \<Rightarrow> db \<Rightarrow> string + nat \<times> db" where
  "sql_post_ledger violation [] now d = Inr (0, d)"
| "sql_post_ledger violation (i # is) now d =
     (case violation i of
        Some code \<Rightarrow> Inl code
      | None \<Rightarrow>
          (if i \<in> set (ledger_ids d) then sql_post_ledger violation is now d
           else if i \<notin> set (usage_ids d) then Inl ''23503''
           else (case sql_post_ledger violation is now
                   (d\<lparr>ledger_entries := ledger_entries d @ [\<lparr>l_event_id = i, l_processed_at = now\<rparr>]\<rparr>) of
                   Inl code \<Rightarrow> Inl code
                 | Inr (n, d') \<Rightarrow> Inr (Suc n, d'))))"

definition sql_delete_pending :: "string list \<Rightarrow> int \<Rightarrow> db \<Rightarrow> string + nat \<times> db" where
  "sql_delete_pending is now d =
     Inr (length (filter (\<lambda>p. p_event_id p \<in> set is) (pending_events d)),
          d\<lparr>pending_events := filter (\<lambda>p. p_event_id p \<notin> set is) (pending_events d)\<rparr>)"

text \<open>An UPDATE of \<open>pending_events\<close>: the changed rows are checked, or the statement fails.\<close>

definition sql_update_pending ::
  "string \<Rightarrow> (pending_row \<Rightarrow> pending_row) \<Rightarrow> db \<Rightarrow> string + nat \<times> db" where
  "sql_update_pending i f d =
     (if \<exists>p\<in>set (pending_events d). p_event_id p = i \<and> \<not> pending_check (f p) then Inl ''23514''
      else Inr (length (filter (\<lambda>p. p_event_id p = i) (pending_events d)),
                d\<lparr>pending_events := map (\<lambda>p. if p_event_id p = i then f p else p) (pending_events d)\<rparr>))"

definition sql_record_failure :: "string \<Rightarrow> string \<Rightarrow> int \<Rightarrow> db \<Rightarrow> string + nat \<times> db" where
  "sql_record_failure i code now =
     sql_update_pending i (\<lambda>p. p\<lparr>p_processing_failures := p_processing_failures p + 1,
                                  p_failure_code := code\<rparr>)"

definition sql_lock_retry :: "string \<Rightarrow> int \<Rightarrow> db \<Rightarrow> string + (int \<times> int64) option \<times> db" where
  "sql_lock_retry i now d =
     Inr (map_option (\<lambda>p. (p_processing_failures p, p_retry_generation p))
            (find (\<lambda>p. p_event_id p = i) (pending_events d)), d)"

text \<open>\<open>retry_generation + 1\<close> out of the range of bigint is an error of its own.\<close>

definition sql_reactivate :: "string \<Rightarrow> int \<Rightarrow> db \<Rightarrow> string + nat \<times> db" where
  "sql_reactivate i now d =
     (if \<exists>p\<in>set (pending_events d). p_event_id p = i \<and> p_retry_generation p = max_int64
      then Inl ''22003''
      else sql_update_pending i (\<lambda>p. p\<lparr>p_processing_failures := 0, p_failure_code := '''',
             p_retry_generation := p_retry_generation p + 1, p_enqueued_at := now\<rparr>) d)"

section \<open>Validation agrees with the schema\<close>

lemma id_byte_sql [simp]: "sql_id_char = id_byte"
  by (rule ext) (auto simp: sql_id_char_def id_byte_def)

lemma valid_id_sql: "sql_id s \<longleftrightarrow> valid_id s"
  by (simp add: sql_id_def valid_id_def)

lemma sql_request_id_iff: "sql_request_id s \<longleftrightarrow> s = [] \<or> request_id_ok s"
  by (simp add: sql_request_id_def request_id_ok_def)

end
