(* ===== verification/Pg_Driver.thy ===== *)
theory Pg_Driver
  imports Pg_Schema
begin

text \<open>
  A transaction as the store sees it through pgx. The service behind the driver is a parameter,
  the record \<open>pg_env\<close>: which of the operation's numbered driver calls fails and how, what the
  clock reads, which rows are locked elsewhere, which identifiers an added ledger constraint
  rejects, whether a COMMIT whose answer was lost took effect. A statement that fails leaves the
  transaction aborted, as PostgreSQL does, until it is rolled back to a savepoint.
  The wrapper is \<open>Store.transaction\<close> of \<open>store.go\<close>, deferred rollback included.
\<close>

record pg_env =
  env_fault :: "nat \<Rightarrow> driver_error option"
  env_clock :: "nat \<Rightarrow> int"
  env_locked :: "string \<Rightarrow> bool"
  env_collate :: "string \<Rightarrow> nat list"
  env_violation :: "string \<Rightarrow> string option"
  env_scan_fault :: "nat \<Rightarrow> driver_error option"
  env_rows_break :: "(nat \<times> driver_error) option"
  env_commit_applied :: bool
  env_rollback_fault :: "driver_error option"

record tx =
  tx_db :: db
  tx_saves :: "(string \<times> db) list"
  tx_aborted :: bool
  tx_calls :: nat

section \<open>Calls inside a transaction\<close>

text \<open>One \<open>tx.Exec\<close>, \<open>tx.Query\<close> or \<open>tx.QueryRow\<close>: the statement applied to the transaction's view.\<close>

definition tx_exec :: "pg_env \<Rightarrow> (int \<Rightarrow> db \<Rightarrow> string + 'a \<times> db) \<Rightarrow> tx \<Rightarrow> (go_error + 'a) \<times> tx" where
  "tx_exec env stmt tx =
     (let k = tx_calls tx; tx' = tx\<lparr>tx_calls := Suc k\<rparr> in
      case env_fault env k of
        Some e \<Rightarrow> (Inl (Driver e), tx'\<lparr>tx_aborted := True\<rparr>)
      | None \<Rightarrow>
          (if tx_aborted tx then (Inl (Driver (PgErr ''25P02'')), tx')
           else (case stmt (env_clock env k) (tx_db tx) of
                   Inl code \<Rightarrow> (Inl (Driver (PgErr code)), tx'\<lparr>tx_aborted := True\<rparr>)
                 | Inr (x, d) \<Rightarrow> (Inr x, tx'\<lparr>tx_db := d\<rparr>))))"

definition tx_savepoint :: "pg_env \<Rightarrow> string \<Rightarrow> tx \<Rightarrow> (go_error + unit) \<times> tx" where
  "tx_savepoint env name tx =
     (case tx_exec env (\<lambda>now d. Inr ((), d)) tx of
        (Inl e, tx') \<Rightarrow> (Inl e, tx')
      | (Inr u, tx') \<Rightarrow> (Inr u, tx'\<lparr>tx_saves := (name, tx_db tx) # tx_saves tx\<rparr>))"

text \<open>
  \<open>ROLLBACK TO SAVEPOINT name\<close> also works in an aborted transaction: it restores the tables of
  the youngest savepoint of that name, drops the younger ones and keeps that one.
\<close>

definition tx_rollback_to :: "pg_env \<Rightarrow> string \<Rightarrow> tx \<Rightarrow> (go_error + unit) \<times> tx" where
  "tx_rollback_to env name tx =
     (let k = tx_calls tx; tx' = tx\<lparr>tx_calls := Suc k\<rparr> in
      case env_fault env k of
        Some e \<Rightarrow> (Inl (Driver e), tx'\<lparr>tx_aborted := True\<rparr>)
      | None \<Rightarrow>
          (case dropWhile (\<lambda>(n, d). n \<noteq> name) (tx_saves tx) of
             [] \<Rightarrow> (Inl (Driver (PgErr ''3B001'')), tx'\<lparr>tx_aborted := True\<rparr>)
           | (n, d) # saves \<Rightarrow>
               (Inr (), tx'\<lparr>tx_db := d, tx_saves := (n, d) # saves, tx_aborted := False\<rparr>)))"

definition tx_release :: "pg_env \<Rightarrow> string \<Rightarrow> tx \<Rightarrow> (go_error + unit) \<times> tx" where
  "tx_release env name tx =
     (let saves = dropWhile (\<lambda>(n, d). n \<noteq> name) (tx_saves tx) in
      case tx_exec env (\<lambda>now d. if saves = [] then Inl ''3B001'' else Inr ((), d)) tx of
        (Inl e, tx') \<Rightarrow> (Inl e, tx')
      | (Inr u, tx') \<Rightarrow> (Inr u, tx'\<lparr>tx_saves := tl saves\<rparr>))"

text \<open>\<open>QueryRow(...).Scan\<close>: no row is \<open>pgx.ErrNoRows\<close>.\<close>

definition scan_row :: "go_error + 'a option \<Rightarrow> go_error + 'a" where
  "scan_row r = (case r of Inl e \<Rightarrow> Inl e | Inr None \<Rightarrow> Inl ErrNoRows | Inr (Some x) \<Rightarrow> Inr x)"

section \<open>The transaction wrapper\<close>

text \<open>
  \<open>fn\<close> returns its error, the variables it captured, and the transaction. The result of
  \<open>transaction\<close> is the error, the captured variables and the committed tables. The deferred
  \<open>tx.Rollback\<close> finds the transaction closed after \<open>Commit\<close> and returns \<open>pgx.ErrTxClosed\<close>;
  otherwise it discards the transaction and may itself fail. \<open>Commit\<close> of an aborted transaction
  rolls back and returns \<open>pgx.ErrTxCommitRollback\<close>.
\<close>

definition begin_tx :: "db \<Rightarrow> tx" where
  "begin_tx d = \<lparr>tx_db = d, tx_saves = [], tx_aborted = False, tx_calls = 1\<rparr>"

definition deferred_rollback :: "go_error option \<Rightarrow> go_error option \<Rightarrow> go_error option" where
  "deferred_rollback rollback_err err =
     (case rollback_err of
        None \<Rightarrow> err
      | Some re \<Rightarrow> (if errors_is re ErrTxClosed then err
                   else errors_join [err, Some (Wrap ''rollback transaction'' re)]))"

definition tx_commit :: "pg_env \<Rightarrow> tx \<Rightarrow> db \<Rightarrow> go_error option \<times> db" where
  "tx_commit env tx d =
     (case env_fault env (tx_calls tx) of
        Some e \<Rightarrow> (Some (Driver e), if env_commit_applied env \<and> \<not> tx_aborted tx then tx_db tx else d)
      | None \<Rightarrow> (if tx_aborted tx then (Some ErrTxCommitRollback, d) else (None, tx_db tx)))"

definition transaction ::
  "pg_env \<Rightarrow> 'v \<Rightarrow> (tx \<Rightarrow> go_error option \<times> 'v \<times> tx) \<Rightarrow> db \<Rightarrow> go_error option \<times> 'v \<times> db" where
  "transaction env v0 fn d =
     (case env_fault env 0 of
        Some e \<Rightarrow> (Some (Wrap ''begin transaction'' (Driver e)), v0, d)
      | None \<Rightarrow>
          (case fn (begin_tx d) of
             (Some err, v, tx) \<Rightarrow>
               (deferred_rollback (map_option Driver (env_rollback_fault env)) (Some err), v, d)
           | (None, v, tx) \<Rightarrow>
               (case tx_commit env tx d of
                  (Some ce, d') \<Rightarrow>
                    (deferred_rollback (Some ErrTxClosed) (Some (Wrap ''commit transaction'' ce)), v, d')
                | (None, d') \<Rightarrow> (deferred_rollback (Some ErrTxClosed) None, v, d'))))"

section \<open>What a call or a transaction can have done\<close>

lemma tx_exec_Inr:
  assumes "tx_exec env stmt tx = (Inr x, tx')"
  shows "\<not> tx_aborted tx \<and> \<not> tx_aborted tx' \<and> tx_saves tx' = tx_saves tx \<and>
     tx_calls tx' = Suc (tx_calls tx) \<and> env_fault env (tx_calls tx) = None \<and>
     stmt (env_clock env (tx_calls tx)) (tx_db tx) = Inr (x, tx_db tx')"
  using assms by (auto simp: tx_exec_def Let_def split: option.splits if_splits sum.splits)

lemma tx_exec_no_fault:
  "env_fault env (tx_calls tx) = None \<Longrightarrow> \<not> tx_aborted tx \<Longrightarrow>
   stmt (env_clock env (tx_calls tx)) (tx_db tx) = Inr (x, d) \<Longrightarrow>
   tx_exec env stmt tx = (Inr x, tx\<lparr>tx_calls := Suc (tx_calls tx), tx_db := d\<rparr>)"
  by (simp add: tx_exec_def Let_def)

lemma tx_exec_pg_error:
  "env_fault env (tx_calls tx) = None \<Longrightarrow> \<not> tx_aborted tx \<Longrightarrow>
   stmt (env_clock env (tx_calls tx)) (tx_db tx) = Inl code \<Longrightarrow>
   tx_exec env stmt tx =
     (Inl (Driver (PgErr code)), tx\<lparr>tx_calls := Suc (tx_calls tx), tx_aborted := True\<rparr>)"
  by (simp add: tx_exec_def Let_def)

lemma tx_exec_Inl_driver: "tx_exec env stmt tx = (Inl e, tx') \<Longrightarrow> \<exists>de. e = Driver de"
  by (auto simp: tx_exec_def Let_def split: option.splits if_splits sum.splits)

lemma begin_tx_simps [simp]:
  "tx_db (begin_tx d) = d" "tx_saves (begin_tx d) = []" "\<not> tx_aborted (begin_tx d)"
  "tx_calls (begin_tx d) = 1"
  by (simp_all add: begin_tx_def)

lemma deferred_rollback_closed [simp]: "deferred_rollback (Some ErrTxClosed) err = err"
  by (simp add: deferred_rollback_def)

lemma deferred_rollback_Some:
  "\<exists>e'. deferred_rollback (map_option Driver rf) (Some e) = Some e' \<and>
        (\<forall>t. billing_sentinel t \<longrightarrow> errors_is e' t = errors_is e t)"
  by (auto simp: deferred_rollback_def billing_sentinel_def split: option.splits)

text \<open>
  Atomicity: the tables are either the ones before or exactly those of a transaction function
  that returned no error; without an error it is the latter.
\<close>

lemma transaction_cases:
  assumes "transaction env v0 fn d = (err, v, d')"
  obtains (unchanged) "err \<noteq> None" and "d' = d"
  | (committed) tx where "fn (begin_tx d) = (None, v, tx)" and "\<not> tx_aborted tx" and "d' = tx_db tx"
  using assms
  by (auto simp: transaction_def tx_commit_def deferred_rollback_def errors_join_def
        split: option.splits prod.splits if_splits list.splits)

lemma transaction_None:
  assumes "transaction env v0 fn d = (None, v, d')"
  obtains tx where "fn (begin_tx d) = (None, v, tx)" and "\<not> tx_aborted tx" and "d' = tx_db tx"
  using assms
  by (auto simp: transaction_def tx_commit_def deferred_rollback_def errors_join_def
        split: option.splits prod.splits if_splits list.splits)

text \<open>
  An infrastructure error: one under which none of the billing sentinels can be found. The
  outcomes of a transaction, with the sentinels its error carries: committed; refused by \<open>fn\<close>;
  failed without effect; or failed at COMMIT with the effect in place.
\<close>

definition infra :: "go_error \<Rightarrow> bool" where
  "infra e \<longleftrightarrow> (\<forall>t. billing_sentinel t \<longrightarrow> \<not> errors_is e t)"

lemma infra_simps [simp]:
  "infra (Driver de)" "infra (Wrap m e) = infra e" "infra ErrTxCommitRollback" "infra (New m)"
  by (auto simp: infra_def billing_sentinel_def)

lemma transaction_result:
  assumes "transaction env v0 fn d = (err, v, d')"
  obtains (committed) tx where "err = None" "fn (begin_tx d) = (None, v, tx)" "\<not> tx_aborted tx" "d' = tx_db tx"
  | (refused) e e0 tx where "err = Some e" "fn (begin_tx d) = (Some e0, v, tx)" "d' = d"
      "\<And>t. billing_sentinel t \<Longrightarrow> errors_is e t = errors_is e0 t"
  | (failed) e where "err = Some e" "infra e" "d' = d"
  | (unconfirmed) e tx where "err = Some e" "infra e" "fn (begin_tx d) = (None, v, tx)"
      "\<not> tx_aborted tx" "d' = tx_db tx"
proof (cases "env_fault env 0")
  case (Some e)
  with assms have "err = Some (Wrap ''begin transaction'' (Driver e))" "d' = d"
    by (simp_all add: transaction_def)
  moreover have "infra (Wrap ''begin transaction'' (Driver e))" by simp
  ultimately show thesis using failed by blast
next
  case None
  obtain r w tx where fn: "fn (begin_tx d) = (r, w, tx)" by (metis prod_cases3)
  show thesis
  proof (cases r)
    case (Some e0)
    obtain e where e: "deferred_rollback (map_option Driver (env_rollback_fault env)) (Some e0) = Some e"
      and same: "\<And>t. billing_sentinel t \<Longrightarrow> errors_is e t = errors_is e0 t"
      using deferred_rollback_Some [of "env_rollback_fault env" e0] by blast
    have "err = Some e" and "w = v" and "d' = d"
      using assms None fn Some e by (simp_all add: transaction_def)
    with fn Some same show thesis by (intro refused [of e e0 tx]) simp_all
  next
    case r: None
    obtain ce d2 where commit: "tx_commit env tx d = (ce, d2)" by fastforce
    show thesis
    proof (cases ce)
      case None2: None
      with assms None fn r commit have "err = None" "w = v" "d' = d2"
        by (simp_all add: transaction_def)
      with fn r commit None2 committed show thesis
        by (auto simp: tx_commit_def split: option.splits if_splits)
    next
      case (Some c)
      with assms None fn r commit
      have res: "err = Some (Wrap ''commit transaction'' c)" "w = v" "d' = d2"
        by (simp_all add: transaction_def)
      have "infra (Wrap ''commit transaction'' c)" and "d2 = d \<or> d2 = tx_db tx \<and> \<not> tx_aborted tx"
        using commit Some by (auto simp: tx_commit_def split: option.splits if_splits)
      with res fn r failed unconfirmed show thesis by blast
    qed
  qed
qed

lemma transaction_commit:
  "env_fault env 0 = None \<Longrightarrow> fn (begin_tx d) = (None, v, tx) \<Longrightarrow> \<not> tx_aborted tx \<Longrightarrow>
   env_fault env (tx_calls tx) = None \<Longrightarrow> transaction env v0 fn d = (None, v, tx_db tx)"
  by (simp add: transaction_def tx_commit_def)

lemma transaction_rollback:
  "env_fault env 0 = None \<Longrightarrow> fn (begin_tx d) = (Some err, v, tx) \<Longrightarrow>
   transaction env v0 fn d =
     (deferred_rollback (map_option Driver (env_rollback_fault env)) (Some err), v, d)"
  by (simp add: transaction_def)

text \<open>
  An environment in which nothing fails: the driver answers every call, and COMMIT with it.
  Constraint violations and locks remain possible.
\<close>

definition healthy :: "pg_env \<Rightarrow> bool" where
  "healthy env \<longleftrightarrow> (\<forall>k. env_fault env k = None) \<and> (\<forall>k. env_scan_fault env k = None) \<and>
     env_rows_break env = None \<and> env_rollback_fault env = None"

lemma healthyD [simp]:
  assumes "healthy env"
  shows "env_fault env k = None" "env_scan_fault env k = None" "env_rows_break env = None"
    "env_rollback_fault env = None"
  using assms by (simp_all add: healthy_def)

lemma tx_exec_healthy:
  "healthy env \<Longrightarrow> \<not> tx_aborted tx \<Longrightarrow>
   tx_exec env stmt tx = (case stmt (env_clock env (tx_calls tx)) (tx_db tx) of
       Inl code \<Rightarrow> (Inl (Driver (PgErr code)), tx\<lparr>tx_calls := Suc (tx_calls tx), tx_aborted := True\<rparr>)
     | Inr (x, d) \<Rightarrow> (Inr x, tx\<lparr>tx_calls := Suc (tx_calls tx), tx_db := d\<rparr>))"
  by (simp add: tx_exec_def Let_def)

lemma transaction_healthy:
  "healthy env \<Longrightarrow> fn (begin_tx d) = (r, v, tx) \<Longrightarrow> (r = None \<Longrightarrow> \<not> tx_aborted tx) \<Longrightarrow>
   transaction env v0 fn d = (r, v, if r = None then tx_db tx else d)"
  by (cases r) (simp_all add: transaction_def tx_commit_def deferred_rollback_def)

section \<open>Savepoints\<close>

lemma tx_exec_Inl:
  "tx_exec env stmt tx = (Inl e, tx') \<Longrightarrow> tx_db tx' = tx_db tx \<and> tx_saves tx' = tx_saves tx"
  by (auto simp: tx_exec_def Let_def split: option.splits if_splits sum.splits)

lemma tx_savepoint_Inr:
  assumes "tx_savepoint env name tx = (Inr u, tx')"
  shows "\<not> tx_aborted tx' \<and> tx_db tx' = tx_db tx \<and> tx_saves tx' = (name, tx_db tx) # tx_saves tx"
  using assms tx_exec_Inr [of env "\<lambda>now d. Inr ((), d)" tx]
  by (auto simp: tx_savepoint_def split: prod.splits sum.splits)

lemma tx_rollback_to_Inr:
  assumes "tx_rollback_to env name tx = (Inr u, tx')" and "tx_saves tx = (name, d) # saves"
  shows "\<not> tx_aborted tx' \<and> tx_db tx' = d \<and> tx_saves tx' = tx_saves tx"
  using assms by (auto simp: tx_rollback_to_def Let_def split: option.splits)

lemma tx_release_Inr:
  assumes "tx_release env name tx = (Inr u, tx')" and "tx_saves tx = (name, d) # saves"
  shows "\<not> tx_aborted tx' \<and> tx_db tx' = tx_db tx \<and> tx_saves tx' = saves"
  using assms tx_exec_Inr [of env "\<lambda>now d. Inr ((), d)" tx]
  by (auto simp: tx_release_def Let_def split: prod.splits sum.splits)

lemma tx_savepoint_healthy:
  "healthy env \<Longrightarrow> \<not> tx_aborted tx \<Longrightarrow>
   tx_savepoint env name tx =
     (Inr (), tx\<lparr>tx_calls := Suc (tx_calls tx), tx_saves := (name, tx_db tx) # tx_saves tx\<rparr>)"
  by (simp add: tx_savepoint_def tx_exec_healthy)

lemma tx_rollback_to_healthy:
  "healthy env \<Longrightarrow> tx_saves tx = (name, d) # saves \<Longrightarrow>
   tx_rollback_to env name tx =
     (Inr (), tx\<lparr>tx_calls := Suc (tx_calls tx), tx_db := d, tx_aborted := False\<rparr>)"
  by (simp add: tx_rollback_to_def)

lemma tx_release_healthy:
  "healthy env \<Longrightarrow> \<not> tx_aborted tx \<Longrightarrow> tx_saves tx = (name, d) # saves \<Longrightarrow>
   tx_release env name tx = (Inr (), tx\<lparr>tx_calls := Suc (tx_calls tx), tx_saves := saves\<rparr>)"
  by (simp add: tx_release_def tx_exec_healthy)

text \<open>
  No driver call is answered with an integrity SQLSTATE of its own: such a code only comes from
  a statement that runs into a constraint.
\<close>

definition integrity_codes :: "string set" where
  "integrity_codes = {''23502'', ''23503'', ''23505'', ''23514'', ''23P01''}"

definition no_integrity_faults :: "pg_env \<Rightarrow> bool" where
  "no_integrity_faults env \<longleftrightarrow> (\<forall>k code. env_fault env k = Some (PgErr code) \<longrightarrow> code \<notin> integrity_codes)"

lemma healthy_no_integrity_faults [simp]: "healthy env \<Longrightarrow> no_integrity_faults env"
  by (simp add: no_integrity_faults_def)

lemma tx_exec_Inl_cases:
  assumes "tx_exec env stmt tx = (Inl e, tx')" and "\<not> tx_aborted tx"
  shows "(\<exists>code. e = Driver (PgErr code) \<and> stmt (env_clock env (tx_calls tx)) (tx_db tx) = Inl code) \<or>
     (\<exists>f. e = Driver f \<and> env_fault env (tx_calls tx) = Some f)"
  using assms by (auto simp: tx_exec_def Let_def split: option.splits if_splits sum.splits)

end
