(* ===== verification/Pg_Store.thy ===== *)
theory Pg_Store
  imports Pg_Driver
begin

text \<open>
  \<open>internal/postgres/store.go\<close>: every method of \<open>Store\<close>, call by call, with its guards, its
  early returns and the error each one wraps. A method takes the environment its driver calls
  meet, and the committed tables, and returns its result and the committed tables after it.
  The transaction functions are the closures of the code; what a closure captures is the value
  it returns beside its error. This theory holds the methods only; \<open>Store_Accept\<close>,
  \<open>Store_Batch\<close> and \<open>Store_Retry\<close> prove what they do.
\<close>

record store = maxPending :: int64

text \<open>\<open>New\<close> and \<open>NewWithQueueLimit\<close>; the pool is represented by whether it is nil.\<close>

definition store_New :: store where
  "store_New = \<lparr>maxPending = 10000\<rparr>"

definition NewWithQueueLimit :: "bool \<Rightarrow> int64 \<Rightarrow> go_error + store" where
  "NewWithQueueLimit pool_is_nil limit =
     (if pool_is_nil \<or> sint limit < 1 \<or> sint limit > 1000000
      then Inl (New ''pool and queue limit between 1 and 1000000 are required'')
      else Inr \<lparr>maxPending = limit\<rparr>)"

section \<open>Reading one event\<close>

definition event_of_row :: "usage_row \<times> bool \<times> int \<times> string \<times> int64 \<Rightarrow> event" where
  "event_of_row = (\<lambda>(u, processed, failures, code, generation).
     \<lparr>Input = \<lparr>EventID = u_event_id u, CustomerID = u_customer_id u, Meter = u_meter u,
               Units = u_units u\<rparr>,
      RequestID = u_request_id u, UnitPriceMicros = u_unit_price_micros u,
      AmountMicros = u_amount_micros u, Currency = u_currency u, Processed = processed,
      CreatedAt = u_created_at u, Failed = False, ProcessingFailures = failures,
      FailureCode = code, RetryGeneration = generation\<rparr>)"

text \<open>\<open>readEvent\<close>, from what \<open>QueryRow\<close> on the transaction or on the pool answered.\<close>

definition readEvent ::
  "go_error + (usage_row \<times> bool \<times> int \<times> string \<times> int64) option \<Rightarrow> go_error + event" where
  "readEvent answer =
     (case scan_row answer of
        Inl err \<Rightarrow> (if errors_is err ErrNoRows then Inl ErrNotFound
                   else Inl (Wrap ''read usage event'' err))
      | Inr row \<Rightarrow> (let event = event_of_row row in
                    Inr (event\<lparr>Failed := ProcessingFailures event = 3\<rparr>)))"

definition readEvent_tx :: "pg_env \<Rightarrow> string \<Rightarrow> tx \<Rightarrow> (go_error + event) \<times> tx" where
  "readEvent_tx env i tx =
     (case tx_exec env (sql_read_event i) tx of (answer, tx') \<Rightarrow> (readEvent answer, tx'))"

text \<open>A single statement on the pool: its own transaction, so the committed tables.\<close>

definition pool_query :: "pg_env \<Rightarrow> (int \<Rightarrow> db \<Rightarrow> string + 'a \<times> db) \<Rightarrow> db \<Rightarrow> go_error + 'a" where
  "pool_query env stmt d =
     (case env_fault env 0 of
        Some e \<Rightarrow> Inl (Driver e)
      | None \<Rightarrow> (case stmt (env_clock env 0) d of
          Inl code \<Rightarrow> Inl (Driver (PgErr code))
        | Inr (x, d') \<Rightarrow> Inr x))"

definition store_Get :: "pg_env \<Rightarrow> string \<Rightarrow> db \<Rightarrow> go_error + event" where
  "store_Get env i d = readEvent (pool_query env (sql_read_event i) d)"

section \<open>Accept\<close>

text \<open>The statements run for a new identifier: lock, count, refuse or enqueue.\<close>

definition admit :: "pg_env \<Rightarrow> store \<Rightarrow> string \<Rightarrow> tx \<Rightarrow> go_error option \<times> tx" where
  "admit env st i tx =
     (case tx_exec env sql_advisory_lock tx of
        (Inl err, tx) \<Rightarrow> (Some (Wrap ''lock queue admission'' err), tx)
      | (Inr _, tx) \<Rightarrow>
     (case tx_exec env (sql_count_pending (maxPending st)) tx of
        (Inl err, tx) \<Rightarrow> (Some (Wrap ''check queue capacity'' err), tx)
      | (Inr pending, tx) \<Rightarrow>
     (if pending \<ge> sint (maxPending st) then (Some ErrQueueFull, tx)
      else (case tx_exec env (sql_insert_pending i) tx of
              (Inl err, tx) \<Rightarrow> (Some (Wrap ''enqueue usage event'' err), tx)
            | (Inr _, tx) \<Rightarrow> (None, tx)))))"

definition accept_tx ::
  "pg_env \<Rightarrow> store \<Rightarrow> event \<Rightarrow> tx \<Rightarrow> go_error option \<times> (event \<times> bool) \<times> tx" where
  "accept_tx env st ev tx =
     (case tx_exec env (sql_insert_usage ev) tx of
        (Inl err, tx) \<Rightarrow> (Some (Wrap ''insert usage event'' err), (zero_event, False), tx)
      | (Inr affected, tx) \<Rightarrow>
          (let created = (affected = 1) in
           case (if created then admit env st (EventID (Input ev)) tx else (None, tx)) of
             (Some err, tx) \<Rightarrow> (Some err, (zero_event, created), tx)
           | (None, tx) \<Rightarrow>
               (case readEvent_tx env (EventID (Input ev)) tx of
                  (Inl err, tx) \<Rightarrow> (Some err, (zero_event, created), tx)
                | (Inr stored, tx) \<Rightarrow>
                    (if Input stored \<noteq> Input ev then (Some ErrConflict, (stored, created), tx)
                     else (None, (stored, created), tx)))))"

definition store_Accept ::
  "store \<Rightarrow> pg_env \<Rightarrow> event \<Rightarrow> db \<Rightarrow> (go_error + event \<times> bool) \<times> db" where
  "store_Accept st env ev d =
     (case transaction env (zero_event, False) (accept_tx env st ev) d of
        (Some err, _, d') \<Rightarrow> (Inl (Wrap ''accept usage'' err), d')
      | (None, (stored, created), d') \<Rightarrow> (Inr (stored, created), d'))"

section \<open>Summary and QueueStats\<close>

definition store_Summary :: "pg_env \<Rightarrow> string \<Rightarrow> db \<Rightarrow> go_error + summary" where
  "store_Summary env customer d =
     (case pool_query env (\<lambda>now d. Inr (sql_summary customer d, d)) d of
        Inl err \<Rightarrow> Inl (Wrap ''summarize usage'' err)
      | Inr (units, amount, pending, processed, failed) \<Rightarrow>
          Inr \<lparr>sm_CustomerID = customer, sm_Currency = ''USD'', sm_Units = units,
               sm_AmountMicros = amount, sm_Pending = pending, sm_Processed = processed,
               sm_Failed = failed\<rparr>)"

definition store_QueueStats :: "pg_env \<Rightarrow> db \<Rightarrow> go_error + int \<times> int \<times> int" where
  "store_QueueStats env d =
     (case pool_query env (\<lambda>now d. Inr (sql_queue_stats now d, d)) d of
        Inl err \<Rightarrow> Inl (Wrap ''read pending queue metrics'' err)
      | Inr (pending, failed, age) \<Rightarrow> Inr (pending, failed, if age < 0 then 0 else age))"

section \<open>ProcessBatch\<close>

definition integrityCode :: "go_error \<Rightarrow> string" where
  "integrityCode err =
     (case as_pg_error err of
        None \<Rightarrow> ''''
      | Some code \<Rightarrow>
          (if code \<in> {''23502'', ''23503'', ''23505'', ''23514'', ''23P01''} then code else ''''))"

text \<open>
  The loop over the claimed rows: identifiers and metadata are collected as they are read, so
  that after an error the metadata read so far is still reported. The connection may end the
  iteration early, and \<open>rows.Err\<close> then says why.
\<close>

definition rows_break :: "pg_env \<Rightarrow> nat \<Rightarrow> driver_error option" where
  "rows_break env k = (case env_rows_break env of
     None \<Rightarrow> None | Some (n, e) \<Rightarrow> (if n = k then Some e else None))"

fun read_claims ::
  "pg_env \<Rightarrow> nat \<Rightarrow> (string \<times> string \<times> int \<times> int64) list \<Rightarrow> string list \<Rightarrow> processing_event list \<Rightarrow>
   go_error option \<times> string list \<times> processing_event list" where
  "read_claims env k [] is evs =
     (case rows_break env k of
        Some e \<Rightarrow> (Some (Wrap ''read claimed events'' (Driver e)), is, evs)
      | None \<Rightarrow> (None, is, evs))"
| "read_claims env k ((i, request_id, failures, generation) # rows) is evs =
     (case rows_break env k of
        Some e \<Rightarrow> (Some (Wrap ''read claimed events'' (Driver e)), is, evs)
      | None \<Rightarrow>
          (case env_scan_fault env k of
             Some e \<Rightarrow> (Some (Wrap ''read claimed event'' (Driver e)), is, evs)
           | None \<Rightarrow> read_claims env (Suc k) rows (is @ [i])
               (evs @ [zero_processing_event\<lparr>pe_RequestID := request_id,
                         pe_ProcessingFailures := failures, pe_RetryGeneration := generation\<rparr>])))"

text \<open>
  The body of the loop of \<open>processIndividually\<close>: one savepoint around one event. It returns the
  error, the amount added to \<open>processed\<close> and the metadata as the code has updated it in place.
\<close>

definition process_one ::
  "pg_env \<Rightarrow> string \<Rightarrow> processing_event \<Rightarrow> tx \<Rightarrow> go_error option \<times> int \<times> processing_event \<times> tx" where
  "process_one env i ev tx =
     (case tx_savepoint env ''ledger_event'' tx of
        (Inl err, tx) \<Rightarrow> (Some (Wrap ''save ledger event'' err), 0, ev, tx)
      | (Inr _, tx) \<Rightarrow>
     (case (case tx_exec env (sql_post_ledger (env_violation env) [i]) tx of
              (Inl postErr, tx) \<Rightarrow>
                (let code = integrityCode postErr in
                 if code = '''' then (Some (Wrap ''post isolated event'' postErr), 0, ev, tx)
                 else (case tx_rollback_to env ''ledger_event'' tx of
                         (Inl err, tx) \<Rightarrow> (Some (Wrap ''restore ledger event'' err), 0, ev, tx)
                       | (Inr _, tx) \<Rightarrow>
                      (case tx_exec env (sql_record_failure i code) tx of
                         (Inl err, tx) \<Rightarrow> (Some (Wrap ''record event failure'' err), 0, ev, tx)
                       | (Inr _, tx) \<Rightarrow>
                           (let n = pe_ProcessingFailures ev + 1 in
                            (None, 0, ev\<lparr>pe_ProcessingFailures := n, pe_FailureCode := code,
                               pe_Outcome := (if n = 3 then ''quarantined'' else ''retry_scheduled'')\<rparr>, tx)))))
            | (Inr _, tx) \<Rightarrow>
                (case tx_exec env (sql_delete_pending [i]) tx of
                   (Inl err, tx) \<Rightarrow> (Some (Wrap ''remove isolated completed event'' err), 0, ev, tx)
                 | (Inr _, tx) \<Rightarrow> (None, 1, ev\<lparr>pe_Outcome := ''processed''\<rparr>, tx))) of
        (Some err, n, ev', tx) \<Rightarrow> (Some err, 0, ev', tx)
      | (None, n, ev', tx) \<Rightarrow>
          (case tx_release env ''ledger_event'' tx of
             (Inl err, tx) \<Rightarrow> (Some (Wrap ''release ledger event'' err), 0, ev', tx)
           | (Inr _, tx) \<Rightarrow> (None, n, ev', tx))))"

fun processIndividually ::
  "pg_env \<Rightarrow> (string \<times> processing_event) list \<Rightarrow> tx \<Rightarrow>
   go_error option \<times> int \<times> processing_event list \<times> tx" where
  "processIndividually env [] tx = (None, 0, [], tx)"
| "processIndividually env ((i, ev) # rest) tx =
     (case process_one env i ev tx of
        (Some err, _, ev', tx) \<Rightarrow> (Some err, 0, ev' # map snd rest, tx)
      | (None, n, ev', tx) \<Rightarrow>
          (case processIndividually env rest tx of
             (Some err, _, evs, tx) \<Rightarrow> (Some err, 0, ev' # evs, tx)
           | (None, m, evs, tx) \<Rightarrow> (None, n + m, ev' # evs, tx)))"

text \<open>The transaction function of \<open>ProcessBatchWithResults\<close>; it captures the count and the metadata.\<close>

definition batch_tx ::
  "pg_env \<Rightarrow> int \<Rightarrow> tx \<Rightarrow> go_error option \<times> (int \<times> processing_event list) \<times> tx" where
  "batch_tx env limit tx =
     (case tx_exec env (sql_claim (env_locked env) (env_collate env) limit) tx of
        (Inl err, tx) \<Rightarrow> (Some (Wrap ''claim pending events'' err), (0, []), tx)
      | (Inr rows, tx) \<Rightarrow>
     (case read_claims env 0 rows [] [] of
        (Some err, _, evs) \<Rightarrow> (Some err, (0, evs), tx)
      | (None, is, evs) \<Rightarrow>
     (if is = [] then (None, (0, evs), tx) else
     (case tx_savepoint env ''ledger_batch'' tx of
        (Inl err, tx) \<Rightarrow> (Some (Wrap ''save ledger batch'' err), (0, evs), tx)
      | (Inr _, tx) \<Rightarrow>
     (case tx_exec env (sql_post_ledger (env_violation env) is) tx of
        (Inl err, tx) \<Rightarrow>
          (if integrityCode err = '''' then (Some (Wrap ''post ledger entries'' err), (0, evs), tx)
           else (case tx_rollback_to env ''ledger_batch'' tx of
                   (Inl err, tx) \<Rightarrow> (Some (Wrap ''restore ledger batch'' err), (0, evs), tx)
                 | (Inr _, tx) \<Rightarrow>
                     (case processIndividually env (zip is evs) tx of
                        (err, n, evs', tx) \<Rightarrow> (err, (n, evs'), tx))))
      | (Inr _, tx) \<Rightarrow>
     (case tx_exec env (sql_delete_pending is) tx of
        (Inl err, tx) \<Rightarrow> (Some (Wrap ''remove completed pending events'' err), (0, evs), tx)
      | (Inr affected, tx) \<Rightarrow>
          (None, (int affected, map (\<lambda>ev. ev\<lparr>pe_Outcome := ''processed''\<rparr>) evs), tx)))))))"

definition ProcessBatchWithResults ::
  "pg_env \<Rightarrow> int \<Rightarrow> db \<Rightarrow> go_error option \<times> batch_result \<times> db" where
  "ProcessBatchWithResults env limit d =
     (if limit < 1 \<or> limit > 1000
      then (Some (New ''batch limit must be between 1 and 1000''), zero_batch_result, d)
      else (case transaction env (0, []) (batch_tx env limit) d of
              (Some err, (_, evs), d') \<Rightarrow>
                (Some (Wrap ''process usage batch'' err),
                 \<lparr>br_Processed = 0,
                  br_Events = map (\<lambda>ev. zero_processing_event\<lparr>pe_RequestID := pe_RequestID ev\<rparr>) evs\<rparr>, d')
            | (None, (processed, evs), d') \<Rightarrow>
                (None, \<lparr>br_Processed = processed, br_Events = evs\<rparr>, d')))"

definition ProcessBatch :: "pg_env \<Rightarrow> int \<Rightarrow> db \<Rightarrow> go_error option \<times> int \<times> db" where
  "ProcessBatch env limit d =
     (case ProcessBatchWithResults env limit d of (err, result, d') \<Rightarrow> (err, br_Processed result, d'))"

section \<open>Retry\<close>

definition retry_tx ::
  "pg_env \<Rightarrow> string \<Rightarrow> int64 \<Rightarrow> tx \<Rightarrow> go_error option \<times> (event \<times> bool) \<times> tx" where
  "retry_tx env i generation tx =
     (case tx_exec env (sql_lock_retry i) tx of
        (answer, tx) \<Rightarrow>
     (case (case scan_row answer of
              Inl err \<Rightarrow>
                (if \<not> errors_is err ErrNoRows then (Some (Wrap ''lock retry event'' err), False, tx)
                 else (None, False, tx))
            | Inr (failures, current) \<Rightarrow>
                (if failures = 3 \<and> current = generation then
                   (case tx_exec env (sql_reactivate i) tx of
                      (Inl err, tx) \<Rightarrow> (Some (Wrap ''reactivate failed event'' err), False, tx)
                    | (Inr _, tx) \<Rightarrow> (None, True, tx))
                 else if failures < 3 \<and> current = generation + 1 then (None, False, tx)
                 else (Some ErrRetryConflict, False, tx))) of
        (Some err, retried, tx) \<Rightarrow> (Some err, (zero_event, retried), tx)
      | (None, retried, tx) \<Rightarrow>
          (case readEvent_tx env i tx of
             (Inl err, tx) \<Rightarrow> (Some err, (zero_event, retried), tx)
           | (Inr event, tx) \<Rightarrow> (None, (event, retried), tx))))"

definition store_Retry ::
  "pg_env \<Rightarrow> string \<Rightarrow> int64 \<Rightarrow> db \<Rightarrow> (go_error + event \<times> bool) \<times> db" where
  "store_Retry env i generation d =
     (if ValidateID i \<noteq> None \<or> sint generation < 0 \<or> generation = max_int64 then (Inl ErrInvalid, d)
      else (case transaction env (zero_event, False) (retry_tx env i generation) d of
              (Some err, _, d') \<Rightarrow> (Inl (Wrap ''retry failed event'' err), d')
            | (None, (event, retried), d') \<Rightarrow> (Inr (event, retried), d')))"

end
