(* ===== verification/Store_Inv.thy ===== *)
theory Store_Inv
  imports Pg_Store
begin

text \<open>
  The invariant of the tables and the abstract view of them. \<open>store_inv\<close> is the schema's keys
  and checks plus what only the application keeps: every accepted event is either pending or
  posted, never both, never neither. \<open>stored d i\<close> is the event an API client reads under \<open>i\<close>;
  the lemmas give its value after each change of the tables the code makes.
\<close>

definition usage_of :: "db \<Rightarrow> string \<Rightarrow> usage_row option" where
  "usage_of d i = find (\<lambda>u. u_event_id u = i) (usage_events d)"

definition pending_of :: "db \<Rightarrow> string \<Rightarrow> pending_row option" where
  "pending_of d i = find (\<lambda>p. p_event_id p = i) (pending_events d)"

definition store_inv :: "db \<Rightarrow> bool" where
  "store_inv d \<longleftrightarrow> distinct (usage_ids d) \<and> distinct (pending_ids d) \<and> distinct (ledger_ids d) \<and>
     set (pending_ids d) \<inter> set (ledger_ids d) = {} \<and>
     set (pending_ids d) \<union> set (ledger_ids d) = set (usage_ids d) \<and>
     list_all usage_check (usage_events d) \<and> list_all pending_check (pending_events d)"

text \<open>The event read for a usage row that is posted or not, with its queue row.\<close>

definition view :: "usage_row \<Rightarrow> bool \<Rightarrow> pending_row option \<Rightarrow> event" where
  "view u posted p =
     (let e = event_of_row (u, posted,
        case p of None \<Rightarrow> 0 | Some r \<Rightarrow> p_processing_failures r,
        case p of None \<Rightarrow> '''' | Some r \<Rightarrow> p_failure_code r,
        case p of None \<Rightarrow> 0 | Some r \<Rightarrow> p_retry_generation r)
      in e\<lparr>Failed := ProcessingFailures e = 3\<rparr>)"

definition stored :: "db \<Rightarrow> string \<Rightarrow> event option" where
  "stored d i = map_option (\<lambda>u. view u (i \<in> set (ledger_ids d)) (pending_of d i)) (usage_of d i)"

lemma view_simps [simp]:
  "EventID (Input (view u b p)) = u_event_id u"
  "CustomerID (Input (view u b p)) = u_customer_id u"
  "Meter (Input (view u b p)) = u_meter u"
  "Units (Input (view u b p)) = u_units u"
  "RequestID (view u b p) = u_request_id u"
  "UnitPriceMicros (view u b p) = u_unit_price_micros u"
  "AmountMicros (view u b p) = u_amount_micros u"
  "Currency (view u b p) = u_currency u"
  "CreatedAt (view u b p) = u_created_at u"
  "Processed (view u b p) = b"
  "ProcessingFailures (view u b p) = (case p of None \<Rightarrow> 0 | Some r \<Rightarrow> p_processing_failures r)"
  "FailureCode (view u b p) = (case p of None \<Rightarrow> '''' | Some r \<Rightarrow> p_failure_code r)"
  "RetryGeneration (view u b p) = (case p of None \<Rightarrow> 0 | Some r \<Rightarrow> p_retry_generation r)"
  "Failed (view u b p) = (case p of None \<Rightarrow> False | Some r \<Rightarrow> p_processing_failures r = 3)"
  by (simp_all add: view_def event_of_row_def Let_def split: option.splits)

lemma frozen_view [simp]: "frozen (view u b p) = frozen (view u b' p')"
  by (simp add: frozen_def view_def event_of_row_def Let_def)

section \<open>The SELECT of readEvent\<close>

lemma left_join_first:
  "(case filter (\<lambda>(x, y). P x) (left_join on xs ys) of [] \<Rightarrow> None | r # _ \<Rightarrow> Some r) =
     map_option (\<lambda>x. (x, find (on x) ys)) (find P xs)"
proof (induction xs)
  case Nil
  then show ?case by (simp add: left_join_def)
next
  case (Cons x xs)
  have first: "find (on x) ys = (case filter (on x) ys of [] \<Rightarrow> None | z # _ \<Rightarrow> Some z)"
    by (induction ys) auto
  show ?case
  proof (cases "P x")
    case True
    then show ?thesis by (cases "filter (on x) ys") (simp_all add: left_join_def first)
  next
    case False
    then have "filter (\<lambda>(x, y). P x) (map (\<lambda>z. (x, Some z)) zs) = []" for zs :: "'b list"
      by (induction zs) auto
    with False Cons show ?thesis by (simp add: left_join_def split: list.splits)
  qed
qed

lemma usage_of_key: "usage_of d i = Some u \<Longrightarrow> u \<in> set (usage_events d) \<and> u_event_id u = i"
  by (auto simp: usage_of_def dest: find_key_Some)

lemma pending_of_key: "pending_of d i = Some p \<Longrightarrow> p \<in> set (pending_events d) \<and> p_event_id p = i"
  by (auto simp: pending_of_def dest: find_key_Some)

lemma usage_of_None: "usage_of d i = None \<longleftrightarrow> i \<notin> set (usage_ids d)"
  by (simp add: usage_of_def find_key_None)

lemma pending_of_None: "pending_of d i = None \<longleftrightarrow> i \<notin> set (pending_ids d)"
  by (simp add: pending_of_def find_key_None)

lemma stored_None: "stored d i = None \<longleftrightarrow> i \<notin> set (usage_ids d)"
  by (simp add: stored_def usage_of_None)

lemma sql_read_event_eq:
  "sql_read_event i now d =
     Inr (map_option (\<lambda>u. (u, i \<in> set (ledger_ids d),
            case pending_of d i of None \<Rightarrow> 0 | Some r \<Rightarrow> p_processing_failures r,
            case pending_of d i of None \<Rightarrow> '''' | Some r \<Rightarrow> p_failure_code r,
            case pending_of d i of None \<Rightarrow> 0 | Some r \<Rightarrow> p_retry_generation r)) (usage_of d i), d)"
proof -
  let ?rows = "filter (\<lambda>(u, p). u_event_id u = i)
     (left_join (\<lambda>u p. p_event_id p = u_event_id u) (usage_events d) (pending_events d))"
  have rows: "(case ?rows of [] \<Rightarrow> None | r # _ \<Rightarrow> Some r) =
     map_option (\<lambda>u. (u, find (\<lambda>p. p_event_id p = u_event_id u) (pending_events d)))
       (find (\<lambda>u. u_event_id u = i) (usage_events d))"
    by (rule left_join_first)
  show ?thesis
  proof (cases "usage_of d i")
    case None
    with rows have "?rows = []" by (simp add: usage_of_def split: list.splits)
    with None show ?thesis by (simp add: sql_read_event_def)
  next
    case (Some u)
    with rows obtain rs where "?rows = (u, find (\<lambda>p. p_event_id p = u_event_id u) (pending_events d)) # rs"
      by (auto simp: usage_of_def split: list.splits)
    with Some usage_of_key [OF Some] show ?thesis
      by (simp add: sql_read_event_def pending_of_def)
  qed
qed

lemma readEvent_stored:
  "sql_read_event i now d = Inr (x, d') \<Longrightarrow>
   readEvent (Inr x) = (case stored d i of None \<Rightarrow> Inl ErrNotFound | Some e \<Rightarrow> Inr e)"
  by (auto simp: sql_read_event_eq readEvent_def scan_row_def stored_def view_def Let_def
        split: option.splits)

lemma sql_read_event_db: "sql_read_event i now d = Inr (x, d') \<Longrightarrow> d' = d"
  by (simp add: sql_read_event_eq)

text \<open>Reading inside a transaction: when it fails, and when it answers.\<close>

lemma readEvent_tx_known:
  assumes "readEvent_tx env i tx = (Inl err, tx')" and "stored (tx_db tx) i = Some e"
  shows "infra err"
proof -
  obtain answer where a: "tx_exec env (sql_read_event i) tx = (answer, tx')" and r: "readEvent answer = Inl err"
    using assms by (auto simp: readEvent_tx_def split: prod.splits)
  show ?thesis
  proof (cases answer)
    case (Inl e)
    with r tx_exec_Inl_driver [OF a [unfolded Inl]] show ?thesis
      by (auto simp: readEvent_def scan_row_def split: if_splits)
  next
    case (Inr x)
    with tx_exec_Inr [OF a [unfolded Inr]] readEvent_stored [of i _ "tx_db tx" x] r assms(2)
    show ?thesis by fastforce
  qed
qed

lemma readEvent_tx_missing:
  assumes "readEvent_tx env i tx = (Inl err, tx')"
  shows "err = ErrNotFound \<or> infra err"
proof -
  obtain answer where a: "tx_exec env (sql_read_event i) tx = (answer, tx')" and r: "readEvent answer = Inl err"
    using assms by (auto simp: readEvent_tx_def split: prod.splits)
  show ?thesis
    using r tx_exec_Inl_driver [of env "sql_read_event i" tx _ tx'] a
    by (cases answer) (auto simp: readEvent_def scan_row_def Let_def split: if_splits option.splits)
qed

lemma readEvent_tx_Inr:
  assumes "readEvent_tx env i tx = (Inr e, tx')"
  shows "stored (tx_db tx) i = Some e \<and> tx_db tx' = tx_db tx \<and> \<not> tx_aborted tx'"
proof -
  obtain answer where a: "tx_exec env (sql_read_event i) tx = (answer, tx')" and r: "readEvent answer = Inr e"
    using assms by (auto simp: readEvent_tx_def split: prod.splits)
  from r obtain x where x: "answer = Inr x"
    by (cases answer) (auto simp: readEvent_def scan_row_def split: if_splits)
  from tx_exec_Inr [OF a [unfolded x]]
  have s: "sql_read_event i (env_clock env (tx_calls tx)) (tx_db tx) = Inr (x, tx_db tx')"
    and na: "\<not> tx_aborted tx'" by simp_all
  from readEvent_stored [OF s] sql_read_event_db [OF s] r x na show ?thesis
    by (simp split: option.splits)
qed

lemma readEvent_tx_healthy:
  assumes "healthy env" and "\<not> tx_aborted tx"
  shows "readEvent_tx env i tx =
     ((case stored (tx_db tx) i of None \<Rightarrow> Inl ErrNotFound | Some e \<Rightarrow> Inr e),
      tx\<lparr>tx_calls := Suc (tx_calls tx)\<rparr>)"
proof -
  obtain x where s: "sql_read_event i (env_clock env (tx_calls tx)) (tx_db tx) = Inr (x, tx_db tx)"
    by (simp add: sql_read_event_eq)
  then have "tx_exec env (sql_read_event i) tx = (Inr x, tx\<lparr>tx_calls := Suc (tx_calls tx)\<rparr>)"
    using assms by (subst tx_exec_no_fault) auto
  then show ?thesis by (simp add: readEvent_tx_def readEvent_stored [OF s])
qed

lemma store_Get_stored:
  "env_fault env 0 = None \<Longrightarrow>
   store_Get env i d = (case stored d i of None \<Rightarrow> Inl ErrNotFound | Some e \<Rightarrow> Inr e)"
  using readEvent_stored [of i "env_clock env 0" d]
  by (auto simp: store_Get_def pool_query_def sql_read_event_eq)

lemma store_Get_Inr: "store_Get env i d = Inr e \<Longrightarrow> stored d i = Some e"
  using store_Get_stored [of env i d]
  by (cases "env_fault env 0")
    (auto simp: store_Get_def pool_query_def readEvent_def scan_row_def split: option.splits)

lemma store_Get_not_found:
  "store_Get env i d = Inl err \<Longrightarrow> errors_is err ErrNotFound \<Longrightarrow> stored d i = None"
  using store_Get_stored [of env i d]
  by (cases "env_fault env 0")
    (auto simp: store_Get_def pool_query_def readEvent_def scan_row_def split: option.splits)

section \<open>The invariant and its parts\<close>

lemma store_inv_empty [simp]: "store_inv empty_db"
  by (simp add: store_inv_def empty_db_def)

lemma store_invD:
  assumes "store_inv d"
  shows "distinct (usage_ids d)" "distinct (pending_ids d)" "distinct (ledger_ids d)"
    "set (pending_ids d) \<inter> set (ledger_ids d) = {}"
    "set (pending_ids d) \<union> set (ledger_ids d) = set (usage_ids d)"
    "list_all usage_check (usage_events d)" "list_all pending_check (pending_events d)"
  using assms by (simp_all add: store_inv_def)

lemma store_inv_pending_check:
  "store_inv d \<Longrightarrow> pending_of d i = Some p \<Longrightarrow> pending_check p"
  by (metis pending_of_key store_invD(7) list.pred_set)

lemma store_inv_usage_check:
  "store_inv d \<Longrightarrow> usage_of d i = Some u \<Longrightarrow> usage_check u"
  by (metis usage_of_key store_invD(6) list.pred_set)

text \<open>Under the invariant an event is posted exactly when it has no queue row.\<close>

lemma posted_iff_not_pending:
  "store_inv d \<Longrightarrow> i \<in> set (usage_ids d) \<Longrightarrow> i \<in> set (ledger_ids d) \<longleftrightarrow> i \<notin> set (pending_ids d)"
  using store_invD(4,5) [of d] by blast

lemma stored_Processed:
  "store_inv d \<Longrightarrow> stored d i = Some e \<Longrightarrow> Processed e \<longleftrightarrow> i \<notin> set (pending_ids d)"
proof -
  assume inv: "store_inv d" and s: "stored d i = Some e"
  from s have "i \<in> set (usage_ids d)" by (metis option.distinct(1) stored_None)
  with inv have "i \<in> set (ledger_ids d) \<longleftrightarrow> i \<notin> set (pending_ids d)" by (rule posted_iff_not_pending)
  moreover from s have "Processed e \<longleftrightarrow> i \<in> set (ledger_ids d)" by (auto simp: stored_def)
  ultimately show ?thesis by blast
qed

section \<open>The view after each change of the tables\<close>

definition post_event :: "event \<Rightarrow> event" where
  "post_event e = e\<lparr>Processed := True, Failed := False, ProcessingFailures := 0,
     FailureCode := '''', RetryGeneration := 0\<rparr>"

definition fail_event :: "string \<Rightarrow> event \<Rightarrow> event" where
  "fail_event code e = e\<lparr>ProcessingFailures := ProcessingFailures e + 1, FailureCode := code,
     Failed := ProcessingFailures e + 1 = 3\<rparr>"

definition reactivate_event :: "event \<Rightarrow> event" where
  "reactivate_event e = e\<lparr>ProcessingFailures := 0, FailureCode := '''', Failed := False,
     RetryGeneration := RetryGeneration e + 1\<rparr>"

lemma frozen_event_updates [simp]:
  "frozen (post_event e) = frozen e" "frozen (fail_event c e) = frozen e"
  "frozen (reactivate_event e) = frozen e"
  by (simp_all add: frozen_def post_event_def fail_event_def reactivate_event_def)

text \<open>A new event and its queue row, appended together.\<close>

lemma stored_admit:
  assumes "u_event_id u = i" and "i \<notin> set (usage_ids d)" and "store_inv d"
  shows "stored (d\<lparr>usage_events := usage_events d @ [u],
                   pending_events := pending_events d @ [pending_row_of i now]\<rparr>) =
     (stored d)(i \<mapsto> view u False (Some (pending_row_of i now)))"
proof
  fix j
  have "i \<notin> set (pending_ids d)" "i \<notin> set (ledger_ids d)"
    using assms(2) store_invD(5) [OF assms(3)] by blast+
  moreover from this have "find (\<lambda>p. p_event_id p = i) (pending_events d) = None"
    "find (\<lambda>u. u_event_id u = i) (usage_events d) = None"
    using assms(2) by (simp_all only: find_key_None not_False_eq_True)
  ultimately show "stored (d\<lparr>usage_events := usage_events d @ [u],
       pending_events := pending_events d @ [pending_row_of i now]\<rparr>) j =
     ((stored d)(i \<mapsto> view u False (Some (pending_row_of i now)))) j"
    using assms(1)
    by (auto simp: stored_def usage_of_def pending_of_def find_append pending_row_of_def split: option.splits)
qed

lemma store_inv_admit:
  assumes "store_inv d" and "usage_check u" and "u_event_id u = i" and "i \<notin> set (usage_ids d)"
  shows "store_inv (d\<lparr>usage_events := usage_events d @ [u],
                      pending_events := pending_events d @ [pending_row_of i now]\<rparr>)"
proof -
  have "pending_check (pending_row_of i now)"
    by (simp add: pending_check_def pending_row_of_def failure_codes_def)
  moreover have "i \<notin> set (pending_ids d)" "i \<notin> set (ledger_ids d)"
    using assms(4) store_invD(5) [OF assms(1)] by blast+
  ultimately show ?thesis
    using assms by (auto simp: store_inv_def pending_row_of_def)
qed

text \<open>Pending events posted to the ledger and removed from the queue.\<close>

lemma stored_post:
  assumes "store_inv d" and "set is \<subseteq> set (pending_ids d)"
  shows "stored (d\<lparr>ledger_entries := ledger_entries d @ map (\<lambda>i. \<lparr>l_event_id = i, l_processed_at = now\<rparr>) is,
                   pending_events := filter (\<lambda>p. p_event_id p \<notin> set is) (pending_events d)\<rparr>) j =
     (if j \<in> set is then map_option post_event (stored d j) else stored d j)"
proof -
  have "map_option post_event (stored d j) = map_option (\<lambda>u. view u True None) (usage_of d j)"
    by (cases "usage_of d j") (simp_all add: stored_def post_event_def view_def event_of_row_def Let_def)
  moreover have "map l_event_id (map (\<lambda>i. \<lparr>l_event_id = i, l_processed_at = now\<rparr>) is) = is"
    by (simp add: o_def)
  ultimately show ?thesis
    using find_key_filter [of p_event_id j "set is" "pending_events d"]
    by (cases "j \<in> set is") (simp_all add: stored_def usage_of_def pending_of_def image_image)
qed

lemma store_inv_post:
  assumes "store_inv d" and "set is \<subseteq> set (pending_ids d)" and "distinct is"
  shows "store_inv (d\<lparr>ledger_entries := ledger_entries d @ map (\<lambda>i. \<lparr>l_event_id = i, l_processed_at = now\<rparr>) is,
                      pending_events := filter (\<lambda>p. p_event_id p \<notin> set is) (pending_events d)\<rparr>)"
proof -
  note inv = store_invD [OF assms(1)]
  have ids: "map l_event_id (map (\<lambda>i. \<lparr>l_event_id = i, l_processed_at = now\<rparr>) is) = is"
    by (simp add: o_def)
  have "set is \<inter> set (ledger_ids d) = {}" using inv(4) assms(2) by blast
  moreover have "set (pending_ids d) - set is \<union> (set (ledger_ids d) \<union> set is) = set (usage_ids d)"
    using inv(5) assms(2) by blast
  ultimately show ?thesis
    using inv assms(3)
    by (auto simp: store_inv_def map_key_filter ids o_def list_all_iff distinct_map_filter)
qed

text \<open>An update of one queue row.\<close>

lemma stored_update:
  assumes "\<And>p. p_event_id (f p) = p_event_id p"
  shows "stored (d\<lparr>pending_events := map (\<lambda>p. if p_event_id p = i then f p else p) (pending_events d)\<rparr>) j =
     (if j = i then map_option (\<lambda>u. view u (i \<in> set (ledger_ids d)) (map_option f (pending_of d i))) (usage_of d i)
      else stored d j)"
  using find_key_map [of p_event_id f j i "pending_events d"] assms
  by (cases "j = i") (simp_all add: stored_def usage_of_def pending_of_def)

lemma store_inv_update:
  assumes "store_inv d" and id: "\<And>p. p_event_id (f p) = p_event_id p"
    and chk: "\<forall>p\<in>set (pending_events d). p_event_id p = i \<longrightarrow> pending_check (f p)"
  shows "store_inv (d\<lparr>pending_events := map (\<lambda>p. if p_event_id p = i then f p else p) (pending_events d)\<rparr>)"
    (is "store_inv ?d")
proof -
  have eqs: "pending_ids ?d = pending_ids d" "usage_events ?d = usage_events d"
    "ledger_entries ?d = ledger_entries d"
    using map_key_map [of p_event_id f i "pending_events d"] id by simp_all
  have "list_all pending_check (pending_events ?d)"
    using chk store_invD(7) [OF assms(1)] by (auto simp: list_all_iff)
  then show ?thesis
    using store_invD(1-6) [OF assms(1)] unfolding store_inv_def eqs by blast
qed

end
