(* ===== verification/Store_Accept.thy ===== *)
theory Store_Accept
  imports Store_Inv
begin

text \<open>
  What \<open>Store.Accept\<close> does to the tables: for every environment one of the outcomes of
  \<open>store_Accept_cases\<close>, each of which keeps \<open>store_inv\<close>; in a healthy one the equation
  \<open>store_Accept_healthy\<close>.
\<close>

definition admitted :: "event \<Rightarrow> int \<Rightarrow> int \<Rightarrow> db \<Rightarrow> db" where
  "admitted ev now1 now2 d =
     d\<lparr>usage_events := usage_events d @ [usage_row_of ev now1],
       pending_events := pending_events d @ [pending_row_of (EventID (Input ev)) now2]\<rparr>"

text \<open>The stored form of a newly accepted event.\<close>

definition fresh_event :: "event \<Rightarrow> int \<Rightarrow> event" where
  "fresh_event ev now = ev\<lparr>Processed := False, CreatedAt := now, Failed := False,
     ProcessingFailures := 0, FailureCode := '''', RetryGeneration := 0\<rparr>"

definition queue_full :: "store \<Rightarrow> db \<Rightarrow> bool" where
  "queue_full st d \<longleftrightarrow> int (length (pending_events d)) \<ge> sint (maxPending st)"

lemma usage_row_of_key [simp]: "u_event_id (usage_row_of ev now) = EventID (Input ev)"
  by (simp add: usage_row_of_def)

lemma view_usage_row_of:
  "view (usage_row_of ev now) False (Some (pending_row_of i now2)) = fresh_event ev now"
  by (simp add: view_def event_of_row_def usage_row_of_def pending_row_of_def fresh_event_def Let_def)

lemma usage_check_now: "usage_check (usage_row_of ev now) = usage_check (usage_row_of ev 0)"
  by (simp add: usage_check_def usage_row_of_def)

lemma frozen_fresh: "frozen (fresh_event ev now) = frozen (ev\<lparr>CreatedAt := now\<rparr>)"
  by (simp add: frozen_def fresh_event_def)

lemma fresh_event_simps [simp]:
  "Input (fresh_event ev now) = Input ev" "UnitPriceMicros (fresh_event ev now) = UnitPriceMicros ev"
  "AmountMicros (fresh_event ev now) = AmountMicros ev" "RequestID (fresh_event ev now) = RequestID ev"
  "Currency (fresh_event ev now) = Currency ev" "Processed (fresh_event ev now) = False"
  "CreatedAt (fresh_event ev now) = now"
  by (simp_all add: fresh_event_def)

lemma stored_admitted:
  "store_inv d \<Longrightarrow> EventID (Input ev) \<notin> set (usage_ids d) \<Longrightarrow>
   stored (admitted ev now1 now2 d) = (stored d)(EventID (Input ev) \<mapsto> fresh_event ev now1)"
  by (simp add: admitted_def stored_admit view_usage_row_of)

lemma store_inv_admitted:
  "store_inv d \<Longrightarrow> EventID (Input ev) \<notin> set (usage_ids d) \<Longrightarrow> usage_check (usage_row_of ev 0) \<Longrightarrow>
   store_inv (admitted ev now1 now2 d)"
  unfolding admitted_def by (rule store_inv_admit) (simp_all add: usage_check_now [of ev now1])

lemma count_full: "sint limit \<le> int (length (take (nat (sint limit)) xs)) \<longleftrightarrow> sint limit \<le> int (length xs)"
  by auto

text \<open>The row of a priced valid input passes every check of the table.\<close>

lemma priced_row_check:
  assumes "valid_input inp" and "0 < sint rate" and "fits rate inp" and "rid = [] \<or> request_id_ok rid"
  shows "usage_check (usage_row_of (priced_event rate rid inp) now)"
proof -
  have "0 < sint (Units inp) * sint rate" using assms(1,2) by (simp add: valid_input_def)
  with assms priced_event_amount [OF assms(1-3), of rid] show ?thesis
    by (auto simp: usage_check_def usage_row_of_def valid_input_def valid_id_sql sql_request_id_iff)
qed

section \<open>Every environment\<close>

text \<open>The admission of a new identifier: it returns no error only when the queue has room.\<close>

lemma admit_cases:
  assumes "admit env st i tx = (r, tx')"
    and "i \<notin> set (pending_ids (tx_db tx))" and "i \<in> set (usage_ids (tx_db tx))"
  obtains (enqueued) now where "r = None" "\<not> tx_aborted tx'" "\<not> queue_full st (tx_db tx)"
      "tx_db tx' = (tx_db tx)\<lparr>pending_events := pending_events (tx_db tx) @ [pending_row_of i now]\<rparr>"
  | (full) "r = Some ErrQueueFull" "queue_full st (tx_db tx)"
  | (failed) e where "r = Some e" "infra e"
proof (cases "tx_exec env sql_advisory_lock tx")
  case (Pair a tx1)
  show thesis
  proof (cases a)
    case (Inl e)
    with Pair assms failed tx_exec_Inl_driver [OF Pair [unfolded Inl]] show thesis
      by (auto simp: admit_def)
  next
    case (Inr u)
    from tx_exec_Inr [OF Pair [unfolded Inr]] have db1: "tx_db tx1 = tx_db tx"
      by (simp add: sql_advisory_lock_def)
    obtain b tx2 where t2: "tx_exec env (sql_count_pending (maxPending st)) tx1 = (b, tx2)"
      by fastforce
    show thesis
    proof (cases b)
      case Inl2: (Inl e)
      with t2 Pair Inr assms failed tx_exec_Inl_driver [OF t2 [unfolded Inl2]] show thesis
        by (auto simp: admit_def)
    next
      case Inr2: (Inr n)
      from tx_exec_Inr [OF t2 [unfolded Inr2]] db1
      have db2: "tx_db tx2 = tx_db tx"
        and n: "n \<ge> sint (maxPending st) \<longleftrightarrow> queue_full st (tx_db tx)"
        by (auto simp: sql_count_pending_def queue_full_def count_full)
      obtain c tx3 where t3: "tx_exec env (sql_insert_pending i) tx2 = (c, tx3)" by fastforce
      show thesis
      proof (cases c)
        case Inl3: (Inl e)
        with t2 t3 Pair Inr Inr2 n assms failed full tx_exec_Inl_driver [OF t3 [unfolded Inl3]] show thesis
          by (auto simp: admit_def split: if_splits)
      next
        case Inr3: (Inr m)
        from tx_exec_Inr [OF t3 [unfolded Inr3]] db2 assms(2,3)
        have "\<not> tx_aborted tx3" "tx_db tx3 = (tx_db tx)\<lparr>pending_events :=
            pending_events (tx_db tx) @ [pending_row_of i (env_clock env (tx_calls tx2))]\<rparr>"
          by (simp_all add: sql_insert_pending_def)
        with t2 t3 Pair Inr Inr2 Inr3 n assms(1) enqueued full show thesis
          by (auto simp: admit_def split: if_splits)
      qed
    qed
  qed
qed

text \<open>The four outcomes of the transaction function on tables that satisfy the invariant.\<close>

lemma accept_tx_cases:
  assumes run: "accept_tx env st ev (begin_tx d) = (r, (e, created), tx)" and inv: "store_inv d"
  obtains (admitted) now1 now2 where "r = None" "created" "\<not> tx_aborted tx"
      "EventID (Input ev) \<notin> set (usage_ids d)" "usage_check (usage_row_of ev 0)" "\<not> queue_full st d"
      "tx_db tx = admitted ev now1 now2 d" "e = fresh_event ev now1"
  | (replayed) "r = None" "\<not> created" "\<not> tx_aborted tx" "tx_db tx = d"
      "stored d (EventID (Input ev)) = Some e" "Input e = Input ev"
  | (conflict) e' where "r = Some ErrConflict" "stored d (EventID (Input ev)) = Some e'" "Input e' \<noteq> Input ev"
  | (full) "r = Some ErrQueueFull" "stored d (EventID (Input ev)) = None" "queue_full st d"
  | (failed) err where "r = Some err" "infra err"
proof -
  let ?i = "EventID (Input ev)"
  obtain a tx1 where t1: "tx_exec env (sql_insert_usage ev) (begin_tx d) = (a, tx1)" by fastforce
  show thesis
  proof (cases a)
    case (Inl err)
    with t1 run failed tx_exec_Inl_driver [OF t1 [unfolded Inl]] show thesis
      by (auto simp: accept_tx_def)
  next
    case (Inr n)
    note ok = tx_exec_Inr [OF t1 [unfolded Inr], simplified]
    define now1 where "now1 = env_clock env 1"
    have chk: "usage_check (usage_row_of ev 0)"
      using ok usage_check_now [of ev now1] by (auto simp: sql_insert_usage_def now1_def split: if_splits)
    show thesis
    proof (cases "?i \<in> set (usage_ids d)")
      case True
      then have n: "n = 0" and db1: "tx_db tx1 = d" and na: "\<not> tx_aborted tx1"
        using ok chk usage_check_now [of ev now1] by (auto simp: sql_insert_usage_def now1_def)
      obtain b tx2 where t2: "readEvent_tx env ?i tx1 = (b, tx2)" by fastforce
      obtain e0 where e0: "stored d ?i = Some e0" using True stored_None by fastforce
      show thesis
      proof (cases b)
        case Inl2: (Inl err)
        with t2 readEvent_tx_known [OF t2 [unfolded Inl2]] db1 e0 failed run t1 Inr n show thesis
          by (auto simp: accept_tx_def)
      next
        case Inr2: (Inr e1)
        from readEvent_tx_Inr [OF t2 [unfolded Inr2]] db1 e0
        have "e1 = e0" "tx_db tx2 = d" "\<not> tx_aborted tx2" by simp_all
        with t2 Inr2 e0 run t1 Inr n replayed conflict show thesis
          by (auto simp: accept_tx_def split: if_splits)
      qed
    next
      case False
      let ?d1 = "d\<lparr>usage_events := usage_events d @ [usage_row_of ev now1]\<rparr>"
      have n: "n = 1" and db1: "tx_db tx1 = ?d1"
        using ok chk usage_check_now [of ev now1] False by (auto simp: sql_insert_usage_def now1_def)
      have np: "?i \<notin> set (pending_ids (tx_db tx1))" and iu: "?i \<in> set (usage_ids (tx_db tx1))"
        using False store_invD(5) [OF inv] db1 by auto
      have qf: "queue_full st (tx_db tx1) = queue_full st d" by (simp add: db1 queue_full_def)
      obtain b tx2 where t2: "admit env st ?i tx1 = (b, tx2)" by fastforce
      show thesis
        using t2 np iu
      proof (cases rule: admit_cases)
        case (enqueued now2)
        then have db2: "tx_db tx2 = admitted ev now1 now2 d" by (simp add: db1 admitted_def)
        have st2: "stored (tx_db tx2) ?i = Some (fresh_event ev now1)"
          using inv False by (simp add: db2 stored_admitted)
        obtain c tx3 where t3: "readEvent_tx env ?i tx2 = (c, tx3)" by fastforce
        show thesis
        proof (cases c)
          case Inl3: (Inl err)
          with readEvent_tx_known [OF t3 [unfolded Inl3] st2] failed run t1 Inr n t2 enqueued t3 show thesis
            by (auto simp: accept_tx_def)
        next
          case Inr3: (Inr e1)
          from readEvent_tx_Inr [OF t3 [unfolded Inr3]] st2
          have e1: "e1 = fresh_event ev now1" "tx_db tx3 = tx_db tx2" "\<not> tx_aborted tx3" by simp_all
          with run t1 Inr n t2 enqueued t3 Inr3
          have "r = None" "created" "e = fresh_event ev now1" "tx = tx3"
            by (simp_all add: accept_tx_def)
          with admitted [of now1 now2] e1 db2 False chk enqueued qf show thesis by simp
        qed
      next
        case full': full
        with run t1 Inr n t2 full False qf show thesis by (auto simp: accept_tx_def stored_None)
      next
        case failed': (failed err)
        with run t1 Inr n t2 failed show thesis by (auto simp: accept_tx_def)
      qed
    qed
  qed
qed

text \<open>
  \<open>Accept\<close> as a whole. With an error the tables are unchanged, except that a COMMIT whose answer
  was lost may have admitted the event (\<open>unconfirmed\<close>); the sentinels of the error say why.
\<close>

lemma store_Accept_cases:
  assumes run: "store_Accept st env ev d = (r, d')" and inv: "store_inv d"
  obtains (admitted) now1 now2 where "r = Inr (fresh_event ev now1, True)"
      "EventID (Input ev) \<notin> set (usage_ids d)" "usage_check (usage_row_of ev 0)" "\<not> queue_full st d"
      "d' = admitted ev now1 now2 d"
  | (replayed) e where "r = Inr (e, False)" "d' = d" "stored d (EventID (Input ev)) = Some e" "Input e = Input ev"
  | (conflict) err e where "r = Inl err" "errors_is err ErrConflict" "d' = d"
      "stored d (EventID (Input ev)) = Some e" "Input e \<noteq> Input ev"
      "\<And>t. billing_sentinel t \<Longrightarrow> errors_is err t \<Longrightarrow> t = ErrConflict"
  | (full) err where "r = Inl err" "errors_is err ErrQueueFull" "d' = d"
      "stored d (EventID (Input ev)) = None" "queue_full st d"
      "\<And>t. billing_sentinel t \<Longrightarrow> errors_is err t \<Longrightarrow> t = ErrQueueFull"
  | (failed) err where "r = Inl err" "infra err" "d' = d"
  | (unconfirmed) err now1 now2 where "r = Inl err" "infra err"
      "EventID (Input ev) \<notin> set (usage_ids d)" "usage_check (usage_row_of ev 0)" "\<not> queue_full st d"
      "d' = admitted ev now1 now2 d"
proof -
  obtain terr e created d1 where
    t: "transaction env (zero_event, False) (accept_tx env st ev) d = (terr, (e, created), d1)"
    by (metis prod_cases3 surj_pair)
  have d': "d' = d1"
    and r: "r = (case terr of None \<Rightarrow> Inr (e, created) | Some err \<Rightarrow> Inl (Wrap ''accept usage'' err))"
    using run t by (auto simp: store_Accept_def split: option.splits)
  show thesis
    using t
  proof (cases rule: transaction_result)
    case (committed tx)
    from committed(2) inv show thesis
    proof (cases rule: accept_tx_cases)
      case (admitted n1 n2)
      show thesis by (rule that(1) [of n1 n2]) (use admitted committed d' r in simp_all)
    next
      case replayed
      show thesis by (rule that(2) [of e]) (use replayed committed d' r in simp_all)
    qed (use committed in simp_all)
  next
    case (refused err e0 tx)
    from refused(4) [of ErrConflict] refused(4) [of ErrQueueFull]
    have sents: "errors_is err ErrConflict = errors_is e0 ErrConflict"
      "errors_is err ErrQueueFull = errors_is e0 ErrQueueFull"
      by (simp_all add: billing_sentinel_def)
    from refused(2) inv show thesis
    proof (cases rule: accept_tx_cases)
      case (conflict e')
      then have "\<And>t. billing_sentinel t \<Longrightarrow> errors_is (Wrap ''accept usage'' err) t \<Longrightarrow> t = ErrConflict"
        using refused(4) by auto
      with conflict refused sents d' r that(3) show thesis by simp
    next
      case full
      then have "\<And>t. billing_sentinel t \<Longrightarrow> errors_is (Wrap ''accept usage'' err) t \<Longrightarrow> t = ErrQueueFull"
        using refused(4) by auto
      with full refused sents d' r that(4) show thesis by simp
    next
      case (failed e1)
      then have "infra (Wrap ''accept usage'' err)" using refused(4) by (auto simp: infra_def)
      with refused d' r that(5) show thesis by simp
    qed simp_all
  next
    case (failed err)
    with d' r that(5) show thesis by simp
  next
    case (unconfirmed err tx)
    from unconfirmed(3) inv show thesis
      by (cases rule: accept_tx_cases) (use unconfirmed d' r that(5,6) in auto)
  qed
qed

lemma store_Accept_inv: "store_inv d \<Longrightarrow> store_inv (snd (store_Accept st env ev d))"
proof -
  assume inv: "store_inv d"
  obtain r d' where run: "store_Accept st env ev d = (r, d')" by fastforce
  from run inv show ?thesis
    by (cases rule: store_Accept_cases) (use run inv in \<open>auto simp: store_inv_admitted\<close>)
qed

section \<open>A healthy environment\<close>

lemma admit_healthy:
  assumes "healthy env" and "\<not> tx_aborted tx"
    and "i \<notin> set (pending_ids (tx_db tx))" and "i \<in> set (usage_ids (tx_db tx))"
  shows "admit env st i tx =
     (if queue_full st (tx_db tx) then (Some ErrQueueFull, tx\<lparr>tx_calls := tx_calls tx + 2\<rparr>)
      else (None, tx\<lparr>tx_calls := tx_calls tx + 3, tx_db := (tx_db tx)\<lparr>pending_events :=
        pending_events (tx_db tx) @ [pending_row_of i (env_clock env (tx_calls tx + 2))]\<rparr>\<rparr>))"
  using assms
  by (simp add: admit_def tx_exec_healthy sql_advisory_lock_def sql_count_pending_def
      sql_insert_pending_def count_full queue_full_def)

lemma store_Accept_healthy:
  assumes env: "healthy env" and inv: "store_inv d" and chk: "usage_check (usage_row_of ev 0)"
  shows "store_Accept st env ev d =
    (case stored d (EventID (Input ev)) of
       Some e \<Rightarrow> (if Input e = Input ev then (Inr (e, False), d) else (Inl (Wrap ''accept usage'' ErrConflict), d))
     | None \<Rightarrow> (if queue_full st d then (Inl (Wrap ''accept usage'' ErrQueueFull), d)
              else (Inr (fresh_event ev (env_clock env 1), True),
                    admitted ev (env_clock env 1) (env_clock env 4) d)))"
proof (cases "stored d (EventID (Input ev))")
  case (Some e)
  then have known: "EventID (Input ev) \<in> set (usage_ids d)" by (metis option.distinct(1) stored_None)
  with env chk usage_check_now [of ev "env_clock env 1"]
  have "tx_exec env (sql_insert_usage ev) (begin_tx d) = (Inr 0, (begin_tx d)\<lparr>tx_calls := 2\<rparr>)"
    by (simp add: tx_exec_healthy sql_insert_usage_def begin_tx_def)
  then have acc: "accept_tx env st ev (begin_tx d) =
     (if Input e = Input ev then None else Some ErrConflict, (e, False), (begin_tx d)\<lparr>tx_calls := 3\<rparr>)"
    using env Some by (simp add: accept_tx_def readEvent_tx_healthy)
  have "transaction env (zero_event, False) (accept_tx env st ev) d =
     (if Input e = Input ev then None else Some ErrConflict, (e, False), d)"
    using acc transaction_healthy [OF env, of "accept_tx env st ev" d] by (cases "Input e = Input ev") simp_all
  then show ?thesis using Some by (simp add: store_Accept_def)
next
  case None
  then have new: "EventID (Input ev) \<notin> set (usage_ids d)" by (simp add: stored_None)
  let ?tx1 = "(begin_tx d)\<lparr>tx_calls := 2,
      tx_db := d\<lparr>usage_events := usage_events d @ [usage_row_of ev (env_clock env 1)]\<rparr>\<rparr>"
  from new env chk usage_check_now [of ev "env_clock env 1"]
  have ins: "tx_exec env (sql_insert_usage ev) (begin_tx d) = (Inr 1, ?tx1)"
    by (simp add: tx_exec_healthy sql_insert_usage_def begin_tx_def)
  have "EventID (Input ev) \<notin> set (pending_ids d)" using new store_invD(5) [OF inv] by blast
  then have adm: "admit env st (EventID (Input ev)) ?tx1 =
     (if queue_full st d then (Some ErrQueueFull, ?tx1\<lparr>tx_calls := 4\<rparr>)
      else (None, ?tx1\<lparr>tx_calls := 5, tx_db := admitted ev (env_clock env 1) (env_clock env 4) d\<rparr>))"
    using env by (simp add: admit_healthy queue_full_def admitted_def)
  have acc: "accept_tx env st ev (begin_tx d) =
     (if queue_full st d then (Some ErrQueueFull, (zero_event, True), ?tx1\<lparr>tx_calls := 4\<rparr>)
      else (None, (fresh_event ev (env_clock env 1), True),
            ?tx1\<lparr>tx_calls := 6, tx_db := admitted ev (env_clock env 1) (env_clock env 4) d\<rparr>))"
    using ins adm env new inv by (simp add: accept_tx_def readEvent_tx_healthy stored_admitted)
  have "transaction env (zero_event, False) (accept_tx env st ev) d =
     (if queue_full st d then (Some ErrQueueFull, (zero_event, True), d)
      else (None, (fresh_event ev (env_clock env 1), True),
            admitted ev (env_clock env 1) (env_clock env 4) d))"
    using acc transaction_healthy [OF env, of "accept_tx env st ev" d] by (cases "queue_full st d") simp_all
  then show ?thesis using None by (simp add: store_Accept_def)
qed

end
