(* ===== verification/Store_Batch.thy ===== *)
theory Store_Batch
  imports Store_Inv
begin

text \<open>
  What \<open>ProcessBatchWithResults\<close> does: which rows it claims, and what a batch that commits does
  to them, on the bulk path and on the isolated one. Both are the same function \<open>attempted\<close> of
  the abstract view: a claimed event is posted, or its failure is counted.
\<close>

section \<open>The claim\<close>

lemma sort_key_map: "sort_key f (map g xs) = map g (sort_key (\<lambda>x. f (g x)) xs)"
proof (induction xs)
  case (Cons x xs)
  have "insort_key f (g x) (map g ys) = map g (insort_key (\<lambda>x. f (g x)) x ys)" for ys
    by (induction ys) auto
  with Cons show ?case by simp
qed simp

lemma filter_key_distinct:
  "distinct (map k xs) \<Longrightarrow> x \<in> set xs \<Longrightarrow> filter (\<lambda>y. k y = k x) xs = [x]"
proof (induction xs)
  case (Cons y ys)
  then have "k y \<notin> k ` set ys" by simp
  then have none: "k z \<noteq> k y" if "z \<in> set ys" for z using that by (metis image_eqI)
  show ?case
  proof (cases "x = y")
    case True
    then show ?thesis using none by (simp add: filter_empty_conv)
  next
    case False
    with Cons none show ?thesis by auto
  qed
qed simp

lemma inner_join_pending:
  assumes "store_inv d"
  shows "inner_join (\<lambda>p u. u_event_id u = p_event_id p) (pending_events d) (usage_events d) =
     map (\<lambda>p. (p, the (usage_of d (p_event_id p)))) (pending_events d)"
proof -
  have one: "filter (\<lambda>u. u_event_id u = p_event_id p) (usage_events d) = [the (usage_of d (p_event_id p))]"
    if "p \<in> set (pending_events d)" for p
  proof -
    have "p_event_id p \<in> set (usage_ids d)" using that store_invD(5) [OF assms] by auto
    then obtain u where "usage_of d (p_event_id p) = Some u" by (metis not_None_eq usage_of_None)
    with filter_key_distinct [OF store_invD(1) [OF assms], of u] usage_of_key [of d _ u]
    show ?thesis by simp
  qed
  have "concat (map (\<lambda>p. map (Pair p) (filter (\<lambda>u. u_event_id u = p_event_id p) (usage_events d)))
          (pending_events d)) =
        concat (map (\<lambda>p. [(p, the (usage_of d (p_event_id p)))]) (pending_events d))"
    using one by (intro arg_cong [where f = concat] map_cong) simp_all
  then show ?thesis by (simp add: inner_join_def)
qed

text \<open>The rows a claim takes, in the order it takes them.\<close>

definition claim_order :: "pg_env \<Rightarrow> db \<Rightarrow> pending_row list" where
  "claim_order env d =
     filter (\<lambda>p. \<not> env_locked env (p_event_id p))
       (sort_key (\<lambda>p. (p_enqueued_at p, env_collate env (p_event_id p)))
         (filter (\<lambda>p. p_processing_failures p < 3) (pending_events d)))"

definition claimed_rows :: "pg_env \<Rightarrow> int \<Rightarrow> db \<Rightarrow> pending_row list" where
  "claimed_rows env limit d = take (nat limit) (claim_order env d)"

definition claimed_ids :: "pg_env \<Rightarrow> int \<Rightarrow> db \<Rightarrow> string list" where
  "claimed_ids env limit d = map p_event_id (claimed_rows env limit d)"

definition claim_of :: "db \<Rightarrow> pending_row \<Rightarrow> string \<times> string \<times> int \<times> int64" where
  "claim_of d p = (p_event_id p, u_request_id (the (usage_of d (p_event_id p))),
     p_processing_failures p, p_retry_generation p)"

lemma sql_claim_eq:
  assumes "store_inv d"
  shows "sql_claim (env_locked env) (env_collate env) limit now d =
     Inr (map (claim_of d) (claimed_rows env limit d), d)"
  by (simp add: sql_claim_def inner_join_pending [OF assms] filter_map sort_key_map take_map o_def
      claimed_rows_def claim_order_def claim_of_def case_prod_beta)

lemma claimed_rows_props:
  assumes "p \<in> set (claimed_rows env limit d)"
  shows "p \<in> set (pending_events d)" "p_processing_failures p < 3" "\<not> env_locked env (p_event_id p)"
  using in_set_takeD [OF assms [unfolded claimed_rows_def]] by (auto simp: claim_order_def)

lemma claimed_ids_pending: "set (claimed_ids env limit d) \<subseteq> set (pending_ids d)"
  using claimed_rows_props by (auto simp: claimed_ids_def)

lemma distinct_claim_order: "store_inv d \<Longrightarrow> distinct (map p_event_id (claim_order env d))"
proof -
  assume "store_inv d"
  then have "distinct (map p_event_id (filter (\<lambda>p. p_processing_failures p < 3) (pending_events d)))"
    by (intro distinct_map_filter store_invD(2))
  then have "distinct (map p_event_id (sort_key (\<lambda>p. (p_enqueued_at p, env_collate env (p_event_id p)))
     (filter (\<lambda>p. p_processing_failures p < 3) (pending_events d))))"
    by (simp add: distinct_map)
  then show ?thesis unfolding claim_order_def by (rule distinct_map_filter)
qed

lemma distinct_claimed_ids: "store_inv d \<Longrightarrow> distinct (claimed_ids env limit d)"
  by (simp add: claimed_ids_def claimed_rows_def take_map [symmetric] distinct_claim_order)

lemma length_claimed_ids: "0 \<le> limit \<Longrightarrow> int (length (claimed_ids env limit d)) \<le> limit"
  by (simp add: claimed_ids_def claimed_rows_def)

lemma claimed_row_of:
  assumes "store_inv d" and "p \<in> set (claimed_rows env limit d)"
  shows "pending_of d (p_event_id p) = Some p"
  unfolding pending_of_def
  by (rule find_key_distinct [OF store_invD(2) [OF assms(1)] claimed_rows_props(1) [OF assms(2)]])

section \<open>Posting to the ledger\<close>

definition ledger_rows :: "int \<Rightarrow> string list \<Rightarrow> ledger_row list" where
  "ledger_rows now is = map (\<lambda>i. \<lparr>l_event_id = i, l_processed_at = now\<rparr>) is"

text \<open>For identifiers not yet posted, the insert fails with the first violation, or posts them all.\<close>

lemma sql_post_ledger_eq:
  assumes "distinct is" and "set is \<inter> set (ledger_ids d) = {}" and "set is \<subseteq> set (usage_ids d)"
  shows "sql_post_ledger viol is now d =
     (case find (\<lambda>i. viol i \<noteq> None) is of
        Some i \<Rightarrow> Inl (the (viol i))
      | None \<Rightarrow> Inr (length is, d\<lparr>ledger_entries := ledger_entries d @ ledger_rows now is\<rparr>))"
  using assms
proof (induction "is" arbitrary: d)
  case Nil
  then show ?case by (simp add: ledger_rows_def)
next
  case (Cons i xs)
  let ?d1 = "d\<lparr>ledger_entries := ledger_entries d @ [\<lparr>l_event_id = i, l_processed_at = now\<rparr>]\<rparr>"
  have "sql_post_ledger viol xs now ?d1 =
     (case find (\<lambda>i. viol i \<noteq> None) xs of
        Some i \<Rightarrow> Inl (the (viol i))
      | None \<Rightarrow> Inr (length xs, ?d1\<lparr>ledger_entries := ledger_entries ?d1 @ ledger_rows now xs\<rparr>))"
    using Cons.prems by (intro Cons.IH) auto
  with Cons.prems show ?case
    by (auto simp: ledger_rows_def split: option.splits)
qed

section \<open>One attempt on one event\<close>

definition effect :: "(string \<Rightarrow> string option) \<Rightarrow> string \<Rightarrow> event \<Rightarrow> event" where
  "effect viol i = (case viol i of None \<Rightarrow> post_event | Some code \<Rightarrow> fail_event code)"

definition attempted ::
  "(string \<Rightarrow> string option) \<Rightarrow> string set \<Rightarrow> (string \<Rightarrow> event option) \<Rightarrow> (string \<Rightarrow> event option)" where
  "attempted viol S m = (\<lambda>j. if j \<in> S then map_option (effect viol j) (m j) else m j)"

text \<open>The metadata reported for an attempted event.\<close>

definition reported :: "(string \<Rightarrow> string option) \<Rightarrow> string \<Rightarrow> processing_event \<Rightarrow> processing_event" where
  "reported viol i ev = (case viol i of
     None \<Rightarrow> ev\<lparr>pe_Outcome := ''processed''\<rparr>
   | Some code \<Rightarrow> ev\<lparr>pe_ProcessingFailures := pe_ProcessingFailures ev + 1, pe_FailureCode := code,
       pe_Outcome := (if pe_ProcessingFailures ev + 1 = 3 then ''quarantined'' else ''retry_scheduled'')\<rparr>)"

lemma attempted_empty [simp]: "attempted viol {} m = m"
  by (simp add: attempted_def)

lemma attempted_attempted:
  "S \<inter> T = {} \<Longrightarrow> attempted viol T (attempted viol S m) = attempted viol (S \<union> T) m"
  by (rule ext) (auto simp: attempted_def option.map_comp o_def)

lemma integrityCode_pg: "integrityCode (Driver (PgErr code)) = (if code \<in> integrity_codes then code else '''')"
  by (simp add: integrityCode_def integrity_codes_def)

lemma integrity_codes_nonempty [simp]: "code \<in> integrity_codes \<Longrightarrow> code \<noteq> ''''"
  by (auto simp: integrity_codes_def)

lemma integrity_codes_failure: "code \<in> integrity_codes \<Longrightarrow> code \<in> set failure_codes"
  by (auto simp: integrity_codes_def failure_codes_def)

text \<open>
  The state a batch keeps between two events: the tables satisfy the invariant, the events not
  yet attempted are still queued as claimed, inputs and prices are those of the start.
\<close>

definition batch_inv ::
  "(string \<Rightarrow> string option) \<Rightarrow> db \<Rightarrow> string set \<Rightarrow> db \<Rightarrow> bool" where
  "batch_inv viol d0 done d \<longleftrightarrow> store_inv d \<and> usage_events d = usage_events d0 \<and>
     (\<exists>l. ledger_entries d = ledger_entries d0 @ l) \<and>
     stored d = attempted viol done (stored d0) \<and>
     pending_ids d = filter (\<lambda>i. \<not> (i \<in> done \<and> viol i = None)) (pending_ids d0) \<and>
     (\<forall>i. i \<notin> done \<longrightarrow> pending_of d i = pending_of d0 i)"

lemma batch_inv_start: "store_inv d \<Longrightarrow> batch_inv viol d {} d"
  by (simp add: batch_inv_def)

lemma batch_inv_post:
  assumes inv: "batch_inv viol d0 S d" and ids: "set is \<subseteq> set (pending_ids d)" "distinct is"
    and new: "set is \<inter> S = {}" and ok: "\<forall>i\<in>set is. viol i = None"
  shows "batch_inv viol d0 (S \<union> set is)
     (d\<lparr>ledger_entries := ledger_entries d @ ledger_rows now is,
        pending_events := filter (\<lambda>p. p_event_id p \<notin> set is) (pending_events d)\<rparr>)"
proof -
  let ?d = "d\<lparr>ledger_entries := ledger_entries d @ ledger_rows now is,
        pending_events := filter (\<lambda>p. p_event_id p \<notin> set is) (pending_events d)\<rparr>"
  from inv have si: "store_inv d" by (simp add: batch_inv_def)
  have "store_inv ?d"
    unfolding ledger_rows_def using si ids by (rule store_inv_post)
  moreover have "stored ?d = attempted viol (S \<union> set is) (stored d0)"
  proof -
    have "stored ?d = attempted viol (set is) (stored d)"
      using stored_post [OF si ids(1), of now] ok
      by (intro ext) (simp add: attempted_def effect_def ledger_rows_def)
    with inv new show ?thesis by (simp add: batch_inv_def attempted_attempted Int_commute)
  qed
  moreover have "pending_ids ?d = filter (\<lambda>i. \<not> (i \<in> S \<union> set is \<and> viol i = None)) (pending_ids d0)"
    using inv ok by (auto simp: batch_inv_def map_key_filter intro!: filter_cong)
  moreover have "pending_of ?d i = pending_of d0 i" if "i \<notin> S \<union> set is" for i
    using inv that find_key_filter [of p_event_id i "set is" "pending_events d"]
    by (simp add: batch_inv_def pending_of_def)
  ultimately show ?thesis using inv by (auto simp: batch_inv_def)
qed

lemma batch_inv_fail:
  assumes inv: "batch_inv viol d0 S d" and i: "i \<in> set (pending_ids d)" "i \<notin> S"
    and viol: "viol i = Some code"
    and upd: "sql_record_failure i code now d = Inr (n, d')"
  shows "batch_inv viol d0 (insert i S) d'"
proof -
  define f where "f = (\<lambda>p :: pending_row. p\<lparr>p_processing_failures := p_processing_failures p + 1, p_failure_code := code\<rparr>)"
  have key: "\<And>p. p_event_id (f p) = p_event_id p" by (simp add: f_def)
  from inv have si: "store_inv d" by (simp add: batch_inv_def)
  from upd have d': "d' = d\<lparr>pending_events := map (\<lambda>p. if p_event_id p = i then f p else p) (pending_events d)\<rparr>"
    and chk: "\<forall>p\<in>set (pending_events d). p_event_id p = i \<longrightarrow> pending_check (f p)"
    by (auto simp: sql_record_failure_def sql_update_pending_def f_def split: if_splits)
  have "store_inv d'" unfolding d' using si key chk by (rule store_inv_update)
  moreover have "stored d' = attempted viol (insert i S) (stored d0)"
  proof -
    obtain p where p: "pending_of d i = Some p" using i(1) by (metis not_None_eq pending_of_None)
    have "i \<notin> set (ledger_ids d)" using i(1) store_invD(4) [OF si] by blast
    then have "map_option (fail_event code) (stored d i) =
        map_option (\<lambda>u. view u (i \<in> set (ledger_ids d)) (map_option f (pending_of d i))) (usage_of d i)"
      using p by (cases "usage_of d i")
        (simp_all add: stored_def fail_event_def view_def event_of_row_def f_def Let_def)
    then have "stored d' = attempted viol {i} (stored d)"
      using stored_update [where f = f and d = d and i = i, OF key] viol
      by (intro ext) (simp add: d' attempted_def effect_def)
    with inv i(2) show ?thesis by (simp add: batch_inv_def attempted_attempted)
  qed
  moreover have "pending_ids d' = filter (\<lambda>j. \<not> (j \<in> insert i S \<and> viol j = None)) (pending_ids d0)"
  proof -
    have pid: "pending_ids d' = pending_ids d"
      unfolding d' using map_key_map [of p_event_id f i "pending_events d"] key by simp
    have skip: "filter (\<lambda>j. \<not> (j \<in> S \<and> viol j = None)) (pending_ids d0) =
        filter (\<lambda>j. \<not> (j \<in> insert i S \<and> viol j = None)) (pending_ids d0)"
      using viol by (intro filter_cong) auto
    show ?thesis using inv unfolding batch_inv_def pid skip by blast
  qed
  moreover have "pending_of d' j = pending_of d0 j" if "j \<notin> insert i S" for j
    using inv that find_key_map [of p_event_id f j i "pending_events d"] key
    by (simp add: batch_inv_def pending_of_def d')
  moreover have "usage_events d' = usage_events d" "ledger_entries d' = ledger_entries d"
    by (simp_all add: d')
  ultimately show ?thesis using inv unfolding batch_inv_def by simp
qed

text \<open>Which outcomes were recorded only matters for the events already attempted.\<close>

lemma batch_inv_cong:
  assumes "\<And>i. i \<in> S \<Longrightarrow> viol i = viol' i"
  shows "batch_inv viol d0 S d = batch_inv viol' d0 S d"
proof -
  have "attempted viol S (stored d0) = attempted viol' S (stored d0)"
    using assms by (intro ext) (simp add: attempted_def effect_def)
  moreover have "filter (\<lambda>i. \<not> (i \<in> S \<and> viol i = None)) (pending_ids d0) =
      filter (\<lambda>i. \<not> (i \<in> S \<and> viol' i = None)) (pending_ids d0)"
    using assms by (intro filter_cong) auto
  ultimately show ?thesis unfolding batch_inv_def by simp
qed

lemma batch_inv_queued:
  assumes "batch_inv viol d0 S d" and "i \<in> set (pending_ids d0)" and "i \<notin> S"
  shows "store_inv d" "i \<in> set (pending_ids d)" "i \<notin> set (ledger_ids d)" "i \<in> set (usage_ids d)"
proof -
  show inv: "store_inv d" and p: "i \<in> set (pending_ids d)"
    using assms unfolding batch_inv_def by auto
  from p store_invD(4,5) [OF inv] show "i \<notin> set (ledger_ids d)" "i \<in> set (usage_ids d)" by blast+
qed

section \<open>The isolated path\<close>

lemma integrityCode_nonempty:
  "integrityCode err \<noteq> '''' \<Longrightarrow> integrityCode err \<in> integrity_codes"
  by (auto simp: integrityCode_def integrity_codes_def split: option.splits if_splits)

lemma integrityCode_driver:
  "integrityCode (Driver f) \<noteq> '''' \<Longrightarrow> f = PgErr (integrityCode (Driver f))"
  by (cases f) (auto simp: integrityCode_def split: if_splits)

lemma process_one_None:
  assumes run: "process_one env i ev tx = (None, n, ev', tx')"
    and inv: "batch_inv viol d0 S (tx_db tx)" and i: "i \<in> set (pending_ids d0)" "i \<notin> S"
  obtains oc where "\<not> tx_aborted tx'" "tx_saves tx' = tx_saves tx"
    "batch_inv (viol(i := oc)) d0 (insert i S) (tx_db tx')"
    "n = (if oc = None then 1 else 0)" "ev' = reported (\<lambda>_. oc) i ev"
    "oc = None \<or> the oc \<in> integrity_codes" "no_integrity_faults env \<Longrightarrow> oc = env_violation env i"
proof -
  let ?d = "tx_db tx" and ?v = "env_violation env"
  note q = batch_inv_queued [OF inv i]
  have inv': "batch_inv (viol(i := oc)) d0 S ?d" for oc
    using inv batch_inv_cong [of S viol "viol(i := oc)" d0 ?d] i(2) by fastforce
  obtain u tx1 where t1: "tx_savepoint env ''ledger_event'' tx = (Inr u, tx1)"
    using run by (auto simp: process_one_def split: prod.splits sum.splits)
  note s1 = tx_savepoint_Inr [OF t1]
  obtain a tx2 where t2: "tx_exec env (sql_post_ledger ?v [i]) tx1 = (a, tx2)" by fastforce
  have post: "sql_post_ledger ?v [i] now ?d = (case ?v i of
      Some c \<Rightarrow> Inl c | None \<Rightarrow> Inr (1, ?d\<lparr>ledger_entries := ledger_entries ?d @ ledger_rows now [i]\<rparr>))" for now
    using sql_post_ledger_eq [of "[i]" ?d ?v now] q by (auto split: option.splits)
  show thesis
  proof (cases a)
    case (Inl e)
    let ?code = "integrityCode e"
    from run t1 t2 Inl have code: "?code \<noteq> ''''"
      by (auto simp: process_one_def Let_def split: if_splits)
    with run t1 t2 Inl obtain u3 tx3 where t3: "tx_rollback_to env ''ledger_event'' tx2 = (Inr u3, tx3)"
      by (auto simp: process_one_def Let_def split: prod.splits sum.splits)
    have s3: "tx_db tx3 = ?d" "tx_saves tx3 = (''ledger_event'', ?d) # tx_saves tx"
      using tx_rollback_to_Inr [OF t3] tx_exec_Inl [OF t2 [unfolded Inl]] s1 by auto
    from run t1 t2 Inl code t3 obtain k tx4 where
      t4: "tx_exec env (sql_record_failure i ?code) tx3 = (Inr k, tx4)"
      by (auto simp: process_one_def Let_def split: prod.splits sum.splits)
    note s4 = tx_exec_Inr [OF t4]
    from run t1 t2 Inl code t3 t4 obtain u5 where
      t5: "tx_release env ''ledger_event'' tx4 = (Inr u5, tx')"
      and res: "n = 0" "ev' = reported (\<lambda>_. Some ?code) i ev"
      by (auto simp: process_one_def Let_def reported_def split: prod.splits sum.splits)
    have s5: "\<not> tx_aborted tx'" "tx_db tx' = tx_db tx4" "tx_saves tx' = tx_saves tx"
      using tx_release_Inr [OF t5] s4 s3 by auto
    have "batch_inv (viol(i := Some ?code)) d0 (insert i S) (tx_db tx')"
      using batch_inv_fail [OF inv' [of "Some ?code"] q(2) i(2)] s4 s3 s5 by auto
    moreover have "Some ?code = ?v i" if nif: "no_integrity_faults env"
    proof -
      have na: "\<not> tx_aborted tx1" using s1 by simp
      from tx_exec_Inl_cases [OF t2 [unfolded Inl] na] show ?thesis
      proof (elim disjE exE conjE)
        fix c
        assume e: "e = Driver (PgErr c)"
          and "sql_post_ledger ?v [i] (env_clock env (tx_calls tx1)) (tx_db tx1) = Inl c"
        then have "?v i = Some c" using s1 post by (auto split: option.splits)
        with e code show ?thesis by (simp add: integrityCode_pg split: if_splits)
      next
        fix f
        assume "e = Driver f" and "env_fault env (tx_calls tx1) = Some f"
        with integrityCode_driver [of f] code integrityCode_nonempty [OF code] nif show ?thesis
          unfolding no_integrity_faults_def by metis
      qed
    qed
    ultimately show thesis
      using that [of "Some ?code"] s5 res integrityCode_nonempty [OF code] by simp
  next
    case (Inr m)
    note s2 = tx_exec_Inr [OF t2 [unfolded Inr]]
    define now where "now = env_clock env (tx_calls tx1)"
    have ok: "?v i = None" and d2: "tx_db tx2 = ?d\<lparr>ledger_entries := ledger_entries ?d @ ledger_rows now [i]\<rparr>"
      using s2 s1 post [of now] by (auto simp: now_def split: option.splits)
    from run t1 t2 Inr obtain k tx4 where t4: "tx_exec env (sql_delete_pending [i]) tx2 = (Inr k, tx4)"
      by (auto simp: process_one_def Let_def split: prod.splits sum.splits)
    note s4 = tx_exec_Inr [OF t4]
    from run t1 t2 Inr t4 obtain u5 where
      t5: "tx_release env ''ledger_event'' tx4 = (Inr u5, tx')"
      and res: "n = 1" "ev' = reported (\<lambda>_. None) i ev"
      by (auto simp: process_one_def Let_def reported_def split: prod.splits sum.splits)
    have s5: "\<not> tx_aborted tx'" "tx_saves tx' = tx_saves tx"
      "tx_db tx' = ?d\<lparr>ledger_entries := ledger_entries ?d @ ledger_rows now [i],
         pending_events := filter (\<lambda>p. p_event_id p \<notin> set [i]) (pending_events ?d)\<rparr>"
      using tx_release_Inr [OF t5] s4 s2 s1 d2 by (auto simp: sql_delete_pending_def)
    have "batch_inv (viol(i := None)) d0 (S \<union> set [i]) (tx_db tx')"
      unfolding s5(3) using inv' [of None] q i by (intro batch_inv_post) auto
    then show thesis using that [of None] s5 res ok by simp
  qed
qed

lemma processIndividually_None:
  assumes "processIndividually env xs tx = (None, n, evs, tx')"
    and "\<not> tx_aborted tx" and "batch_inv viol d0 S (tx_db tx)"
    and "distinct (map fst xs)" and "set (map fst xs) \<subseteq> set (pending_ids d0)"
    and "set (map fst xs) \<inter> S = {}"
  shows "\<exists>viol'. \<not> tx_aborted tx' \<and> batch_inv viol' d0 (S \<union> set (map fst xs)) (tx_db tx') \<and>
     (\<forall>i. i \<notin> set (map fst xs) \<longrightarrow> viol' i = viol i) \<and>
     n = int (length (filter (\<lambda>(i, ev). viol' i = None) xs)) \<and>
     evs = map (\<lambda>(i, ev). reported viol' i ev) xs \<and>
     (\<forall>i\<in>set (map fst xs). viol' i = None \<or> the (viol' i) \<in> integrity_codes) \<and>
     (no_integrity_faults env \<longrightarrow> (\<forall>i\<in>set (map fst xs). viol' i = env_violation env i))"
  using assms
proof (induction xs arbitrary: n evs tx viol S)
  case Nil
  then show ?case by (intro exI [of _ viol]) simp
next
  case (Cons x xs)
  obtain i ev where x: "x = (i, ev)" by fastforce
  obtain k ev' tx1 where one: "process_one env i ev tx = (None, k, ev', tx1)"
    using Cons.prems(1) by (auto simp: x split: prod.splits option.splits)
  with Cons.prems(1) obtain m evs' where
    rest: "processIndividually env xs tx1 = (None, m, evs', tx')" and res: "n = k + m" "evs = ev' # evs'"
    by (auto simp: x split: prod.splits option.splits)
  from Cons.prems have "i \<in> set (pending_ids d0)" "i \<notin> S" by (auto simp: x)
  with one Cons.prems(3) obtain oc where oc: "\<not> tx_aborted tx1"
    "batch_inv (viol(i := oc)) d0 (insert i S) (tx_db tx1)" "k = (if oc = None then 1 else 0)"
    "ev' = reported (\<lambda>_. oc) i ev" "oc = None \<or> the oc \<in> integrity_codes"
    "no_integrity_faults env \<Longrightarrow> oc = env_violation env i"
    by (rule process_one_None) blast
  have "set (map fst xs) \<inter> insert i S = {}" "i \<notin> set (map fst xs)" using Cons.prems by (auto simp: x)
  with Cons.IH [OF rest oc(1,2)] Cons.prems obtain viol' where v: "\<not> tx_aborted tx'"
    "batch_inv viol' d0 (insert i S \<union> set (map fst xs)) (tx_db tx')"
    "\<forall>j. j \<notin> set (map fst xs) \<longrightarrow> viol' j = (viol(i := oc)) j"
    "m = int (length (filter (\<lambda>(i, ev). viol' i = None) xs))"
    "evs' = map (\<lambda>(i, ev). reported viol' i ev) xs"
    "\<forall>i\<in>set (map fst xs). viol' i = None \<or> the (viol' i) \<in> integrity_codes"
    "no_integrity_faults env \<longrightarrow> (\<forall>i\<in>set (map fst xs). viol' i = env_violation env i)"
    by auto
  have vi: "viol' i = oc" using v(3) \<open>i \<notin> set (map fst xs)\<close> by simp
  then have "reported (\<lambda>_. oc) i ev = reported viol' i ev" by (simp add: reported_def)
  with v vi oc res \<open>i \<notin> set (map fst xs)\<close> show ?case
    by (intro exI [of _ viol']) (auto simp: x)
qed

section \<open>The whole batch\<close>

definition claim_event :: "string \<times> string \<times> int \<times> int64 \<Rightarrow> processing_event" where
  "claim_event = (\<lambda>(i, request_id, failures, generation).
     zero_processing_event\<lparr>pe_RequestID := request_id, pe_ProcessingFailures := failures,
       pe_RetryGeneration := generation\<rparr>)"

lemma read_claims_Cons:
  "read_claims env k (row # rows) is evs =
     (case rows_break env k of
        Some e \<Rightarrow> (Some (Wrap ''read claimed events'' (Driver e)), is, evs)
      | None \<Rightarrow>
          (case env_scan_fault env k of
             Some e \<Rightarrow> (Some (Wrap ''read claimed event'' (Driver e)), is, evs)
           | None \<Rightarrow> read_claims env (Suc k) rows (is @ [fst row]) (evs @ [claim_event row])))"
proof -
  obtain i q f g where "row = (i, q, f, g)" by (metis prod_cases4)
  then show ?thesis by (simp add: claim_event_def split: option.splits)
qed

lemma healthy_rows_break [simp]: "healthy env \<Longrightarrow> rows_break env k = None"
  by (simp add: rows_break_def)

declare read_claims.simps(2) [simp del]

lemma read_claims_None:
  "read_claims env k rows is evs = (None, is', evs') \<Longrightarrow>
   is' = is @ map fst rows \<and> evs' = evs @ map claim_event rows"
proof (induction rows arbitrary: k "is" evs)
  case Nil
  then show ?case by (auto split: option.splits if_splits prod.splits)
next
  case (Cons row rows)
  then have "read_claims env (Suc k) rows (is @ [fst row]) (evs @ [claim_event row]) = (None, is', evs')"
    by (auto simp: read_claims_Cons split: option.splits if_splits)
  from Cons.IH [OF this] show ?case by simp
qed

text \<open>After an error only a prefix of the claimed rows has been read.\<close>

lemma read_claims_prefix:
  "read_claims env k rows is evs = (r, is', evs') \<Longrightarrow>
   \<exists>n. is' = is @ map fst (take n rows) \<and> evs' = evs @ map claim_event (take n rows)"
proof (induction rows arbitrary: k "is" evs)
  case Nil
  then show ?case by (auto split: option.splits if_splits prod.splits)
next
  case (Cons row rows)
  show ?case
  proof (cases "rows_break env k \<noteq> None \<or> env_scan_fault env k \<noteq> None")
    case True
    with Cons.prems have "is' = is" "evs' = evs" by (auto simp: read_claims_Cons split: if_splits option.splits)
    then show ?thesis by (intro exI [of _ 0]) simp
  next
    case False
    with Cons.prems have "read_claims env (Suc k) rows (is @ [fst row]) (evs @ [claim_event row]) = (r, is', evs')"
      by (auto simp: read_claims_Cons)
    from Cons.IH [OF this] obtain n where
      "is' = (is @ [fst row]) @ map fst (take n rows)" "evs' = (evs @ [claim_event row]) @ map claim_event (take n rows)"
      by blast
    then show ?thesis by (intro exI [of _ "Suc n"]) simp
  qed
qed

lemma read_claims_healthy:
  "healthy env \<Longrightarrow> read_claims env k rows is evs = (None, is @ map fst rows, evs @ map claim_event rows)"
  by (induction rows arbitrary: k "is" evs) (auto simp: read_claims_Cons)

text \<open>The metadata as claimed.\<close>

definition claimed_events :: "pg_env \<Rightarrow> int \<Rightarrow> db \<Rightarrow> processing_event list" where
  "claimed_events env limit d = map (claim_event \<circ> claim_of d) (claimed_rows env limit d)"

lemma claims_fst [simp]: "map (fst \<circ> claim_of d) (claimed_rows env limit d) = claimed_ids env limit d"
  by (simp add: claimed_ids_def claim_of_def o_def)

lemma claims_events [simp]:
  "map (claim_event \<circ> claim_of d) (claimed_rows env limit d) = claimed_events env limit d"
  by (simp add: claimed_events_def)

lemma length_claimed_events: "length (claimed_events env limit d) = length (claimed_ids env limit d)"
  unfolding claimed_events_def claimed_ids_def by (simp del: claims_events)

text \<open>
  A batch that returns no error: every claimed event was posted or its failure counted; the
  count and the metadata say which.
\<close>

definition batch_done :: "pg_env \<Rightarrow> int \<Rightarrow> db \<Rightarrow> (string \<Rightarrow> string option) \<Rightarrow> int \<Rightarrow> processing_event list \<Rightarrow> db \<Rightarrow> bool" where
  "batch_done env limit d viol n evs d' \<longleftrightarrow>
     batch_inv viol d (set (claimed_ids env limit d)) d' \<and>
     n = int (length (filter (\<lambda>i. viol i = None) (claimed_ids env limit d))) \<and>
     evs = map2 (reported viol) (claimed_ids env limit d) (claimed_events env limit d) \<and>
     (\<forall>i\<in>set (claimed_ids env limit d). viol i = None \<or> the (viol i) \<in> integrity_codes) \<and>
     (no_integrity_faults env \<longrightarrow> (\<forall>i\<in>set (claimed_ids env limit d). viol i = env_violation env i))"

lemma length_filter_zip:
  "length xs = length ys \<Longrightarrow> length (filter (\<lambda>(x, y). P x) (zip xs ys)) = length (filter P xs)"
  by (induction xs ys rule: list_induct2) auto

lemma batch_tx_None:
  assumes run: "batch_tx env limit (begin_tx d) = (None, (n, evs), tx)" and inv: "store_inv d"
  shows "\<not> tx_aborted tx \<and> (\<exists>viol. batch_done env limit d viol n evs (tx_db tx))"
proof -
  let ?is = "claimed_ids env limit d" and ?evs = "claimed_events env limit d" and ?v = "env_violation env"
  obtain rows tx1 where t1: "tx_exec env (sql_claim (env_locked env) (env_collate env) limit) (begin_tx d) = (Inr rows, tx1)"
    using run by (auto simp: batch_tx_def split: prod.splits sum.splits)
  from tx_exec_Inr [OF t1] have rows: "rows = map (claim_of d) (claimed_rows env limit d)"
    and s1: "tx_db tx1 = d" "\<not> tx_aborted tx1" by (auto simp: sql_claim_eq [OF inv])
  obtain "is" evs0 where rc: "read_claims env 0 rows [] [] = (None, is, evs0)"
    using run t1 by (auto simp: batch_tx_def split: prod.splits option.splits)
  from read_claims_None [OF rc] have ids: "is = ?is" "evs0 = ?evs" by (simp_all add: rows)
  note dist = distinct_claimed_ids [OF inv, of env limit] and sub = claimed_ids_pending [of env limit d]
  show ?thesis
  proof (cases "?is = []")
    case True
    with run t1 rc ids length_claimed_events [of env limit d] have "n = 0" "evs = []" "tx = tx1"
      by (auto simp: batch_tx_def)
    with True s1 batch_inv_start [OF inv, of "\<lambda>_. None"] show ?thesis
      by (intro conjI exI [of _ "\<lambda>_. None"]) (simp_all add: batch_done_def)
  next
    case False
    with run t1 rc ids obtain u2 tx2 where t2: "tx_savepoint env ''ledger_batch'' tx1 = (Inr u2, tx2)"
      by (auto simp: batch_tx_def split: prod.splits sum.splits)
    note s2 = tx_savepoint_Inr [OF t2]
    obtain a tx3 where t3: "tx_exec env (sql_post_ledger ?v ?is) tx2 = (a, tx3)" by fastforce
    have post: "sql_post_ledger ?v ?is now d = (case find (\<lambda>i. ?v i \<noteq> None) ?is of
        Some i \<Rightarrow> Inl (the (?v i))
      | None \<Rightarrow> Inr (length ?is, d\<lparr>ledger_entries := ledger_entries d @ ledger_rows now ?is\<rparr>))" for now
      using dist sub store_invD(4,5) [OF inv] by (intro sql_post_ledger_eq) auto
    show ?thesis
    proof (cases a)
      case (Inl e)
      with run t1 rc ids t2 t3 False have code: "integrityCode e \<noteq> ''''"
        by (auto simp: batch_tx_def split: if_splits)
      with run t1 rc ids t2 t3 False Inl obtain u4 tx4 where
        t4: "tx_rollback_to env ''ledger_batch'' tx3 = (Inr u4, tx4)"
        by (auto simp: batch_tx_def split: prod.splits sum.splits)
      have s4: "\<not> tx_aborted tx4" "tx_db tx4 = d"
        using tx_rollback_to_Inr [OF t4] tx_exec_Inl [OF t3 [unfolded Inl]] s1 s2 by auto
      from run t1 rc ids t2 t3 False Inl code t4
      have ind: "processIndividually env (zip ?is ?evs) tx4 = (None, n, evs, tx)"
        by (auto simp: batch_tx_def split: prod.splits)
      have fst_zip: "map fst (zip ?is ?evs) = ?is"
        by (simp add: length_claimed_events)
      from processIndividually_None [OF ind s4(1), of "\<lambda>_. None" d "{}"] s4 inv fst_zip dist sub
      obtain viol where "\<not> tx_aborted tx" "batch_inv viol d (set ?is) (tx_db tx)"
        "n = int (length (filter (\<lambda>(i, ev). viol i = None) (zip ?is ?evs)))"
        "evs = map2 (reported viol) ?is ?evs"
        "\<forall>i\<in>set ?is. viol i = None \<or> the (viol i) \<in> integrity_codes"
        "no_integrity_faults env \<longrightarrow> (\<forall>i\<in>set ?is. viol i = ?v i)"
        by (auto simp: batch_inv_start simp del: map_fst_zip)
      then show ?thesis
        using length_filter_zip [of ?is ?evs "\<lambda>i. viol i = None"]
        by (auto simp: batch_done_def length_claimed_events intro!: exI [of _ viol])
    next
      case (Inr m)
      note s3 = tx_exec_Inr [OF t3 [unfolded Inr]]
      define now where "now = env_clock env (tx_calls tx2)"
      have ok: "\<forall>i\<in>set ?is. ?v i = None"
        and d3: "tx_db tx3 = d\<lparr>ledger_entries := ledger_entries d @ ledger_rows now ?is\<rparr>"
        using s3 s2 s1 post [of now] by (auto simp: now_def find_None_iff split: option.splits)
      from run t1 rc ids t2 t3 False Inr obtain k where
        t4: "tx_exec env (sql_delete_pending ?is) tx3 = (Inr k, tx)"
        and res: "n = int k" "evs = map (\<lambda>ev. ev\<lparr>pe_Outcome := ''processed''\<rparr>) ?evs"
        by (auto simp: batch_tx_def split: prod.splits sum.splits)
      note s4 = tx_exec_Inr [OF t4]
      have "k = length ?is" using s4 d3 length_filter_key_distinct [OF store_invD(2) [OF inv] sub dist]
        by (simp add: sql_delete_pending_def)
      moreover have "tx_db tx = d\<lparr>ledger_entries := ledger_entries d @ ledger_rows now ?is,
          pending_events := filter (\<lambda>p. p_event_id p \<notin> set ?is) (pending_events d)\<rparr>"
        using s4 d3 by (simp add: sql_delete_pending_def)
      moreover have "map (\<lambda>ev. ev\<lparr>pe_Outcome := ''processed''\<rparr>) ?evs = map2 (reported ?v) ?is ?evs"
        using ok length_claimed_events [of env limit d]
        by (intro nth_equalityI) (auto simp: reported_def)
      ultimately show ?thesis
        using s4 res ok batch_inv_post [OF batch_inv_start [OF inv, of ?v] sub dist, of now]
        by (intro conjI exI [of _ ?v]) (auto simp: batch_done_def)
    qed
  qed
qed

section \<open>Failed batches report request identifiers only\<close>

lemma process_one_request: "process_one env i ev tx = (r, n, ev', tx') \<Longrightarrow> pe_RequestID ev' = pe_RequestID ev"
  by (auto simp: process_one_def Let_def split: prod.splits sum.splits option.splits if_splits)

lemma processIndividually_requests:
  "processIndividually env xs tx = (r, n, evs, tx') \<Longrightarrow> map pe_RequestID evs = map (pe_RequestID \<circ> snd) xs"
proof (induction xs arbitrary: r n evs tx tx')
  case (Cons x xs)
  obtain i ev where x: "x = (i, ev)" by fastforce
  obtain r1 k ev' tx1 where one: "process_one env i ev tx = (r1, k, ev', tx1)" by (metis prod_cases4)
  show ?case
  proof (cases r1)
    case None
    obtain r2 m evs' tx2 where rest: "processIndividually env xs tx1 = (r2, m, evs', tx2)"
      by (metis prod_cases4)
    with Cons.prems one None x have "evs = ev' # evs'" by (auto split: option.splits)
    with Cons.IH [OF rest] process_one_request [OF one] x show ?thesis by simp
  next
    case (Some e)
    with Cons.prems one x process_one_request [OF one] show ?thesis by auto
  qed
qed simp

lemma batch_tx_requests:
  assumes run: "batch_tx env limit (begin_tx d) = (r, (n, evs), tx)" and inv: "store_inv d"
  shows "\<exists>k. map pe_RequestID evs = map pe_RequestID (take k (claimed_events env limit d))"
proof -
  obtain a tx1 where t1: "tx_exec env (sql_claim (env_locked env) (env_collate env) limit) (begin_tx d) = (a, tx1)"
    by fastforce
  show ?thesis
  proof (cases a)
    case (Inl e)
    with run t1 show ?thesis by (auto simp: batch_tx_def intro!: exI [of _ 0])
  next
    case (Inr rows)
    from tx_exec_Inr [OF t1 [unfolded Inr]] have rows: "rows = map (claim_of d) (claimed_rows env limit d)"
      by (auto simp: sql_claim_eq [OF inv])
    obtain r0 "is" evs0 where rc: "read_claims env 0 rows [] [] = (r0, is, evs0)" by (metis prod_cases3)
    from read_claims_prefix [OF rc] obtain k where
      k: "is = map fst (take k rows)" "evs0 = take k (claimed_events env limit d)"
      by (auto simp: rows take_map [symmetric])
    then have "map (pe_RequestID \<circ> snd) (zip is evs0) = map pe_RequestID evs0"
      by (simp add: rows take_map claimed_events_def del: claims_events flip: map_map)
    then have ind: "map pe_RequestID evs' = map pe_RequestID evs0"
      if "processIndividually env (zip is evs0) tx' = (r', n', evs', tx'')" for tx' r' n' evs' tx''
      using processIndividually_requests [OF that] by simp
    have "map pe_RequestID evs = map pe_RequestID evs0"
      using run t1 Inr rc ind
      by (auto simp: batch_tx_def o_def split: option.splits prod.splits sum.splits if_splits)
    with k show ?thesis by auto
  qed
qed

section \<open>ProcessBatchWithResults\<close>

text \<open>The metadata left of an event after an error.\<close>

definition unconfirmed_event :: "processing_event \<Rightarrow> processing_event" where
  "unconfirmed_event ev = zero_processing_event\<lparr>pe_RequestID := pe_RequestID ev\<rparr>"

lemma map_unconfirmed_cong:
  assumes "map pe_RequestID xs = map pe_RequestID ys"
  shows "map unconfirmed_event xs = map unconfirmed_event ys"
proof -
  have "map unconfirmed_event zs = map (\<lambda>r. zero_processing_event\<lparr>pe_RequestID := r\<rparr>) (map pe_RequestID zs)" for zs
    by (simp add: unconfirmed_event_def)
  with assms show ?thesis by metis
qed

lemma ProcessBatch_cases:
  assumes run: "ProcessBatchWithResults env limit d = (err, res, d')" and inv: "store_inv d"
  obtains (invalid) "limit < 1 \<or> limit > 1000" "err = Some (New ''batch limit must be between 1 and 1000'')"
      "res = zero_batch_result" "d' = d"
  | (committed) viol where "1 \<le> limit" "limit \<le> 1000" "err = None"
      "batch_done env limit d viol (br_Processed res) (br_Events res) d'"
  | (failed) e k where "1 \<le> limit" "limit \<le> 1000" "err = Some e" "d' = d" "br_Processed res = 0"
      "br_Events res = map unconfirmed_event (take k (claimed_events env limit d))"
  | (unconfirmed) e k viol n evs where "1 \<le> limit" "limit \<le> 1000" "err = Some e"
      "batch_done env limit d viol n evs d'" "br_Processed res = 0"
      "br_Events res = map unconfirmed_event (take k (claimed_events env limit d))"
proof (cases "limit < 1 \<or> limit > 1000")
  case True
  with run invalid show thesis by (auto simp: ProcessBatchWithResults_def)
next
  case False
  then have lim: "1 \<le> limit" "limit \<le> 1000" by auto
  obtain terr n evs d1 where t: "transaction env (0, []) (batch_tx env limit) d = (terr, (n, evs), d1)"
    by (metis prod_cases3 surj_pair)
  have d1: "d' = d1" using run t False
    by (auto simp: ProcessBatchWithResults_def split: option.splits)
  have res: "err = map_option (Wrap ''process usage batch'') terr"
    "br_Processed res = (if terr = None then n else 0)"
    "br_Events res = (if terr = None then evs else map unconfirmed_event evs)"
    using run t False
    by (auto simp: ProcessBatchWithResults_def unconfirmed_event_def split: option.splits)
  have requests: "\<exists>k. map unconfirmed_event evs = map unconfirmed_event (take k (claimed_events env limit d))"
    if "batch_tx env limit (begin_tx d) = (r, (n, evs), tx)" for r tx
    using batch_tx_requests [OF that inv] map_unconfirmed_cong by blast
  show thesis
    using t
  proof (cases rule: transaction_result)
    case (committed tx)
    with batch_tx_None [OF committed(2) inv] res d1 lim that(2) show thesis by auto
  next
    case (refused e e0 tx)
    with requests [OF refused(2)] res d1 lim that(3) show thesis by auto
  next
    case (unconfirmed e tx)
    from batch_tx_None [OF unconfirmed(3) inv] obtain viol where
      "batch_done env limit d viol n evs d'" using unconfirmed d1 by auto
    with requests [OF unconfirmed(3)] unconfirmed res lim that(4) show thesis by auto
  next
    case (failed e)
    show thesis
    proof (cases "evs = []")
      case True
      with failed res d1 lim that(3) [of _ 0] show thesis by auto
    next
      case False
      with t obtain r tx where "batch_tx env limit (begin_tx d) = (r, (n, evs), tx)"
        by (auto simp: transaction_def split: option.splits prod.splits)
      from requests [OF this] failed res d1 lim that(3) show thesis by auto
    qed
  qed
qed

lemma batch_done_cong:
  assumes "batch_done env limit d viol n evs d'"
    and "\<And>i. i \<in> set (claimed_ids env limit d) \<Longrightarrow> viol i = viol' i"
  shows "batch_done env limit d viol' n evs d'"
proof -
  let ?is = "claimed_ids env limit d"
  have "map2 (reported viol) ?is es = map2 (reported viol') ?is es" for es
    using assms(2) by (intro map_cong) (auto simp: reported_def dest: set_zip_leftD)
  moreover have "filter (\<lambda>i. viol i = None) ?is = filter (\<lambda>i. viol' i = None) ?is"
    using assms(2) by (intro filter_cong) auto
  ultimately show ?thesis
    using assms batch_inv_cong [of "set ?is" viol viol' d d'] by (auto simp: batch_done_def)
qed

lemma batch_done_inv: "batch_done env limit d viol n evs d' \<Longrightarrow> store_inv d'"
  by (simp add: batch_done_def batch_inv_def)

lemma ProcessBatch_inv: "store_inv d \<Longrightarrow> store_inv (snd (snd (ProcessBatchWithResults env limit d)))"
proof -
  assume inv: "store_inv d"
  obtain err res d' where run: "ProcessBatchWithResults env limit d = (err, res, d')" by (metis prod_cases3)
  from run inv show ?thesis
    by (cases rule: ProcessBatch_cases) (use run inv in \<open>auto dest: batch_done_inv\<close>)
qed

section \<open>A healthy environment\<close>

text \<open>The violations an operator's constraint can raise that the code treats as per-event failures.\<close>

definition integrity_violations :: "pg_env \<Rightarrow> bool" where
  "integrity_violations env \<longleftrightarrow> (\<forall>i code. env_violation env i = Some code \<longrightarrow> code \<in> integrity_codes)"

lemma record_failure_ok:
  assumes "store_inv d" and "i \<in> set (pending_ids d)" and "code \<in> integrity_codes"
    and "\<And>p. pending_of d i = Some p \<Longrightarrow> p_processing_failures p < 3"
  shows "\<exists>d'. sql_record_failure i code now d = Inr (1, d')"
proof -
  have "pending_check (p\<lparr>p_processing_failures := p_processing_failures p + 1, p_failure_code := code\<rparr>)"
    if "p \<in> set (pending_events d)" "p_event_id p = i" for p
  proof -
    have "pending_of d i = Some p"
      unfolding pending_of_def using find_key_distinct [OF store_invD(2) [OF assms(1)] that(1)] that(2) by simp
    with assms(1,4) store_inv_pending_check have "pending_check p" "p_processing_failures p < 3" by blast+
    with assms(3) integrity_codes_failure [OF assms(3)] show ?thesis by (auto simp: pending_check_def)
  qed
  moreover have "length (filter (\<lambda>p. p_event_id p = i) (pending_events d)) = 1"
    using length_filter_key_distinct [OF store_invD(2) [OF assms(1)], of "[i]"] assms(2) by simp
  ultimately show ?thesis by (auto simp: sql_record_failure_def sql_update_pending_def)
qed

lemma process_one_healthy:
  assumes env: "healthy env" "integrity_violations env" and na: "\<not> tx_aborted tx"
    and inv: "batch_inv viol d0 S (tx_db tx)" and i: "i \<in> set (pending_ids d0)" "i \<notin> S"
    and lt: "\<And>p. pending_of d0 i = Some p \<Longrightarrow> p_processing_failures p < 3"
  shows "\<exists>n ev' tx'. process_one env i ev tx = (None, n, ev', tx')"
proof -
  let ?d = "tx_db tx" and ?v = "env_violation env"
  note q = batch_inv_queued [OF inv i]
  let ?tx1 = "tx\<lparr>tx_calls := Suc (tx_calls tx), tx_saves := (''ledger_event'', ?d) # tx_saves tx\<rparr>"
  have t1: "tx_savepoint env ''ledger_event'' tx = (Inr (), ?tx1)"
    using env na by (simp add: tx_savepoint_healthy)
  have post: "sql_post_ledger ?v [i] now ?d = (case ?v i of
      Some c \<Rightarrow> Inl c | None \<Rightarrow> Inr (1, ?d\<lparr>ledger_entries := ledger_entries ?d @ ledger_rows now [i]\<rparr>))" for now
    using sql_post_ledger_eq [of "[i]" ?d ?v now] q by (auto split: option.splits)
  show ?thesis
  proof (cases "?v i")
    case None
    with t1 post env na show ?thesis
      by (simp add: process_one_def tx_exec_healthy sql_delete_pending_def tx_release_healthy
          del: sql_post_ledger.simps)
  next
    case (Some code)
    then have code: "code \<in> integrity_codes" using env by (simp add: integrity_violations_def)
    have "pending_of ?d i = pending_of d0 i" using inv i(2) by (simp add: batch_inv_def)
    then have lt': "\<And>p. pending_of ?d i = Some p \<Longrightarrow> p_processing_failures p < 3" using lt by simp
    have "\<exists>d'. sql_record_failure i code now ?d = Inr (1, d')" for now
      using q(1,2) code lt' by (rule record_failure_ok)
    then obtain d' where "sql_record_failure i code (env_clock env (tx_calls tx + 3)) ?d = Inr (1, d')"
      by blast
    with Some t1 post env na code show ?thesis
      by (simp add: process_one_def tx_exec_healthy tx_rollback_to_healthy tx_release_healthy
          integrityCode_pg eval_nat_numeral del: sql_post_ledger.simps)
  qed
qed

lemma processIndividually_healthy:
  assumes "healthy env" and "integrity_violations env" and "\<not> tx_aborted tx"
    and "batch_inv viol d0 S (tx_db tx)"
    and "distinct (map fst xs)" and "set (map fst xs) \<subseteq> set (pending_ids d0)"
    and "set (map fst xs) \<inter> S = {}"
    and "\<And>i p. i \<in> set (map fst xs) \<Longrightarrow> pending_of d0 i = Some p \<Longrightarrow> p_processing_failures p < 3"
  shows "\<exists>n evs tx'. processIndividually env xs tx = (None, n, evs, tx')"
  using assms
proof (induction xs arbitrary: tx viol S)
  case (Cons x xs)
  obtain i ev where x: "x = (i, ev)" by fastforce
  have i: "i \<in> set (pending_ids d0)" "i \<notin> S" using Cons.prems by (auto simp: x)
  have lt: "\<And>p. pending_of d0 i = Some p \<Longrightarrow> p_processing_failures p < 3"
    using Cons.prems(8) [of i] by (simp add: x)
  obtain k ev' tx1 where one: "process_one env i ev tx = (None, k, ev', tx1)"
    using process_one_healthy [OF Cons.prems(1-4) i lt] by blast
  from one Cons.prems(4) i obtain oc where
    oc: "\<not> tx_aborted tx1" "batch_inv (viol(i := oc)) d0 (insert i S) (tx_db tx1)"
    by (rule process_one_None) blast
  have "set (map fst xs) \<inter> insert i S = {}" using Cons.prems by (auto simp: x)
  then have "\<exists>n evs tx'. processIndividually env xs tx1 = (None, n, evs, tx')"
    using Cons.prems by (intro Cons.IH [OF Cons.prems(1,2) oc]) (auto simp: x)
  then obtain m evs' tx' where "processIndividually env xs tx1 = (None, m, evs', tx')" by blast
  with one show ?case by (simp add: x)
qed simp


lemma batch_tx_healthy:
  assumes env: "healthy env" "integrity_violations env" and inv: "store_inv d"
  shows "\<exists>n evs tx. batch_tx env limit (begin_tx d) = (None, (n, evs), tx)"
proof -
  let ?is = "claimed_ids env limit d" and ?v = "env_violation env"
  have t1: "tx_exec env (sql_claim (env_locked env) (env_collate env) limit) (begin_tx d) =
      (Inr (map (claim_of d) (claimed_rows env limit d)), (begin_tx d)\<lparr>tx_calls := 2\<rparr>)"
    using env by (simp add: tx_exec_healthy sql_claim_eq [OF inv] begin_tx_def)
  have rc: "read_claims env 0 (map (claim_of d) (claimed_rows env limit d)) [] [] =
      (None, ?is, claimed_events env limit d)"
    using env by (simp add: read_claims_healthy)
  let ?tx2 = "\<lparr>tx_db = d, tx_saves = [(''ledger_batch'', d)], tx_aborted = False, tx_calls = 3\<rparr>"
  have t2: "tx_savepoint env ''ledger_batch'' ((begin_tx d)\<lparr>tx_calls := 2\<rparr>) = (Inr (), ?tx2)"
    using env by (simp add: tx_savepoint_healthy begin_tx_def)
  note dist = distinct_claimed_ids [OF inv, of env limit] and sub = claimed_ids_pending [of env limit d]
  have post: "sql_post_ledger ?v ?is now d = (case find (\<lambda>i. ?v i \<noteq> None) ?is of
      Some i \<Rightarrow> Inl (the (?v i))
    | None \<Rightarrow> Inr (length ?is, d\<lparr>ledger_entries := ledger_entries d @ ledger_rows now ?is\<rparr>))" for now
    using dist sub store_invD(4,5) [OF inv] by (intro sql_post_ledger_eq) auto
  show ?thesis
  proof (cases "?is = [] \<or> find (\<lambda>i. ?v i \<noteq> None) ?is = None")
    case True
    then show ?thesis using env t1 rc t2 post
      by (auto simp: batch_tx_def tx_exec_healthy sql_delete_pending_def)
  next
    case False
    then obtain i where i: "find (\<lambda>i. ?v i \<noteq> None) ?is = Some i" by blast
    then obtain code where code: "?v i = Some code" by (auto simp: find_Some_iff)
    with env have ic: "code \<in> integrity_codes" by (simp add: integrity_violations_def)
    let ?tx4 = "?tx2\<lparr>tx_calls := 5\<rparr>"
    have t3: "tx_exec env (sql_post_ledger ?v ?is) ?tx2 =
        (Inl (Driver (PgErr code)), ?tx2\<lparr>tx_calls := 4, tx_aborted := True\<rparr>)"
      using env post i code by (simp add: tx_exec_healthy)
    have t4: "tx_rollback_to env ''ledger_batch'' (?tx2\<lparr>tx_calls := 4, tx_aborted := True\<rparr>) = (Inr (), ?tx4)"
      using env by (simp add: tx_rollback_to_healthy)
    have fz: "map fst (zip ?is (claimed_events env limit d)) = ?is" by (simp add: length_claimed_events)
    have lt: "p_processing_failures p < 3" if "j \<in> set ?is" "pending_of d j = Some p" for j p
    proof -
      from that(1) obtain q where q: "q \<in> set (claimed_rows env limit d)" "j = p_event_id q"
        by (auto simp: claimed_ids_def)
      with that(2) claimed_row_of [OF inv q(1)] claimed_rows_props(2) [OF q(1)] show ?thesis by simp
    qed
    have "\<exists>n evs tx'. processIndividually env (zip ?is (claimed_events env limit d)) ?tx4 = (None, n, evs, tx')"
    proof (rule processIndividually_healthy [OF env, where viol = "\<lambda>_. None" and ?d0.0 = d and S = "{}"])
      show "distinct (map fst (zip ?is (claimed_events env limit d)))" unfolding fz by (rule dist)
      show "set (map fst (zip ?is (claimed_events env limit d))) \<subseteq> set (pending_ids d)" unfolding fz by (rule sub)
    qed (use inv lt in \<open>simp_all only: fz batch_inv_start, simp_all add: batch_inv_start\<close>)
    with False t1 rc t2 t3 t4 ic show ?thesis by (auto simp: batch_tx_def integrityCode_pg)
  qed
qed

text \<open>
  With a database that answers and an added constraint that only reports integrity violations, a
  batch never fails: it settles exactly what it claimed.
\<close>

lemma ProcessBatch_healthy:
  assumes env: "healthy env" "integrity_violations env" and lim: "1 \<le> limit" "limit \<le> 1000"
    and inv: "store_inv d"
  obtains res d' where "ProcessBatchWithResults env limit d = (None, res, d')"
    "batch_done env limit d (env_violation env) (br_Processed res) (br_Events res) d'"
proof -
  obtain n evs tx where b: "batch_tx env limit (begin_tx d) = (None, (n, evs), tx)"
    using batch_tx_healthy [OF env inv] by blast
  from batch_tx_None [OF b inv] obtain viol where na: "\<not> tx_aborted tx"
    and bd: "batch_done env limit d viol n evs (tx_db tx)" by blast
  have "no_integrity_faults env" using env(1) by (simp add: no_integrity_faults_def)
  then have same: "viol i = env_violation env i" if "i \<in> set (claimed_ids env limit d)" for i
    using bd that by (simp add: batch_done_def)
  have "batch_done env limit d (env_violation env) n evs (tx_db tx)"
    using bd same by (rule batch_done_cong)
  moreover have "ProcessBatchWithResults env limit d =
      (None, \<lparr>br_Processed = n, br_Events = evs\<rparr>, tx_db tx)"
    using transaction_healthy [OF env(1), where fn = "batch_tx env limit" and d = d] b na lim
    by (simp add: ProcessBatchWithResults_def)
  ultimately show thesis using that by simp
qed

end
