(* ===== verification/Store_Retry.thy ===== *)
theory Store_Retry
  imports Store_Inv
begin

text \<open>
  What \<open>Store.Retry\<close> does: the outcomes of \<open>store_Retry_cases\<close> for every environment, the
  equation \<open>store_Retry_healthy\<close> in a healthy one. The generation is the version the client
  compares: a quarantined event of that generation is reactivated, one already reactivated from
  it is left alone, everything else still queued is a conflict.
\<close>

definition reactivate_row :: "int \<Rightarrow> pending_row \<Rightarrow> pending_row" where
  "reactivate_row now p = p\<lparr>p_processing_failures := 0, p_failure_code := '''',
     p_retry_generation := p_retry_generation p + 1, p_enqueued_at := now\<rparr>"

definition reactivated :: "string \<Rightarrow> int \<Rightarrow> db \<Rightarrow> db" where
  "reactivated i now d =
     d\<lparr>pending_events := map (\<lambda>p. if p_event_id p = i then reactivate_row now p else p) (pending_events d)\<rparr>"

definition retry_args_ok :: "string \<Rightarrow> int64 \<Rightarrow> bool" where
  "retry_args_ok i generation \<longleftrightarrow> valid_id i \<and> 0 \<le> sint generation \<and> generation \<noteq> max_int64"

text \<open>The queue row is quarantined in this generation; the retry of it has been done already.\<close>

definition retryable :: "pending_row \<Rightarrow> int64 \<Rightarrow> bool" where
  "retryable p generation \<longleftrightarrow> p_processing_failures p = 3 \<and> p_retry_generation p = generation"

definition already_retried :: "pending_row \<Rightarrow> int64 \<Rightarrow> bool" where
  "already_retried p generation \<longleftrightarrow> p_processing_failures p < 3 \<and> p_retry_generation p = generation + 1"

lemma retry_args_ok_iff:
  "retry_args_ok i g \<longleftrightarrow> \<not> (ValidateID i \<noteq> None \<or> sint g < 0 \<or> g = max_int64)"
  by (auto simp: retry_args_ok_def ValidateID_iff)

lemma reactivate_row_id [simp]: "p_event_id (reactivate_row now p) = p_event_id p"
  by (simp add: reactivate_row_def)

text \<open>The generation grows: below the maximum the addition does not wrap.\<close>

lemma generation_Suc:
  assumes "0 \<le> sint g" and "g \<noteq> max_int64"
  shows "sint (g + 1) = sint g + 1"
proof -
  have "sint g \<noteq> 9223372036854775807" using assms(2) sint_eq_iff [of g max_int64] by simp
  with sint_upper [of g] assms(1) show ?thesis using sint_plus [of g 1] by simp
qed

section \<open>The row's statements\<close>

lemma sql_lock_retry_eq:
  "sql_lock_retry i now d =
     Inr (map_option (\<lambda>p. (p_processing_failures p, p_retry_generation p)) (pending_of d i), d)"
  by (simp add: sql_lock_retry_def pending_of_def)

lemma pending_row_unique:
  assumes "store_inv d" and "p \<in> set (pending_events d)" and "p_event_id p = i"
  shows "pending_of d i = Some p"
  unfolding pending_of_def using find_key_distinct [OF store_invD(2) [OF assms(1)] assms(2)] assms(3) by simp

lemma reactivate_row_check:
  "pending_check p \<Longrightarrow> p_retry_generation p \<noteq> max_int64 \<Longrightarrow> pending_check (reactivate_row now p)"
  using generation_Suc [of "p_retry_generation p"]
  by (auto simp: pending_check_def reactivate_row_def failure_codes_def)

lemma sql_reactivate_eq:
  assumes "store_inv d" and "pending_of d i = Some p" and "p_retry_generation p \<noteq> max_int64"
  shows "sql_reactivate i now d = Inr (1, reactivated i now d)"
proof -
  have row: "q = p" if "q \<in> set (pending_events d)" "p_event_id q = i" for q
    using pending_row_unique [OF assms(1) that] assms(2) by simp
  have "pending_check (reactivate_row now p)"
    using store_inv_pending_check [OF assms(1,2)] assms(3) by (rule reactivate_row_check)
  then have "\<forall>q\<in>set (pending_events d). p_event_id q = i \<longrightarrow> pending_check (reactivate_row now q)"
    and "\<forall>q\<in>set (pending_events d). p_event_id q = i \<longrightarrow> p_retry_generation q \<noteq> max_int64"
    using row assms(3) by auto
  moreover have "length (filter (\<lambda>q. p_event_id q = i) (pending_events d)) = 1"
    using length_filter_key_distinct [OF store_invD(2) [OF assms(1)], of "[i]"] pending_of_key [OF assms(2)]
    by auto
  ultimately show ?thesis
    by (auto simp: sql_reactivate_def sql_update_pending_def reactivated_def reactivate_row_def)
qed

lemma stored_reactivated:
  assumes "store_inv d" and "pending_of d i = Some p"
  shows "stored (reactivated i now d) = (\<lambda>j. if j = i then map_option reactivate_event (stored d i) else stored d j)"
proof -
  have np: "i \<notin> set (ledger_ids d)"
    using pending_of_key [OF assms(2)] store_invD(4) [OF assms(1)] by auto
  have "map_option reactivate_event (stored d i) =
      map_option (\<lambda>u. view u (i \<in> set (ledger_ids d)) (map_option (reactivate_row now) (pending_of d i))) (usage_of d i)"
    using assms(2) by (cases "usage_of d i")
      (simp_all add: stored_def reactivate_event_def reactivate_row_def view_def event_of_row_def Let_def)
  then show ?thesis
    unfolding reactivated_def using stored_update [where f = "reactivate_row now" and d = d and i = i]
    by (intro ext) simp
qed

lemma store_inv_reactivated:
  assumes "store_inv d" and "pending_of d i = Some p" and "p_retry_generation p \<noteq> max_int64"
  shows "store_inv (reactivated i now d)"
proof -
  have "\<forall>q\<in>set (pending_events d). p_event_id q = i \<longrightarrow> pending_check (reactivate_row now q)"
    using pending_row_unique [OF assms(1)] assms reactivate_row_check store_inv_pending_check by fastforce
  then show ?thesis unfolding reactivated_def using assms(1) by (intro store_inv_update) simp_all
qed

lemma stored_pending:
  assumes "store_inv d" and "pending_of d i = Some p"
  shows "\<exists>e. stored d i = Some e \<and> ProcessingFailures e = p_processing_failures p \<and>
     RetryGeneration e = p_retry_generation p \<and> \<not> Processed e"
proof -
  have "i \<in> set (pending_ids d)" using pending_of_key [OF assms(2)] by auto
  then have "i \<in> set (usage_ids d)" "i \<notin> set (ledger_ids d)" using store_invD(4,5) [OF assms(1)] by blast+
  moreover from this(1) obtain u where "usage_of d i = Some u" by (metis not_None_eq usage_of_None)
  ultimately show ?thesis using assms(2) by (simp add: stored_def)
qed

section \<open>Every environment\<close>

lemma retry_tx_cases:
  assumes run: "retry_tx env i g (begin_tx d) = (r, (e, retried), tx)" and inv: "store_inv d"
    and g: "g \<noteq> max_int64"
  obtains (reactivated) now p e0 where "r = None" "retried" "\<not> tx_aborted tx" "pending_of d i = Some p"
      "retryable p g" "stored d i = Some e0" "e = reactivate_event e0" "tx_db tx = reactivated i now d"
  | (replayed) "r = None" "\<not> retried" "\<not> tx_aborted tx" "tx_db tx = d" "stored d i = Some e"
      "\<forall>p. pending_of d i = Some p \<longrightarrow> already_retried p g"
  | (conflict) p where "r = Some ErrRetryConflict" "pending_of d i = Some p" "\<not> retryable p g"
      "\<not> already_retried p g"
  | (missing) "r = Some ErrNotFound" "stored d i = None"
  | (failed) err where "r = Some err" "infra err"
proof -
  obtain a tx1 where t1: "tx_exec env (sql_lock_retry i) (begin_tx d) = (a, tx1)" by fastforce
  show thesis
  proof (cases a)
    case (Inl err)
    with t1 run failed tx_exec_Inl_driver [OF t1 [unfolded Inl]] show thesis
      by (auto simp: retry_tx_def scan_row_def)
  next
    case (Inr row)
    from tx_exec_Inr [OF t1 [unfolded Inr]]
    have row: "row = map_option (\<lambda>p. (p_processing_failures p, p_retry_generation p)) (pending_of d i)"
      and db1: "tx_db tx1 = d" by (auto simp: sql_lock_retry_eq)
    have read: thesis if rd: "readEvent_tx env i tx1 = (b, tx2)"
      and r: "b = Inl err \<Longrightarrow> r = Some err" "b = Inr e1 \<Longrightarrow> r = None \<and> \<not> retried \<and> e = e1 \<and> tx = tx2"
      and ok: "\<forall>p. pending_of d i = Some p \<longrightarrow> already_retried p g" and b: "b = Inl err \<or> b = Inr e1"
    for b tx2 err e1
    proof (cases b)
      case (Inr e2)
      with b readEvent_tx_Inr [OF rd [unfolded Inr]] r ok db1 replayed show thesis by auto
    next
      case (Inl err2)
      show thesis
      proof (cases "stored d i")
        case None
        then have "err2 = ErrNotFound \<or> infra err2"
          using readEvent_tx_missing [OF rd [unfolded Inl]] db1 by simp
        with None Inl b r missing failed show thesis by auto
      next
        case (Some e3)
        with readEvent_tx_known [OF rd [unfolded Inl]] db1 Inl b r failed show thesis by auto
      qed
    qed
    obtain b tx2 where rd: "readEvent_tx env i tx1 = (b, tx2)" by fastforce
    show thesis
    proof (cases "pending_of d i")
      case None
      with run t1 Inr row rd show thesis
        by (cases b) (auto simp: retry_tx_def scan_row_def intro: read [OF rd])
    next
      case (Some p)
      consider (go) "retryable p g" | (again) "already_retried p g" "\<not> retryable p g"
        | (stale) "\<not> retryable p g" "\<not> already_retried p g" by blast
      then show thesis
      proof cases
        case stale
        with run t1 Inr row Some conflict show thesis
          by (auto simp: retry_tx_def scan_row_def retryable_def already_retried_def split: if_splits)
      next
        case again
        with run t1 Inr row Some rd show thesis
          by (cases b) (auto simp: retry_tx_def scan_row_def retryable_def already_retried_def
              intro: read [OF rd])
      next
        case go
        then have pg: "p_retry_generation p \<noteq> max_int64" using g by (simp add: retryable_def)
        obtain c tx3 where t3: "tx_exec env (sql_reactivate i) tx1 = (c, tx3)" by fastforce
        show thesis
        proof (cases c)
          case Inl3: (Inl err)
          with run t1 Inr row Some go t3 failed tx_exec_Inl_driver [OF t3 [unfolded Inl3]] show thesis
            by (auto simp: retry_tx_def scan_row_def retryable_def)
        next
          case Inr3: (Inr n)
          define now where "now = env_clock env (tx_calls tx1)"
          from tx_exec_Inr [OF t3 [unfolded Inr3]] sql_reactivate_eq [OF inv Some pg]
          have db3: "tx_db tx3 = reactivated i now d" by (simp add: db1 now_def)
          obtain e0 where e0: "stored d i = Some e0" using stored_pending [OF inv Some] by blast
          then have st3: "stored (tx_db tx3) i = Some (reactivate_event e0)"
            by (simp add: db3 stored_reactivated [OF inv Some])
          obtain f tx4 where t4: "readEvent_tx env i tx3 = (f, tx4)" by fastforce
          show thesis
          proof (cases f)
            case Inl4: (Inl err)
            with run t1 Inr row Some go t3 Inr3 t4 failed readEvent_tx_known [OF t4 [unfolded Inl4] st3]
            show thesis by (auto simp: retry_tx_def scan_row_def retryable_def)
          next
            case Inr4: (Inr e4)
            from readEvent_tx_Inr [OF t4 [unfolded Inr4]] st3
            have "e4 = reactivate_event e0" "tx_db tx4 = reactivated i now d" "\<not> tx_aborted tx4"
              by (simp_all add: db3)
            with run t1 Inr row Some go t3 Inr3 t4 Inr4 e0 reactivated [of p e0 now] show thesis
              by (auto simp: retry_tx_def scan_row_def retryable_def)
          qed
        qed
      qed
    qed
  qed
qed


lemma store_Retry_cases:
  assumes run: "store_Retry env i g d = (r, d')" and inv: "store_inv d"
  obtains (invalid) "\<not> retry_args_ok i g" "r = Inl ErrInvalid" "d' = d"
  | (reactivated) now p e where "retry_args_ok i g" "r = Inr (reactivate_event e, True)"
      "pending_of d i = Some p" "retryable p g" "stored d i = Some e" "d' = reactivated i now d"
  | (replayed) e where "retry_args_ok i g" "r = Inr (e, False)" "d' = d" "stored d i = Some e"
      "\<forall>p. pending_of d i = Some p \<longrightarrow> already_retried p g"
  | (conflict) err p where "retry_args_ok i g" "r = Inl err" "errors_is err ErrRetryConflict" "d' = d"
      "pending_of d i = Some p" "\<not> retryable p g" "\<not> already_retried p g"
      "\<And>t. billing_sentinel t \<Longrightarrow> errors_is err t \<Longrightarrow> t = ErrRetryConflict"
  | (missing) err where "retry_args_ok i g" "r = Inl err" "errors_is err ErrNotFound" "d' = d"
      "stored d i = None" "\<And>t. billing_sentinel t \<Longrightarrow> errors_is err t \<Longrightarrow> t = ErrNotFound"
  | (failed) err where "retry_args_ok i g" "r = Inl err" "infra err" "d' = d"
  | (unconfirmed) err now p e where "retry_args_ok i g" "r = Inl err" "infra err"
      "pending_of d i = Some p" "retryable p g" "stored d i = Some e" "d' = reactivated i now d"
proof (cases "retry_args_ok i g")
  case False
  with run invalid show thesis by (auto simp: store_Retry_def retry_args_ok_iff)
next
  case True
  then have g: "g \<noteq> max_int64" by (simp add: retry_args_ok_def)
  obtain terr e retried d1 where
    t: "transaction env (zero_event, False) (retry_tx env i g) d = (terr, (e, retried), d1)"
    by (metis prod_cases3 surj_pair)
  have d': "d' = d1"
    and r: "r = (case terr of None \<Rightarrow> Inr (e, retried) | Some err \<Rightarrow> Inl (Wrap ''retry failed event'' err))"
    using run t True by (auto simp: store_Retry_def retry_args_ok_iff split: option.splits)
  show thesis
    using t
  proof (cases rule: transaction_result)
    case (committed tx)
    from committed(2) inv g show thesis
      by (cases rule: retry_tx_cases) (use committed d' r True that(2,3) in auto)
  next
    case (refused err e0 tx)
    from refused(4) [of ErrRetryConflict] refused(4) [of ErrNotFound]
    have sents: "errors_is err ErrRetryConflict = errors_is e0 ErrRetryConflict"
      "errors_is err ErrNotFound = errors_is e0 ErrNotFound"
      by (simp_all add: billing_sentinel_def)
    from refused(2) inv g show thesis
    proof (cases rule: retry_tx_cases)
      case (conflict p)
      then have "\<And>t. billing_sentinel t \<Longrightarrow> errors_is (Wrap ''retry failed event'' err) t \<Longrightarrow> t = ErrRetryConflict"
        using refused(4) by auto
      with conflict refused sents d' r True that(4) show thesis by simp
    next
      case missing
      then have "\<And>t. billing_sentinel t \<Longrightarrow> errors_is (Wrap ''retry failed event'' err) t \<Longrightarrow> t = ErrNotFound"
        using refused(4) by auto
      with missing refused sents d' r True that(5) show thesis by simp
    next
      case (failed e1)
      then have "infra (Wrap ''retry failed event'' err)" using refused(4) by (auto simp: infra_def)
      with refused d' r True that(6) show thesis by simp
    qed simp_all
  next
    case (failed err)
    with d' r True that(6) show thesis by simp
  next
    case (unconfirmed err tx)
    from unconfirmed(3) inv g show thesis
      by (cases rule: retry_tx_cases) (use unconfirmed d' r True that(6,7) in auto)
  qed
qed

lemma store_Retry_inv: "store_inv d \<Longrightarrow> store_inv (snd (store_Retry env i g d))"
proof -
  assume inv: "store_inv d"
  obtain r d' where run: "store_Retry env i g d = (r, d')" by fastforce
  have *: "store_inv (reactivated i now d)" if "retry_args_ok i g" "pending_of d i = Some p" "retryable p g" for now p
    using inv that by (intro store_inv_reactivated [of d i p]) (auto simp: retryable_def retry_args_ok_def)
  from run inv show ?thesis
    by (cases rule: store_Retry_cases) (use run inv * in auto)
qed

section \<open>A healthy environment\<close>

lemma retry_tx_healthy:
  assumes env: "healthy env" and inv: "store_inv d" and g: "g \<noteq> max_int64"
  shows "\<exists>calls. retry_tx env i g (begin_tx d) =
    (case pending_of d i of
       None \<Rightarrow> (case stored d i of
                 None \<Rightarrow> (Some ErrNotFound, (zero_event, False), (begin_tx d)\<lparr>tx_calls := calls\<rparr>)
               | Some e \<Rightarrow> (None, (e, False), (begin_tx d)\<lparr>tx_calls := calls\<rparr>))
     | Some p \<Rightarrow>
         (if retryable p g then
            (None, (reactivate_event (the (stored d i)), True),
             (begin_tx d)\<lparr>tx_calls := calls, tx_db := reactivated i (env_clock env 2) d\<rparr>)
          else if already_retried p g then (None, (the (stored d i), False), (begin_tx d)\<lparr>tx_calls := calls\<rparr>)
          else (Some ErrRetryConflict, (zero_event, False), (begin_tx d)\<lparr>tx_calls := calls\<rparr>)))"
proof -
  let ?tx1 = "(begin_tx d)\<lparr>tx_calls := 2\<rparr>"
  have t1: "tx_exec env (sql_lock_retry i) (begin_tx d) =
      (Inr (map_option (\<lambda>p. (p_processing_failures p, p_retry_generation p)) (pending_of d i)), ?tx1)"
    using env by (simp add: tx_exec_healthy sql_lock_retry_eq begin_tx_def)
  show ?thesis
  proof (cases "pending_of d i")
    case None
    with t1 env show ?thesis
      by (cases "stored d i") (auto simp: retry_tx_def scan_row_def readEvent_tx_healthy)
  next
    case (Some p)
    obtain e where e: "stored d i = Some e" using stored_pending [OF inv Some] by blast
    show ?thesis
    proof (cases "retryable p g")
      case True
      then have "p_retry_generation p \<noteq> max_int64" using g by (simp add: retryable_def)
      with env sql_reactivate_eq [OF inv Some]
      have t3: "tx_exec env (sql_reactivate i) ?tx1 =
          (Inr 1, ?tx1\<lparr>tx_calls := 3, tx_db := reactivated i (env_clock env 2) d\<rparr>)"
        by (simp add: tx_exec_healthy)
      from True t1 t3 env Some e show ?thesis
        by (intro exI [of _ 4]) (auto simp: retry_tx_def scan_row_def readEvent_tx_healthy retryable_def
            stored_reactivated [OF inv Some])
    next
      case False
      with t1 env Some e show ?thesis
        by (auto simp: retry_tx_def scan_row_def readEvent_tx_healthy retryable_def already_retried_def)
    qed
  qed
qed

lemma store_Retry_healthy:
  assumes env: "healthy env" and inv: "store_inv d"
  shows "store_Retry env i g d =
    (if \<not> retry_args_ok i g then (Inl ErrInvalid, d) else
     (case pending_of d i of
        None \<Rightarrow> (case stored d i of
                  None \<Rightarrow> (Inl (Wrap ''retry failed event'' ErrNotFound), d)
                | Some e \<Rightarrow> (Inr (e, False), d))
      | Some p \<Rightarrow>
          (if retryable p g then
             (Inr (reactivate_event (the (stored d i)), True), reactivated i (env_clock env 2) d)
           else if already_retried p g then (Inr (the (stored d i), False), d)
           else (Inl (Wrap ''retry failed event'' ErrRetryConflict), d))))"
proof (cases "retry_args_ok i g")
  case False
  then show ?thesis by (simp add: store_Retry_def retry_args_ok_iff)
next
  case True
  then have g: "g \<noteq> max_int64" by (simp add: retry_args_ok_def)
  have finish: "store_Retry env i g d = (case r of
      None \<Rightarrow> (Inr (e, b), tx_db tx) | Some err \<Rightarrow> (Inl (Wrap ''retry failed event'' err), d))"
    if "retry_tx env i g (begin_tx d) = (r, (e, b), tx)" "\<not> tx_aborted tx" for r e b tx
  proof -
    have "transaction env (zero_event, False) (retry_tx env i g) d = (r, (e, b), if r = None then tx_db tx else d)"
      using transaction_healthy [OF env, where fn = "retry_tx env i g" and d = d] that by simp
    with True show ?thesis by (cases r) (auto simp: store_Retry_def retry_args_ok_iff)
  qed
  from retry_tx_healthy [OF env inv g, of i] obtain calls where
    h: "retry_tx env i g (begin_tx d) =
    (case pending_of d i of
       None \<Rightarrow> (case stored d i of
                 None \<Rightarrow> (Some ErrNotFound, (zero_event, False), (begin_tx d)\<lparr>tx_calls := calls\<rparr>)
               | Some e \<Rightarrow> (None, (e, False), (begin_tx d)\<lparr>tx_calls := calls\<rparr>))
     | Some p \<Rightarrow>
         (if retryable p g then
            (None, (reactivate_event (the (stored d i)), True),
             (begin_tx d)\<lparr>tx_calls := calls, tx_db := reactivated i (env_clock env 2) d\<rparr>)
          else if already_retried p g then (None, (the (stored d i), False), (begin_tx d)\<lparr>tx_calls := calls\<rparr>)
          else (Some ErrRetryConflict, (zero_event, False), (begin_tx d)\<lparr>tx_calls := calls\<rparr>)))" ..
  show ?thesis
  proof (cases "pending_of d i")
    case None
    with h True show ?thesis by (cases "stored d i") (auto dest!: finish)
  next
    case (Some p)
    with h True show ?thesis
      by (cases "retryable p g"; cases "already_retried p g") (auto dest!: finish)
  qed
qed

end
