(* ===== verification/Store_Run.thy ===== *)
theory Store_Run
  imports Store_Accept Store_Batch Store_Retry
begin

text \<open>
  Sequences of store operations. The abstract specification is the life of one event,
  \<open>event_step\<close>: a failed attempt, a post, a reactivation. Every operation refines it, one step
  at most for each stored event, so that what holds of the steps (the priced input never
  changes, a posted event is final, the generation only grows) holds of every run of the store,
  whatever fails on the way.
\<close>

section \<open>The life of an event\<close>

inductive event_step :: "event \<Rightarrow> event \<Rightarrow> bool" where
  attempt_failed: "\<not> Processed e \<Longrightarrow> ProcessingFailures e < 3 \<Longrightarrow> code \<in> integrity_codes \<Longrightarrow>
     event_step e (fail_event code e)"
| posted: "\<not> Processed e \<Longrightarrow> ProcessingFailures e < 3 \<Longrightarrow> event_step e (post_event e)"
| retried: "\<not> Processed e \<Longrightarrow> ProcessingFailures e = 3 \<Longrightarrow> RetryGeneration e \<noteq> max_int64 \<Longrightarrow>
     event_step e (reactivate_event e)"

inductive_cases event_stepE: "event_step e e'"

lemma event_step_frozen: "event_step e e' \<Longrightarrow> frozen e' = frozen e"
  by (auto elim: event_stepE)

lemma event_step_final: "event_step e e' \<Longrightarrow> \<not> Processed e"
  by (auto elim: event_stepE)

lemma event_steps_frozen: "event_step\<^sup>*\<^sup>* e e' \<Longrightarrow> frozen e' = frozen e"
  by (induction rule: rtranclp_induct) (auto simp: event_step_frozen)

lemma event_steps_final: "event_step\<^sup>*\<^sup>* e e' \<Longrightarrow> Processed e \<Longrightarrow> e' = e"
  by (erule converse_rtranclpE) (auto dest: event_step_final)

lemma event_step_generation:
  assumes "event_step e e'" and "0 \<le> sint (RetryGeneration e)" and "\<not> Processed e'"
  shows "sint (RetryGeneration e) \<le> sint (RetryGeneration e')"
  using assms generation_Suc [of "RetryGeneration e"]
  by (auto elim!: event_stepE simp: fail_event_def reactivate_event_def post_event_def)

lemma event_steps_generation:
  assumes "event_step\<^sup>*\<^sup>* e e'" and "0 \<le> sint (RetryGeneration e)" and "\<not> Processed e'"
  shows "sint (RetryGeneration e) \<le> sint (RetryGeneration e')"
  using assms
proof (induction rule: rtranclp_induct)
  case (step f g)
  then have "\<not> Processed f" using event_step_final by blast
  with step event_step_generation [of f g] show ?case by fastforce
qed simp

section \<open>Operations\<close>

text \<open>An operation with what the database service does during it.\<close>

datatype store_op =
    OpAccept pg_env event
  | OpProcess pg_env int
  | OpRetry pg_env string int64

fun apply_op :: "store \<Rightarrow> store_op \<Rightarrow> db \<Rightarrow> db" where
  "apply_op st (OpAccept env ev) d = snd (store_Accept st env ev d)"
| "apply_op st (OpProcess env limit) d = snd (snd (ProcessBatchWithResults env limit d))"
| "apply_op st (OpRetry env i generation) d = snd (store_Retry env i generation d)"

definition run_ops :: "store \<Rightarrow> store_op list \<Rightarrow> db \<Rightarrow> db" where
  "run_ops st = fold (apply_op st)"

lemma apply_op_inv: "store_inv d \<Longrightarrow> store_inv (apply_op st x d)"
  by (cases x) (simp_all add: store_Accept_inv ProcessBatch_inv store_Retry_inv)

text \<open>What every operation moves up in: the append-only tables, and each event along its life.\<close>

definition advances :: "db \<Rightarrow> db \<Rightarrow> bool" where
  "advances d d' \<longleftrightarrow> (\<exists>us. usage_events d' = usage_events d @ us) \<and>
     (\<exists>ls. ledger_entries d' = ledger_entries d @ ls) \<and>
     (\<forall>i e. stored d i = Some e \<longrightarrow> (\<exists>e'. stored d' i = Some e' \<and> event_step\<^sup>*\<^sup>* e e'))"

lemma advances_refl [simp]: "advances d d"
  by (auto simp: advances_def)

lemma advances_trans: "advances d1 d2 \<Longrightarrow> advances d2 d3 \<Longrightarrow> advances d1 d3"
  unfolding advances_def by (auto, metis rtranclp_trans)

text \<open>One operation, one step at most.\<close>

definition refines :: "db \<Rightarrow> db \<Rightarrow> bool" where
  "refines d d' \<longleftrightarrow> (\<exists>us. usage_events d' = usage_events d @ us) \<and>
     (\<exists>ls. ledger_entries d' = ledger_entries d @ ls) \<and>
     (\<forall>i e. stored d i = Some e \<longrightarrow> (\<exists>e'. stored d' i = Some e' \<and> event_step\<^sup>=\<^sup>= e e'))"

lemma refines_refl [simp]: "refines d d"
  by (auto simp: refines_def)

lemma refines_advances: "refines d d' \<Longrightarrow> advances d d'"
  unfolding refines_def advances_def by (auto, metis r_into_rtranclp rtranclp.rtrancl_refl)

lemma refines_admitted:
  assumes "store_inv d" and "EventID (Input ev) \<notin> set (usage_ids d)"
  shows "refines d (admitted ev now1 now2 d)"
proof -
  have "stored d (EventID (Input ev)) = None" using assms(2) by (simp add: stored_None)
  then show ?thesis
    using stored_admitted [OF assms, of now1 now2] by (auto simp: refines_def admitted_def)
qed

lemma refines_reactivated:
  assumes "store_inv d" and "pending_of d i = Some p" and "retryable p g" and "g \<noteq> max_int64"
  shows "refines d (reactivated i now d)"
proof -
  obtain e where "stored d i = Some e" "ProcessingFailures e = 3" "RetryGeneration e = g" "\<not> Processed e"
    using stored_pending [OF assms(1,2)] assms(3) by (auto simp: retryable_def)
  then have "event_step e (reactivate_event e)" "stored d i = Some e"
    using assms(4) by (auto intro: retried)
  then show ?thesis
    using stored_reactivated [OF assms(1,2), of now] by (auto simp: refines_def reactivated_def)
qed

lemma claimed_event_state:
  assumes "store_inv d" and "i \<in> set (claimed_ids env limit d)"
  shows "\<exists>e. stored d i = Some e \<and> \<not> Processed e \<and> ProcessingFailures e < 3"
proof -
  from assms(2) obtain p where p: "p \<in> set (claimed_rows env limit d)" "i = p_event_id p"
    by (auto simp: claimed_ids_def)
  from stored_pending [OF assms(1) claimed_row_of [OF assms(1) p(1)]] claimed_rows_props(2) [OF p(1)] p(2)
  show ?thesis by fastforce
qed

lemma refines_batch:
  assumes inv: "store_inv d" and bd: "batch_done env limit d viol n evs d'"
  shows "refines d d'"
proof -
  from bd have tables: "usage_events d' = usage_events d" "\<exists>l. ledger_entries d' = ledger_entries d @ l"
    and st: "stored d' = attempted viol (set (claimed_ids env limit d)) (stored d)"
    and codes: "\<forall>i\<in>set (claimed_ids env limit d). viol i = None \<or> the (viol i) \<in> integrity_codes"
    by (simp_all add: batch_done_def batch_inv_def)
  have "\<exists>e'. stored d' i = Some e' \<and> event_step\<^sup>=\<^sup>= e e'" if e: "stored d i = Some e" for i e
  proof (cases "i \<in> set (claimed_ids env limit d)")
    case True
    with codes have "viol i = None \<or> the (viol i) \<in> integrity_codes" by blast
    with claimed_event_state [OF inv True] e have "event_step e (effect viol i e)"
      by (cases "viol i") (auto simp: effect_def intro: posted attempt_failed)
    with True e show ?thesis by (simp add: st attempted_def)
  qed (use e in \<open>simp add: st attempted_def\<close>)
  with tables show ?thesis by (auto simp: refines_def)
qed

lemma apply_op_refines:
  assumes inv: "store_inv d"
  shows "refines d (apply_op st x d)"
proof (cases x)
  case (OpAccept env ev)
  obtain r d' where run: "store_Accept st env ev d = (r, d')" by fastforce
  from run inv have "refines d d'"
    by (cases rule: store_Accept_cases) (use inv refines_admitted in auto)
  with OpAccept run show ?thesis by simp
next
  case (OpProcess env limit)
  obtain err res d' where run: "ProcessBatchWithResults env limit d = (err, res, d')" by (metis prod_cases3)
  from run inv have "refines d d'"
    by (cases rule: ProcessBatch_cases) (use inv refines_batch in auto)
  with OpProcess run show ?thesis by simp
next
  case (OpRetry env i g)
  obtain r d' where run: "store_Retry env i g d = (r, d')" by fastforce
  from run inv have "refines d d'"
    by (cases rule: store_Retry_cases) (use inv refines_reactivated in \<open>auto simp: retry_args_ok_def\<close>)
  with OpRetry run show ?thesis by simp
qed

interpretation ops: growing_steps "apply_op st" store_inv advances for st
  by unfold_locales
    (auto intro: apply_op_inv refines_advances apply_op_refines advances_trans)


section \<open>The queue limit\<close>

definition within_limit :: "store \<Rightarrow> db \<Rightarrow> bool" where
  "within_limit st d \<longleftrightarrow> store_inv d \<and> int (length (pending_events d)) \<le> sint (maxPending st)"

lemma apply_op_within_limit:
  assumes "within_limit st d"
  shows "within_limit st (apply_op st x d)"
proof -
  have inv: "store_inv d" and len: "int (length (pending_events d)) \<le> sint (maxPending st)"
    using assms by (simp_all add: within_limit_def)
  have "int (length (pending_events (apply_op st x d))) \<le> sint (maxPending st)"
  proof (cases x)
    case (OpAccept env ev)
    obtain r d' where run: "store_Accept st env ev d = (r, d')" by fastforce
    from run inv have "int (length (pending_events d')) \<le> sint (maxPending st)"
      by (cases rule: store_Accept_cases) (use len in \<open>auto simp: admitted_def queue_full_def\<close>)
    with OpAccept run show ?thesis by simp
  next
    case (OpProcess env limit)
    obtain err res d' where run: "ProcessBatchWithResults env limit d = (err, res, d')" by (metis prod_cases3)
    have shrink: "length (pending_events d') \<le> length (pending_events d)" if "batch_done env limit d viol n evs d'" for viol n evs
    proof -
      from that have "pending_ids d' = filter (\<lambda>i. \<not> (i \<in> set (claimed_ids env limit d) \<and> viol i = None)) (pending_ids d)"
        by (simp add: batch_done_def batch_inv_def)
      then have "length (pending_ids d') \<le> length (pending_ids d)" by (metis length_filter_le)
      then show ?thesis by simp
    qed
    from run inv have "length (pending_events d') \<le> length (pending_events d)"
      by (cases rule: ProcessBatch_cases) (use shrink in auto)
    with OpProcess run len show ?thesis by simp
  next
    case (OpRetry env i g)
    obtain r d' where run: "store_Retry env i g d = (r, d')" by fastforce
    from run inv have "length (pending_events d') = length (pending_events d)"
      by (cases rule: store_Retry_cases) (auto simp: reactivated_def)
    with OpRetry run len show ?thesis by simp
  qed
  with apply_op_inv [OF inv] show ?thesis by (simp add: within_limit_def)
qed

interpretation limit: invariant_steps "apply_op st" "within_limit st" for st
  by unfold_locales (rule apply_op_within_limit)

end
