(* ===== verification/Store_Repository.thy ===== *)
theory Store_Repository
  imports Store_Run
begin

text \<open>
  The store as the service's repository (\<open>var _ billing.Repository = (*Store)(nil)\<close>), and the
  proof that it keeps the contract \<open>billing_repository\<close>, whatever the database does.
\<close>

definition pg_repository :: "store \<Rightarrow> (pg_env, db) repository" where
  "pg_repository st =
     \<lparr>repo_Accept = \<lambda>c ev d. store_Accept st (ctx_env c) ev d,
      repo_Get = \<lambda>c i d. store_Get (ctx_env c) i d,
      repo_Summary = \<lambda>c customer d. store_Summary (ctx_env c) customer d,
      repo_Retry = \<lambda>c i generation d. store_Retry (ctx_env c) i generation d\<rparr>"

lemma pg_repository_simps [simp]:
  "repo_Accept (pg_repository st) c ev d = store_Accept st (ctx_env c) ev d"
  "repo_Get (pg_repository st) c i d = store_Get (ctx_env c) i d"
  "repo_Summary (pg_repository st) c customer d = store_Summary (ctx_env c) customer d"
  "repo_Retry (pg_repository st) c i generation d = store_Retry (ctx_env c) i generation d"
  by (simp_all add: pg_repository_def)

lemma store_Accept_created:
  assumes "store_inv d" and "store_Accept st env ev d = (Inr (e, True), d')"
  shows "stored d (EventID (Input ev)) = None \<and> stored d' = (stored d)(EventID (Input ev) \<mapsto> e) \<and>
     (\<exists>now. frozen e = frozen (ev\<lparr>CreatedAt := now\<rparr>)) \<and> \<not> Processed e"
  using assms(2,1)
  by (cases rule: store_Accept_cases)
    (use assms(1) in \<open>auto simp: stored_None stored_admitted frozen_fresh\<close>)

lemma store_Accept_replayed:
  assumes "store_inv d" and "store_Accept st env ev d = (Inr (e, False), d')"
  shows "stored d (EventID (Input ev)) = Some e \<and> Input e = Input ev \<and> d' = d"
  using assms(2,1) by (cases rule: store_Accept_cases) auto

lemma infra_conflict: "infra e \<Longrightarrow> billing_sentinel t \<Longrightarrow> \<not> errors_is e t"
  by (simp add: infra_def)

lemma store_Accept_conflict:
  assumes "store_inv d" and "store_Accept st env ev d = (Inl err, d')" and "errors_is err ErrConflict"
  shows "(\<exists>e. stored d (EventID (Input ev)) = Some e \<and> Input e \<noteq> Input ev) \<and> d' = d"
  using assms(2,1)
proof (cases rule: store_Accept_cases)
  case (full err')
  with assms(3) full(6) [of ErrConflict] show ?thesis by simp
qed (use assms(3) infra_conflict [of err ErrConflict] in auto)

lemma store_Accept_kept:
  assumes "store_inv d" and "stored d i = Some e"
  shows "stored (snd (store_Accept st env ev d)) i = Some e"
proof -
  obtain r d' where run: "store_Accept st env ev d = (r, d')" by fastforce
  have "stored d i = stored (admitted ev now1 now2 d) i" if "EventID (Input ev) \<notin> set (usage_ids d)" for now1 now2
  proof -
    have "stored d (EventID (Input ev)) = None" using that by (simp add: stored_None)
    with assms(2) have "i \<noteq> EventID (Input ev)" by auto
    with stored_admitted [OF assms(1) that, of now1 now2] show ?thesis by simp
  qed
  with run assms(1) have "stored d' i = Some e"
    by (cases rule: store_Accept_cases) (use assms(2) in auto)
  with run show ?thesis by simp
qed

lemma store_Get_sentinels: "store_Get env i d = Inl err \<Longrightarrow> \<not> errors_is err ErrConflict"
  by (cases "env_fault env 0")
    (auto simp: store_Get_def pool_query_def readEvent_def scan_row_def sql_read_event_eq Let_def
      split: option.splits if_splits)

lemma store_Retry_kept:
  assumes "store_inv d" and "stored d i = Some e"
  shows "\<exists>e'. stored (snd (store_Retry env j g d)) i = Some e' \<and> frozen e' = frozen e"
proof -
  from apply_op_refines [OF assms(1), of st "OpRetry env j g"] assms(2)
  have "\<exists>e'. stored (snd (store_Retry env j g d)) i = Some e' \<and> event_step\<^sup>=\<^sup>= e e'"
    by (auto simp: refines_def)
  then show ?thesis using event_step_frozen by auto
qed

interpretation pg: billing_repository "pg_repository st" store_inv stored for st
proof unfold_locales
  fix s :: db and c :: "pg_env ctx" and ev e s' err i j g
  assume inv: "store_inv s"
  show "store_inv (snd (repo_Accept (pg_repository st) c ev s))"
    "store_inv (snd (repo_Retry (pg_repository st) c i g s))"
    using inv by (simp_all add: store_Accept_inv store_Retry_inv)
  show "stored s (EventID (Input ev)) = None \<and> stored s' = (stored s)(EventID (Input ev) \<mapsto> e) \<and>
      (\<exists>now. frozen e = frozen (ev\<lparr>CreatedAt := now\<rparr>)) \<and> \<not> Processed e"
    if "repo_Accept (pg_repository st) c ev s = (Inr (e, True), s')"
    using store_Accept_created [OF inv, of st "ctx_env c" ev e s'] that by simp
  show "stored s (EventID (Input ev)) = Some e \<and> Input e = Input ev \<and> s' = s"
    if "repo_Accept (pg_repository st) c ev s = (Inr (e, False), s')"
    using store_Accept_replayed [OF inv, of st "ctx_env c" ev e s'] that by simp
  show "(\<exists>e. stored s (EventID (Input ev)) = Some e \<and> Input e \<noteq> Input ev) \<and> s' = s"
    if "repo_Accept (pg_repository st) c ev s = (Inl err, s')" "errors_is err ErrConflict"
    using store_Accept_conflict [OF inv, of st "ctx_env c" ev err s'] that by simp
  show "stored (snd (repo_Accept (pg_repository st) c ev s)) i = Some e" if "stored s i = Some e"
    using store_Accept_kept [OF inv that] by simp
  show "stored s i = Some e" if "repo_Get (pg_repository st) c i s = Inr e"
    using store_Get_Inr [of "ctx_env c" i s e] that by simp
  show "stored s i = None" if "repo_Get (pg_repository st) c i s = Inl err" "errors_is err ErrNotFound"
    using store_Get_not_found [of "ctx_env c" i s err] that by simp
  show "\<not> errors_is err ErrConflict" if "repo_Get (pg_repository st) c i s = Inl err"
    using store_Get_sentinels [of "ctx_env c" i s err] that by simp
  show "\<exists>e'. stored (snd (repo_Retry (pg_repository st) c j g s)) i = Some e' \<and> frozen e' = frozen e"
    if "stored s i = Some e"
    using store_Retry_kept [OF inv that] by simp
qed

end
