(* ===== verification/Store_Totals.thy ===== *)
theory Store_Totals
  imports Store_Run
begin

text \<open>
  What the readers report: \<open>Summary\<close> adds up exactly the posted events of one customer as
  unbounded integers and counts the others by their state; \<open>QueueStats\<close> counts the queue and the
  age of its oldest eligible row.
\<close>

section \<open>Joins on a key\<close>

lemma left_join_key:
  assumes "distinct (map k ys)"
  shows "left_join (\<lambda>x y. k y = h x) xs ys = map (\<lambda>x. (x, find (\<lambda>y. k y = h x) ys)) xs"
proof -
  have one: "(case filter (\<lambda>y. k y = i) ys of [] \<Rightarrow> [(x, None)] | zs \<Rightarrow> map (\<lambda>z. (x, Some z)) zs) =
      [(x, find (\<lambda>y. k y = i) ys)]" for x :: 'c and i
  proof (cases "find (\<lambda>y. k y = i) ys")
    case None
    then have "filter (\<lambda>y. k y = i) ys = []" by (simp add: find_None_iff filter_empty_conv)
    with None show ?thesis by simp
  next
    case (Some y)
    from find_key_Some [OF Some] have "y \<in> set ys" "k y = i" by simp_all
    with filter_key_distinct [OF assms, of y] Some show ?thesis by simp
  qed
  show ?thesis unfolding left_join_def by (induction xs) (simp_all add: one)
qed

definition ledger_of :: "db \<Rightarrow> string \<Rightarrow> ledger_row option" where
  "ledger_of d i = find (\<lambda>l. l_event_id l = i) (ledger_entries d)"

lemma ledger_of_None: "ledger_of d i = None \<longleftrightarrow> i \<notin> set (ledger_ids d)"
  by (simp add: ledger_of_def find_key_None)

lemma summary_rows_eq:
  assumes "store_inv d"
  shows "summary_rows customer d =
     map (\<lambda>u. (u, ledger_of d (u_event_id u), pending_of d (u_event_id u)))
       (filter (\<lambda>u. u_customer_id u = customer) (usage_events d))"
proof -
  have j1: "left_join (\<lambda>u l. l_event_id l = u_event_id u) (usage_events d) (ledger_entries d) =
      map (\<lambda>u. (u, ledger_of d (u_event_id u))) (usage_events d)"
    unfolding ledger_of_def using store_invD(3) [OF assms] by (rule left_join_key)
  have j2: "left_join (\<lambda>(u, l) p. p_event_id p = u_event_id u) xs (pending_events d) =
      map (\<lambda>x. (x, pending_of d (u_event_id (fst x)))) xs" for xs :: "(usage_row \<times> ledger_row option) list"
    unfolding pending_of_def case_prod_beta using store_invD(2) [OF assms] by (rule left_join_key)
  show ?thesis
    by (simp add: summary_rows_def j1 j2 filter_map o_def case_prod_beta)
qed

section \<open>The events of a customer\<close>

definition customer_events :: "string \<Rightarrow> db \<Rightarrow> event list" where
  "customer_events customer d =
     filter (\<lambda>e. CustomerID (Input e) = customer) (map (\<lambda>i. the (stored d i)) (usage_ids d))"

lemma usage_of_row: "store_inv d \<Longrightarrow> u \<in> set (usage_events d) \<Longrightarrow> usage_of d (u_event_id u) = Some u"
  unfolding usage_of_def by (rule find_key_distinct [OF store_invD(1)])

lemma customer_events_eq:
  assumes "store_inv d"
  shows "customer_events customer d =
     map (\<lambda>u. view u (u_event_id u \<in> set (ledger_ids d)) (pending_of d (u_event_id u)))
       (filter (\<lambda>u. u_customer_id u = customer) (usage_events d))"
proof -
  have eq: "map (\<lambda>i. the (stored d i)) (usage_ids d) =
      map (\<lambda>u. view u (u_event_id u \<in> set (ledger_ids d)) (pending_of d (u_event_id u))) (usage_events d)"
    using usage_of_row [OF assms] by (simp add: stored_def)
  show ?thesis unfolding customer_events_def eq by (simp add: filter_map o_def)
qed

text \<open>The state of a queue row, from its counter.\<close>

lemma pending_failures:
  assumes "store_inv d" and "u \<in> set (usage_events d)"
  shows "(case pending_of d (u_event_id u) of None \<Rightarrow> False | Some r \<Rightarrow> p_processing_failures r < 3) \<longleftrightarrow>
       u_event_id u \<notin> set (ledger_ids d) \<and>
       \<not> (case pending_of d (u_event_id u) of None \<Rightarrow> False | Some r \<Rightarrow> p_processing_failures r = 3)"
proof (cases "pending_of d (u_event_id u)")
  case None
  have "u_event_id u \<in> set (usage_ids d)" using assms(2) by simp
  then have "u_event_id u \<in> set (ledger_ids d) \<longleftrightarrow> u_event_id u \<notin> set (pending_ids d)"
    using assms(1) by (intro posted_iff_not_pending)
  with None show ?thesis using pending_of_None [of d "u_event_id u"] by simp
next
  case (Some p)
  have "u_event_id u \<in> set (pending_ids d)" using Some by (metis option.distinct(1) pending_of_None)
  then have "u_event_id u \<notin> set (ledger_ids d)" using store_invD(4) [OF assms(1)] by blast
  moreover have "p_processing_failures p \<le> 3"
    using store_inv_pending_check [OF assms(1) Some] by (simp add: pending_check_def)
  ultimately show ?thesis using Some by auto
qed

definition waiting :: "event \<Rightarrow> bool" where
  "waiting e \<longleftrightarrow> \<not> Processed e \<and> \<not> Failed e"

text \<open>
  The summary the API promises: the units and the amount of the posted events, exactly, and how
  many events are waiting, posted and quarantined.
\<close>

definition summary_spec :: "string \<Rightarrow> event list \<Rightarrow> summary" where
  "summary_spec customer evs =
     \<lparr>sm_CustomerID = customer, sm_Currency = ''USD'',
      sm_Units = show_int (sum_list (map (\<lambda>e. sint (Units (Input e))) (filter Processed evs))),
      sm_AmountMicros = show_int (sum_list (map (\<lambda>e. sint (AmountMicros e)) (filter Processed evs))),
      sm_Pending = int (length (filter waiting evs)),
      sm_Processed = int (length (filter Processed evs)),
      sm_Failed = int (length (filter Failed evs))\<rparr>"

lemma store_Summary_spec:
  assumes inv: "store_inv d" and ok: "env_fault env 0 = None"
  shows "store_Summary env customer d = Inr (summary_spec customer (customer_events customer d))"
proof -
  let ?us = "filter (\<lambda>u. u_customer_id u = customer) (usage_events d)"
  have posted: "ledger_of d i \<noteq> None \<longleftrightarrow> i \<in> set (ledger_ids d)" for i
    by (metis ledger_of_None)
  have pend: "filter (\<lambda>u. case pending_of d (u_event_id u) of None \<Rightarrow> False | Some r \<Rightarrow> p_processing_failures r < 3) ?us =
      filter (\<lambda>u. u_event_id u \<notin> set (ledger_ids d) \<and>
        \<not> (case pending_of d (u_event_id u) of None \<Rightarrow> False | Some r \<Rightarrow> p_processing_failures r = 3)) ?us"
    using pending_failures [OF inv] by (intro filter_cong) auto
  have "sql_summary customer d =
      (sm_Units (summary_spec customer (customer_events customer d)),
       sm_AmountMicros (summary_spec customer (customer_events customer d)),
       sm_Pending (summary_spec customer (customer_events customer d)),
       sm_Processed (summary_spec customer (customer_events customer d)),
       sm_Failed (summary_spec customer (customer_events customer d)))"
    using pend posted
    by (simp add: sql_summary_def summary_rows_eq [OF inv] customer_events_eq [OF inv] summary_spec_def
        filter_map o_def waiting_def Let_def case_prod_beta)
  then show ?thesis using ok by (simp add: store_Summary_def pool_query_def summary_spec_def)
qed

text \<open>Every event of the customer is counted once.\<close>

lemma customer_events_states:
  assumes "store_inv d" and "e \<in> set (customer_events customer d)"
  shows "Processed e \<longrightarrow> \<not> Failed e"
proof -
  from assms(2) obtain u where u: "u \<in> set (usage_events d)"
    "e = view u (u_event_id u \<in> set (ledger_ids d)) (pending_of d (u_event_id u))"
    by (auto simp: customer_events_eq [OF assms(1)])
  show ?thesis
  proof (cases "pending_of d (u_event_id u)")
    case (Some p)
    then have "u_event_id u \<in> set (pending_ids d)" by (metis option.distinct(1) pending_of_None)
    then have "u_event_id u \<notin> set (ledger_ids d)" using store_invD(4) [OF assms(1)] by blast
    then show ?thesis using u by simp
  qed (simp add: u)
qed

lemma summary_spec_counts:
  assumes "\<And>e. e \<in> set evs \<Longrightarrow> Processed e \<longrightarrow> \<not> Failed e"
  shows "sm_Pending (summary_spec c evs) + sm_Processed (summary_spec c evs) + sm_Failed (summary_spec c evs) =
     int (length evs)"
  using assms by (induction evs) (auto simp: summary_spec_def waiting_def)

section \<open>QueueStats\<close>

lemma store_QueueStats_counts:
  assumes "env_fault env 0 = None" and "store_inv d" and "store_QueueStats env d = Inr (pending, failed, age)"
  shows "pending + failed = int (length (pending_events d)) \<and> 0 \<le> age \<and>
     (\<forall>p\<in>set (pending_events d). p_processing_failures p < 3 \<longrightarrow> env_clock env 0 - p_enqueued_at p \<le> age)"
proof -
  let ?el = "filter (\<lambda>p. p_processing_failures p < 3) (pending_events d)"
  let ?fa = "filter (\<lambda>p. p_processing_failures p = 3) (pending_events d)"
  let ?age = "if ?el = [] then 0 else env_clock env 0 - Min (set (map p_enqueued_at ?el))"
  have eq: "pending = int (length ?el)" "failed = int (length ?fa)" "age = (if ?age < 0 then 0 else ?age)"
    using assms(1,3) by (simp_all add: store_QueueStats_def pool_query_def sql_queue_stats_def Let_def)
  have split: "length (filter (\<lambda>p. p_processing_failures p < 3) xs) + length (filter (\<lambda>p. p_processing_failures p = 3) xs) =
      length xs" if "\<forall>p\<in>set xs. p_processing_failures p \<le> 3" for xs
    using that by (induction xs) auto
  have "\<forall>p\<in>set (pending_events d). p_processing_failures p \<le> 3"
    using store_invD(7) [OF assms(2)] by (auto simp: list_all_iff pending_check_def)
  from split [OF this] have "pending + failed = int (length (pending_events d))"
    by (simp add: eq flip: of_nat_add)
  moreover have "env_clock env 0 - p_enqueued_at p \<le> age"
    if "p \<in> set (pending_events d)" "p_processing_failures p < 3" for p
  proof -
    have p: "p \<in> set ?el" using that by simp
    then have "Min (set (map p_enqueued_at ?el)) \<le> p_enqueued_at p" by (intro Min_le) auto
    moreover have "?el \<noteq> []" using p by force
    ultimately show ?thesis unfolding eq(3) by auto
  qed
  moreover have "0 \<le> age" unfolding eq(3) by simp
  ultimately show ?thesis by blast
qed

end
