(* ===== verification/Store_Drain.thy ===== *)
theory Store_Drain
  imports Store_Totals
begin

text \<open>
  Progress of the queue. While the database answers and nothing else holds locks, every batch
  takes work away: \<open>work d\<close> counts the attempts an eligible event has left. A run of at least
  \<open>work d\<close> batches leaves no event waiting.
\<close>

definition work :: "db \<Rightarrow> nat" where
  "work d = sum_list (map (\<lambda>p. nat (3 - p_processing_failures p)) (pending_events d))"

definition attempts_left :: "event \<Rightarrow> nat" where
  "attempts_left e = nat (3 - ProcessingFailures e)"

lemma work_stored:
  assumes "store_inv d"
  shows "work d = sum_list (map (\<lambda>i. attempts_left (the (stored d i))) (pending_ids d))"
proof -
  have "attempts_left (the (stored d (p_event_id p))) = nat (3 - p_processing_failures p)"
    if "p \<in> set (pending_events d)" for p
    using stored_pending [OF assms pending_row_unique [OF assms that refl]] by (auto simp: attempts_left_def)
  then have "map (\<lambda>p. nat (3 - p_processing_failures p)) (pending_events d) =
      map (\<lambda>p. attempts_left (the (stored d (p_event_id p)))) (pending_events d)"
    by simp
  from arg_cong [OF this, of sum_list] show ?thesis
    unfolding work_def by (simp only: list.map_comp o_def)
qed

lemma sum_list_decrease:
  assumes "\<And>x. x \<in> set xs \<Longrightarrow> x \<in> S \<Longrightarrow> 1 \<le> f x \<and> (P x \<longrightarrow> g x + 1 \<le> (f x :: nat))"
    and "\<And>x. x \<in> set xs \<Longrightarrow> x \<notin> S \<Longrightarrow> g x \<le> f x"
  shows "sum_list (map g (filter P xs)) + length (filter (\<lambda>x. x \<in> S) xs) \<le> sum_list (map f xs)"
  using assms
proof (induction xs)
  case (Cons x xs)
  have IH: "sum_list (map g (filter P xs)) + length (filter (\<lambda>x. x \<in> S) xs) \<le> sum_list (map f xs)"
    using Cons.prems by (intro Cons.IH) auto
  show ?case using IH Cons.prems(1) [of x] Cons.prems(2) [of x] by (cases "x \<in> S"; cases "P x") auto
qed simp

text \<open>A batch takes one attempt from every event it claimed.\<close>

lemma batch_done_work:
  assumes inv: "store_inv d" and bd: "batch_done env limit d viol n evs d'"
  shows "work d' + length (claimed_ids env limit d) \<le> work d"
proof -
  let ?is = "claimed_ids env limit d"
  let ?f = "\<lambda>i. attempts_left (the (stored d i))"
  let ?g = "\<lambda>i. attempts_left (the (stored d' i))"
  let ?P = "\<lambda>i. \<not> (i \<in> set ?is \<and> viol i = None)"
  from bd have st: "stored d' = attempted viol (set ?is) (stored d)"
    and ids: "pending_ids d' = filter ?P (pending_ids d)"
    and inv': "store_inv d'"
    by (simp_all add: batch_done_def batch_inv_def)
  have claimed: "1 \<le> ?f i \<and> (?P i \<longrightarrow> ?g i + 1 \<le> ?f i)" if i: "i \<in> set ?is" for i
  proof -
    obtain e where e: "stored d i = Some e" "ProcessingFailures e < 3"
      using claimed_event_state [OF inv i] by blast
    then have "?g i + 1 \<le> ?f i" if "viol i \<noteq> None"
      using i that by (auto simp: st attempted_def effect_def fail_event_def attempts_left_def)
    with e i show ?thesis by (auto simp: attempts_left_def)
  qed
  have "sum_list (map ?g (filter ?P (pending_ids d))) + length (filter (\<lambda>i. i \<in> set ?is) (pending_ids d)) \<le>
      sum_list (map ?f (pending_ids d))"
    using claimed by (intro sum_list_decrease) (auto simp: st attempted_def)
  moreover have "length (filter (\<lambda>i. i \<in> set ?is) (pending_ids d)) = length ?is"
    using length_filter_key_distinct [of id "pending_ids d" ?is] store_invD(2) [OF inv]
      claimed_ids_pending [of env limit d] distinct_claimed_ids [OF inv, of env limit] by simp
  ultimately show ?thesis
    using work_stored [OF inv] work_stored [OF inv'] ids by simp
qed

text \<open>A batch with room and nothing locked claims something whenever something is eligible.\<close>

lemma claimed_nonempty:
  assumes "\<And>i. \<not> env_locked env i" and "1 \<le> limit"
    and "p \<in> set (pending_events d)" and "p_processing_failures p < 3"
  shows "claimed_ids env limit d \<noteq> []"
proof -
  have "p \<in> set (claim_order env d)" using assms by (simp add: claim_order_def)
  then have "claim_order env d \<noteq> []" by force
  then show ?thesis using assms(2) by (simp add: claimed_ids_def claimed_rows_def)
qed

definition good_env :: "pg_env \<Rightarrow> bool" where
  "good_env env \<longleftrightarrow> healthy env \<and> integrity_violations env \<and> (\<forall>i. \<not> env_locked env i)"

text \<open>The worker's batches, one after another.\<close>

definition run_batches :: "int \<Rightarrow> pg_env list \<Rightarrow> db \<Rightarrow> db" where
  "run_batches limit envs d = fold (\<lambda>env d. snd (snd (ProcessBatchWithResults env limit d))) envs d"

definition drained :: "db \<Rightarrow> bool" where
  "drained d \<longleftrightarrow> (\<forall>p\<in>set (pending_events d). p_processing_failures p = 3)"

lemma drained_work:
  assumes "store_inv d" and "work d = 0"
  shows "drained d"
proof -
  have "p_processing_failures p \<le> 3" if "p \<in> set (pending_events d)" for p
    using store_invD(7) [OF assms(1)] that by (simp add: list_all_iff pending_check_def)
  moreover have "3 \<le> p_processing_failures p" if "p \<in> set (pending_events d)" for p
    using assms(2) that by (auto simp: work_def)
  ultimately show ?thesis by (force simp: drained_def)
qed

lemma drained_claims:
  assumes "drained d"
  shows "claimed_ids env limit d = []"
proof (rule ccontr)
  assume "claimed_ids env limit d \<noteq> []"
  then have "hd (claimed_rows env limit d) \<in> set (claimed_rows env limit d)"
    by (simp add: claimed_ids_def)
  from claimed_rows_props(1,2) [OF this] assms show False by (auto simp: drained_def)
qed

lemma drained_batch:
  assumes "drained d" and "store_inv d"
    and "ProcessBatchWithResults env limit d = (err, res, d')"
  shows "drained d'"
proof -
  have none: "claimed_ids env limit d = []"
    using drained_claims [OF assms(1)] .
  have keep: "drained d1" if bd: "batch_done env limit d viol n evs d1" for viol n evs d1
  proof -
    have "p_processing_failures p = 3" if p: "p \<in> set (pending_events d1)" for p
    proof -
      from bd none have "pending_of d1 (p_event_id p) = pending_of d (p_event_id p)"
        by (simp add: batch_done_def batch_inv_def)
      with pending_row_unique [OF batch_done_inv [OF bd] p refl] pending_of_key [of d "p_event_id p" p] assms(1)
      show ?thesis by (auto simp: drained_def)
    qed
    then show ?thesis by (simp add: drained_def)
  qed
  from assms(3,2) show ?thesis
    by (cases rule: ProcessBatch_cases) (use assms(1) keep in auto)
qed

lemma batch_progress:
  assumes env: "good_env env" and lim: "1 \<le> limit" "limit \<le> 1000" and inv: "store_inv d"
    and run: "ProcessBatchWithResults env limit d = (err, res, d')"
  shows "err = None \<and> store_inv d' \<and> (drained d' \<or> work d' < work d)"
proof -
  from env have e: "healthy env" "integrity_violations env" "\<And>i. \<not> env_locked env i"
    by (simp_all add: good_env_def)
  from ProcessBatch_healthy [OF e(1,2) lim inv] run
  have err: "err = None" and bd: "batch_done env limit d (env_violation env) (br_Processed res) (br_Events res) d'"
    by auto
  show ?thesis
  proof (cases "drained d")
    case True
    with err drained_batch [OF True inv run] batch_done_inv [OF bd] show ?thesis by simp
  next
    case False
    then obtain p where "p \<in> set (pending_events d)" "p_processing_failures p \<noteq> 3"
      by (auto simp: drained_def)
    moreover from this have "p_processing_failures p < 3"
      using store_invD(7) [OF inv] by (fastforce simp: list_all_iff pending_check_def)
    ultimately have "claimed_ids env limit d \<noteq> []" using e(3) lim by (intro claimed_nonempty)
    then have "0 < length (claimed_ids env limit d)" by simp
    with batch_done_work [OF inv bd] have "work d' < work d" by linarith
    with err batch_done_inv [OF bd] show ?thesis by simp
  qed
qed

lemma run_batches_Cons:
  "run_batches limit (env # envs) d = run_batches limit envs (snd (snd (ProcessBatchWithResults env limit d)))"
  by (simp add: run_batches_def)

lemma run_batches_inv: "store_inv d \<Longrightarrow> store_inv (run_batches limit envs d)"
  by (induction envs arbitrary: d) (auto simp: run_batches_def intro: ProcessBatch_inv)

lemma run_batches_drains:
  assumes "\<forall>env\<in>set envs. good_env env" and "1 \<le> limit" and "limit \<le> 1000" and "store_inv d"
    and "work d \<le> length envs \<or> drained d"
  shows "drained (run_batches limit envs d)"
  using assms
proof (induction envs arbitrary: d)
  case Nil
  then show ?case using drained_work [of d] by (auto simp: run_batches_def)
next
  case (Cons env envs)
  obtain err res d' where run: "ProcessBatchWithResults env limit d = (err, res, d')" by (metis prod_cases3)
  from batch_progress [OF _ Cons.prems(2-4) run] Cons.prems(1)
  have p: "store_inv d'" "drained d' \<or> work d' < work d" by auto
  have "work d' \<le> length envs \<or> drained d'"
    using p drained_batch [OF _ Cons.prems(4) run] Cons.prems(5) by auto
  with Cons p have "drained (run_batches limit envs d')" by auto
  then show ?case by (simp add: run_batches_Cons run)
qed

text \<open>In a drained queue every event is posted or quarantined.\<close>

lemma drained_stored:
  assumes "drained d" and "store_inv d" and "stored d i = Some e"
  shows "\<not> waiting e"
proof (cases "pending_of d i")
  case None
  then have "Processed e"
    using stored_Processed [OF assms(2,3)] by (simp add: pending_of_None)
  then show ?thesis by (simp add: waiting_def)
next
  case (Some p)
  with pending_of_key [OF Some] assms(1) have "p_processing_failures p = 3" by (auto simp: drained_def)
  with Some assms(3) have "Failed e" by (auto simp: stored_def)
  then show ?thesis by (simp add: waiting_def)
qed

end
