(* ===== verification/Samples.thy ===== *)
theory Samples
  imports Store_Repository Store_Drain
begin

text \<open>
  Concrete inputs the witnesses are evaluated at: a database that answers every call, one whose
  ledger rejects one identifier, and a few events.
\<close>

definition sample_env :: pg_env where
  "sample_env = \<lparr>env_fault = \<lambda>k. None, env_clock = \<lambda>k. 1000 + int k, env_locked = \<lambda>i. False,
     env_collate = map of_char, env_violation = \<lambda>i. None, env_scan_fault = \<lambda>k. None,
     env_rows_break = None, env_commit_applied = False, env_rollback_fault = None\<rparr>"

definition rejecting_env :: pg_env where
  "rejecting_env = sample_env\<lparr>env_violation := \<lambda>i. if i = ''e2'' then Some ''23514'' else None\<rparr>"

text \<open>The COMMIT of a transaction with the given number of earlier calls gets no answer.\<close>

definition lost_commit_env :: "nat \<Rightarrow> pg_env" where
  "lost_commit_env n = sample_env\<lparr>env_fault := \<lambda>k. if k = n then Some DeadlineExceeded else None,
     env_commit_applied := True\<rparr>"

definition sample_ctx :: "pg_env \<Rightarrow> pg_env ctx" where
  "sample_ctx env = \<lparr>ctx_request_id = Some ''0123456789abcdef0123456789abcdef'', ctx_env = env\<rparr>"

definition sample_input :: "string \<Rightarrow> int64 \<Rightarrow> input" where
  "sample_input i units = \<lparr>EventID = i, CustomerID = ''acme'', Meter = ''api_calls'', Units = units\<rparr>"

definition sample_service :: "int64 \<Rightarrow> (pg_env, db) service" where
  "sample_service rate = \<lparr>svc_repo = pg_repository \<lparr>maxPending = 2\<rparr>, svc_rate = rate\<rparr>"

definition sample_event :: "string \<Rightarrow> event" where
  "sample_event i = priced_event 250 ''0123456789abcdef0123456789abcdef'' (sample_input i 4)"

definition two_accepted :: db where
  "two_accepted = run_ops \<lparr>maxPending = 2\<rparr>
     [OpAccept sample_env (sample_event ''e1''), OpAccept sample_env (sample_event ''e2'')] empty_db"

lemma two_accepted_inv [simp]: "store_inv two_accepted"
  unfolding two_accepted_def run_ops_def by (rule ops.run_inv) simp

lemma sample_env_healthy [simp]: "healthy sample_env" "healthy rejecting_env"
  by (simp_all add: healthy_def sample_env_def rejecting_env_def)

lemma sample_env_integrity [simp]: "integrity_violations sample_env" "integrity_violations rejecting_env"
  by (simp_all add: integrity_violations_def sample_env_def rejecting_env_def integrity_codes_def)

lemma sample_env_good [simp]: "good_env sample_env" "good_env rejecting_env"
  by (simp_all add: good_env_def) (simp_all add: sample_env_def rejecting_env_def)

end
