(* ===== verification/Store_Properties.thy ===== *)
theory Store_Properties
  imports Samples
begin

text \<open>
  The properties of the durable store and of the service in front of it, each with a witness
  where it has hypotheses. The lemmas they rest on are in \<open>Store_Accept\<close>, \<open>Store_Batch\<close>,
  \<open>Store_Retry\<close>, \<open>Store_Run\<close>, \<open>Store_Repository\<close>, \<open>Store_Totals\<close> and \<open>Store_Drain\<close>.
\<close>

section \<open>Every run of the store\<close>

text \<open>
  C1. After any sequence of Accept, ProcessBatch and Retry calls, whatever the database does
  during them, the tables satisfy every key and check of the schema, and each accepted event is
  either queued or posted to the ledger, never both and never neither.
\<close>

theorem reachable_store_inv: "store_inv (run_ops st ops empty_db)"
  unfolding run_ops_def by (rule ops.run_inv) simp

text \<open>
  Further operations only append to the usage table and to the ledger, and move each stored
  event along its life cycle: acceptance and posting are never undone.
\<close>

lemma runs_advance: "advances (run_ops st ops empty_db) (run_ops st (ops @ rest) empty_db)"
proof -
  have "advances (run_ops st ops empty_db) (fold (apply_op st) rest (run_ops st ops empty_db))"
    using ops.run_inv [of empty_db st ops] unfolding run_ops_def by (intro ops.run_below) simp
  then show ?thesis by (simp add: run_ops_def)
qed

text \<open>
  C9. Refinement: one store operation, whatever fails inside it, changes the event seen under an
  identifier by at most one step of the abstract life cycle (a failed attempt, a post, a
  reactivation), and appends to the tables that are append-only.
\<close>

theorem operation_refines_life_cycle:
  "refines (run_ops st ops empty_db) (apply_op st x (run_ops st ops empty_db))"
  unfolding run_ops_def by (rule apply_op_refines, rule ops.run_inv) simp

text \<open>
  C25. What acceptance froze of an event (input, request identifier, unit price, amount,
  currency, creation time) never changes, and a posted event does not change at all.
\<close>

theorem accepted_event_frozen:
  assumes "stored (run_ops st ops empty_db) i = Some e"
  shows "\<exists>e'. stored (run_ops st (ops @ rest) empty_db) i = Some e' \<and> frozen e' = frozen e \<and>
     (Processed e \<longrightarrow> e' = e)"
proof -
  have "advances (run_ops st ops empty_db) (fold (apply_op st) rest (run_ops st ops empty_db))"
    using ops.run_inv [of empty_db st ops] unfolding run_ops_def by (intro ops.run_below) simp
  with assms obtain e' where "stored (run_ops st (ops @ rest) empty_db) i = Some e'" "event_step\<^sup>*\<^sup>* e e'"
    by (auto simp: advances_def run_ops_def)
  with event_steps_frozen event_steps_final show ?thesis by blast
qed

definition sample_ops :: "store_op list" where
  "sample_ops = [OpAccept sample_env (sample_event ''e1'')]"

lemma sample_ops_stored:
  "stored (run_ops \<lparr>maxPending = 2\<rparr> sample_ops empty_db) ''e1'' = Some (fresh_event (sample_event ''e1'') 1001)"
  by code_simp

theorem accepted_event_frozen_witness:
  "\<exists>e'. stored (run_ops \<lparr>maxPending = 2\<rparr> (sample_ops @ [OpProcess sample_env 10]) empty_db) ''e1'' = Some e' \<and>
     frozen e' = frozen (fresh_event (sample_event ''e1'') 1001)"
  using accepted_event_frozen [OF sample_ops_stored, of "[OpProcess sample_env 10]"] by blast

text \<open>
  C14. The durable queue never holds more rows than the limit the store was built with.
\<close>

theorem queue_within_limit:
  assumes "NewWithQueueLimit False limit = Inr st"
  shows "int (length (pending_events (run_ops st ops empty_db))) \<le> sint limit"
proof -
  from assms have st: "maxPending st = limit" "1 \<le> sint limit"
    by (auto simp: NewWithQueueLimit_def split: if_splits)
  have "length (pending_events empty_db) = 0" by (simp add: empty_db_def)
  with st have "within_limit st empty_db" by (simp add: within_limit_def)
  from limit.run_inv [OF this, of ops] st show ?thesis by (simp add: within_limit_def run_ops_def)
qed

theorem queue_within_limit_witness:
  "int (length (pending_events (run_ops \<lparr>maxPending = 2\<rparr>
     [OpAccept sample_env (sample_event ''e1''), OpAccept sample_env (sample_event ''e2''),
      OpAccept sample_env (sample_event ''e3'')] empty_db))) \<le> sint (2 :: int64)"
  by (rule queue_within_limit) (simp add: NewWithQueueLimit_def)




section \<open>Acceptance\<close>

text \<open>
  C5. A newly accepted event was valid input, had an unused identifier, and is stored with the
  service's rate and the exact product of units and rate: the overflow test before the
  multiplication leaves no wrap-around.
\<close>

theorem accepted_price_exact:
  assumes "store_inv d" and "0 < sint rate"
    and "service_Accept \<lparr>svc_repo = pg_repository st, svc_rate = rate\<rparr> rand c inp d = Return (Inr (e, True), d')"
  shows "valid_input inp \<and> Input e = inp \<and> UnitPriceMicros e = rate \<and> Currency e = ''USD'' \<and>
     sint (AmountMicros e) = sint (Units inp) * sint rate \<and>
     stored d (EventID inp) = None \<and> stored d' = (stored d)(EventID inp \<mapsto> e)"
  using pg.Accept_created [OF assms(1) _ _ assms(3)] assms(2) by simp

lemma first_accept_eq:
  "service_Accept \<lparr>svc_repo = pg_repository \<lparr>maxPending = 2\<rparr>, svc_rate = 250\<rparr> None (sample_ctx sample_env)
     (sample_input ''e1'' 4) empty_db =
   Return (Inr (fresh_event (sample_event ''e1'') 1001, True), run_ops \<lparr>maxPending = 2\<rparr> sample_ops empty_db)"
  by code_simp

theorem accepted_price_exact_witness:
  "sint (AmountMicros (fresh_event (sample_event ''e1'') 1001)) = sint (4 :: int64) * sint (250 :: int64)"
  using accepted_price_exact [OF store_inv_empty _ first_accept_eq] by (simp add: sample_input_def)




text \<open>
  A conflict is reported only for an identifier that is kept for a different input, and
  changes no table.
\<close>

lemma conflict_is_genuine:
  assumes "store_inv d" and "0 < sint rate"
    and "service_Accept \<lparr>svc_repo = pg_repository st, svc_rate = rate\<rparr> rand c inp d = Return (Inl err, d')"
    and "errors_is err ErrConflict"
  shows "(\<exists>e. stored d (EventID inp) = Some e \<and> Input e \<noteq> inp) \<and> d' = d"
  using pg.Accept_conflict [OF assms(1) _ _ assms(3,4)] assms(2) by simp

lemma conflict_accept_eq:
  "service_Accept \<lparr>svc_repo = pg_repository \<lparr>maxPending = 2\<rparr>, svc_rate = 250\<rparr> None (sample_ctx sample_env)
     (sample_input ''e1'' 5) two_accepted =
   Return (Inl (Wrap ''accept usage'' (Wrap ''accept usage'' ErrConflict)), two_accepted)"
  by code_simp

text \<open>
  What the service validates is what the schema checks: the row of a priced valid input
  passes every constraint of \<open>usage_events\<close>, so a check never rejects it.
\<close>

lemma priced_input_passes_schema:
  assumes "valid_input inp" and "0 < sint rate" and "fits rate inp" and "rid = [] \<or> request_id_ok rid"
  shows "usage_check (usage_row_of (priced_event rate rid inp) now)"
  using assms by (rule priced_row_check)

text \<open>
  C21. The decision of \<open>Store.Accept\<close> when the database answers: an identifier already kept is
  replayed or conflicts, a new one is refused when the queue is full and otherwise inserted
  together with its queue row.
\<close>

theorem accept_decision:
  assumes "healthy env" and "store_inv d" and "usage_check (usage_row_of ev 0)"
  shows "store_Accept st env ev d =
    (case stored d (EventID (Input ev)) of
       Some e \<Rightarrow> (if Input e = Input ev then (Inr (e, False), d) else (Inl (Wrap ''accept usage'' ErrConflict), d))
     | None \<Rightarrow> (if queue_full st d then (Inl (Wrap ''accept usage'' ErrQueueFull), d)
              else (Inr (fresh_event ev (env_clock env 1), True),
                    admitted ev (env_clock env 1) (env_clock env 4) d)))"
  using assms by (rule store_Accept_healthy)

theorem accept_decision_witness:
  "store_Accept \<lparr>maxPending = 2\<rparr> sample_env (sample_event ''e3'') two_accepted =
     (Inl (Wrap ''accept usage'' ErrQueueFull), two_accepted)"
proof -
  have "usage_check (usage_row_of (sample_event ''e3'') 0)" by code_simp
  from accept_decision [OF sample_env_healthy(1) two_accepted_inv this, of "\<lparr>maxPending = 2\<rparr>"]
  show ?thesis
  proof (rule trans)
    have "stored two_accepted (EventID (Input (sample_event ''e3''))) = None" by code_simp
    moreover have "queue_full \<lparr>maxPending = 2\<rparr> two_accepted" by code_simp
    ultimately show "(case stored two_accepted (EventID (Input (sample_event ''e3''))) of
       Some e \<Rightarrow> (if Input e = Input (sample_event ''e3'') then (Inr (e, False), two_accepted)
                 else (Inl (Wrap ''accept usage'' ErrConflict), two_accepted))
     | None \<Rightarrow> (if queue_full \<lparr>maxPending = 2\<rparr> two_accepted then (Inl (Wrap ''accept usage'' ErrQueueFull), two_accepted)
              else (Inr (fresh_event (sample_event ''e3'') (env_clock sample_env 1), True),
                    admitted (sample_event ''e3'') (env_clock sample_env 1) (env_clock sample_env 4) two_accepted))) =
      (Inl (Wrap ''accept usage'' ErrQueueFull), two_accepted)" by simp
  qed
qed

text \<open>
  C15. Atomicity under failures: when \<open>Store.Accept\<close> returns an error, the tables are unchanged,
  unless the error is an infrastructure one and the COMMIT had taken effect unnoticed; then the
  usage row and its queue row are both there, and the queue had room.
\<close>

theorem accept_error_atomic:
  assumes "store_inv d" and "store_Accept st env ev d = (Inl err, d')"
  shows "d' = d \<or> infra err \<and> EventID (Input ev) \<notin> set (usage_ids d) \<and> \<not> queue_full st d \<and>
     (\<exists>now1 now2. d' = admitted ev now1 now2 d)"
  using assms(2,1) by (cases rule: store_Accept_cases) auto

lemma lost_commit_eq:
  "store_Accept \<lparr>maxPending = 2\<rparr> (lost_commit_env 6) (sample_event ''e1'') empty_db =
    (Inl (Wrap ''accept usage'' (Wrap ''commit transaction'' (Driver DeadlineExceeded))),
     admitted (sample_event ''e1'') 1001 1004 empty_db)"
  by code_simp

theorem accept_error_atomic_witness:
  "\<exists>now1 now2. admitted (sample_event ''e1'') 1001 1004 empty_db = admitted (sample_event ''e1'') now1 now2 empty_db"
proof -
  have "admitted (sample_event ''e1'') 1001 1004 empty_db \<noteq> empty_db"
    by (simp add: admitted_def empty_db_def)
  with accept_error_atomic [OF store_inv_empty lost_commit_eq] show ?thesis by blast
qed


section \<open>Processing\<close>

text \<open>
  C6. A batch with a limit in range never fails while the database answers and the ledger only
  reports integrity violations. It settles exactly the claimed events: those the ledger takes
  are posted and leave the queue, for each of the others one failure is counted; all other
  events are untouched, and the reported count and outcomes say which is which.
\<close>

theorem batch_settles_claims:
  assumes "healthy env" and "integrity_violations env" and "1 \<le> limit" and "limit \<le> 1000" and "store_inv d"
    and "ProcessBatchWithResults env limit d = (err, res, d')"
  shows "err = None \<and>
     stored d' = attempted (env_violation env) (set (claimed_ids env limit d)) (stored d) \<and>
     pending_ids d' = filter (\<lambda>i. \<not> (i \<in> set (claimed_ids env limit d) \<and> env_violation env i = None)) (pending_ids d) \<and>
     br_Processed res = int (length (filter (\<lambda>i. env_violation env i = None) (claimed_ids env limit d))) \<and>
     br_Events res = map2 (reported (env_violation env)) (claimed_ids env limit d) (claimed_events env limit d)"
  using ProcessBatch_healthy [OF assms(1-5)] assms(6)
  by (auto simp: batch_done_def batch_inv_def)

definition after_rejecting_batch :: db where
  "after_rejecting_batch = snd (snd (ProcessBatchWithResults rejecting_env 10 two_accepted))"

theorem batch_settles_claims_witness:
  "stored after_rejecting_batch = attempted (env_violation rejecting_env) {''e1'', ''e2''} (stored two_accepted)"
proof -
  obtain err res where "ProcessBatchWithResults rejecting_env 10 two_accepted = (err, res, after_rejecting_batch)"
    unfolding after_rejecting_batch_def by (metis prod.collapse)
  from batch_settles_claims [OF sample_env_healthy(2) sample_env_integrity(2) _ _ two_accepted_inv this]
  have "stored after_rejecting_batch = attempted (env_violation rejecting_env)
      (set (claimed_ids rejecting_env 10 two_accepted)) (stored two_accepted)" by simp
  moreover have "claimed_ids rejecting_env 10 two_accepted = [''e1'', ''e2'']" by code_simp
  ultimately show ?thesis by simp
qed

text \<open>
  Whatever the environment, a batch claims at most \<open>limit\<close> different events, only queued
  ones that are not locked and not quarantined.
\<close>

lemma claim_bounds:
  assumes "store_inv d" and "0 \<le> limit"
  shows "int (length (claimed_ids env limit d)) \<le> limit \<and> distinct (claimed_ids env limit d) \<and>
     set (claimed_ids env limit d) \<subseteq> {i \<in> set (pending_ids d). \<not> env_locked env i \<and>
       (\<exists>e. stored d i = Some e \<and> waiting e)}"
proof -
  have "\<not> env_locked env i \<and> (\<exists>e. stored d i = Some e \<and> waiting e)" if i: "i \<in> set (claimed_ids env limit d)" for i
  proof -
    from i obtain p where p: "p \<in> set (claimed_rows env limit d)" "i = p_event_id p"
      by (auto simp: claimed_ids_def)
    obtain e where e: "stored d i = Some e" "\<not> Processed e" "ProcessingFailures e < 3"
      using claimed_event_state [OF assms(1) i] by blast
    from e(1,3) have "\<not> Failed e" by (auto simp: stored_def split: option.splits)
    with e claimed_rows_props(3) [OF p(1)] p(2) show ?thesis by (simp add: waiting_def)
  qed
  with assms show ?thesis
    using claimed_ids_pending [of env limit d] by (auto simp: length_claimed_ids distinct_claimed_ids)
qed

text \<open>
  C31. A batch that returns an error reports nothing as processed and reveals of the claimed
  events no more than their request identifiers; the tables are unchanged, or hold the whole
  effect of the batch when its COMMIT had taken effect unnoticed.
\<close>

theorem failed_batch_unconfirmed:
  assumes "store_inv d" and "ProcessBatchWithResults env limit d = (Some err, res, d')"
  shows "br_Processed res = 0 \<and>
     (\<forall>ev\<in>set (br_Events res). ev = zero_processing_event\<lparr>pe_RequestID := pe_RequestID ev\<rparr>) \<and>
     (d' = d \<or> (\<exists>viol n evs. batch_done env limit d viol n evs d'))"
  using assms(2,1)
proof (cases rule: ProcessBatch_cases)
  case invalid
  then show ?thesis by (simp add: zero_batch_result_def)
next
  case (failed e k)
  then show ?thesis by (auto simp: unconfirmed_event_def)
next
  case (unconfirmed e k viol n evs)
  then show ?thesis by (auto simp: unconfirmed_event_def)
qed simp

definition broken_batch :: "go_error option \<times> batch_result \<times> db" where
  "broken_batch = ProcessBatchWithResults (lost_commit_env 3) 10 two_accepted"

theorem failed_batch_unconfirmed_witness: "br_Processed (fst (snd broken_batch)) = 0"
proof -
  have "fst broken_batch \<noteq> None" by code_simp
  then obtain err res d' where "broken_batch = (Some err, res, d')" by (metis option.exhaust prod.collapse)
  with failed_batch_unconfirmed [OF two_accepted_inv, of "lost_commit_env 3" 10 err res d']
  show ?thesis by (simp add: broken_batch_def)
qed

text \<open>
  C33. A quarantined event is out of the worker's reach: no batch changes it.
\<close>

theorem quarantine_isolates:
  assumes "store_inv d" and "stored d i = Some e" and "Failed e"
  shows "stored (snd (snd (ProcessBatchWithResults env limit d))) i = Some e"
proof -
  obtain err res d' where run: "ProcessBatchWithResults env limit d = (err, res, d')" by (metis prod_cases3)
  have ni: "i \<notin> set (claimed_ids env limit d)"
  proof
    assume "i \<in> set (claimed_ids env limit d)"
    from claimed_event_state [OF assms(1) this] assms(2) have "ProcessingFailures e < 3" by auto
    with assms(2,3) show False by (auto simp: stored_def split: option.splits)
  qed
  have "stored d' i = Some e" if "batch_done env limit d viol n evs d'" for viol n evs
    using that ni assms(2) by (simp add: batch_done_def batch_inv_def attempted_def)
  with run assms(1) have "stored d' i = Some e"
    by (cases rule: ProcessBatch_cases) (use assms(2) in auto)
  with run show ?thesis by simp
qed

definition quarantined_db :: db where
  "quarantined_db = run_batches 10 [rejecting_env, rejecting_env, rejecting_env] two_accepted"

lemma quarantined_db_inv: "store_inv quarantined_db"
  unfolding quarantined_db_def by (rule run_batches_inv) simp

theorem quarantine_isolates_witness:
  "map_option Failed (stored (snd (snd (ProcessBatchWithResults sample_env 10 quarantined_db))) ''e2'') = Some True"
proof -
  have "map_option Failed (stored quarantined_db ''e2'') = Some True" by code_simp
  then obtain e where "stored quarantined_db ''e2'' = Some e" "Failed e" by auto
  from quarantine_isolates [OF quarantined_db_inv this, of sample_env 10] this show ?thesis by simp
qed

text \<open>
  C30. Liveness: while the database answers, nothing else holds locks and the ledger only
  reports integrity violations, as many batches as there are attempts left in the queue leave
  no event waiting: each is posted or quarantined.
\<close>

theorem queue_drains:
  assumes "store_inv d" and "1 \<le> limit" and "limit \<le> 1000" and "\<forall>env\<in>set envs. good_env env"
    and "work d \<le> length envs" and "stored (run_batches limit envs d) i = Some e"
  shows "\<not> waiting e"
proof -
  have "drained (run_batches limit envs d)"
    using assms by (intro run_batches_drains) auto
  then show ?thesis using run_batches_inv [OF assms(1)] assms(6) by (rule drained_stored)
qed

theorem queue_drains_witness:
  "map_option waiting (stored (run_batches 1 (replicate 6 rejecting_env) two_accepted) ''e2'') = Some False"
proof -
  have "work two_accepted \<le> length (replicate 6 rejecting_env)" by code_simp
  note drains = queue_drains [OF two_accepted_inv _ _ _ this, of 1]
  have "stored (run_batches 1 (replicate 6 rejecting_env) two_accepted) ''e2'' \<noteq> None" by code_simp
  then obtain e where "stored (run_batches 1 (replicate 6 rejecting_env) two_accepted) ''e2'' = Some e" by blast
  with drains show ?thesis by simp
qed

section \<open>Recovery\<close>

text \<open>
  C22. The decision of \<open>Store.Retry\<close> when the database answers: only a quarantined event of the
  given generation is reactivated; a repeated request and a posted event are answered unchanged;
  anything else is a conflict, an unknown identifier not found, bad arguments invalid.
\<close>

theorem retry_decision:
  assumes "healthy env" and "store_inv d"
  shows "store_Retry env i g d =
    (if \<not> retry_args_ok i g then (Inl ErrInvalid, d) else
     (case pending_of d i of
        None \<Rightarrow> (case stored d i of
                  None \<Rightarrow> (Inl (Wrap ''retry failed event'' ErrNotFound), d)
                | Some e \<Rightarrow> (Inr (e, False), d))
      | Some p \<Rightarrow>
          (if retryable p g then
             (Inr (reactivate_event (the (stored d i)), True), reactivated i (env_clock env 2) d)
           else if already_retried p g then (Inr (the (stored d i), False), d)
           else (Inl (Wrap ''retry failed event'' ErrRetryConflict), d))))"
  using assms by (rule store_Retry_healthy)

theorem retry_decision_witness:
  "fst (store_Retry sample_env ''e9'' 0 quarantined_db) = Inl (Wrap ''retry failed event'' ErrNotFound)"
proof -
  have "pending_of quarantined_db ''e9'' = None" "stored quarantined_db ''e9'' = None" "retry_args_ok ''e9'' 0"
    by code_simp+
  with retry_decision [OF sample_env_healthy(1) quarantined_db_inv, of "''e9''" 0] show ?thesis by simp
qed

text \<open>
  C32. Retry is idempotent: once a retry has reactivated an event, the same request again
  answers with that event, does not reactivate it a second time and changes nothing.
\<close>

theorem retry_idempotent:
  assumes "store_inv d" and "store_Retry env i g d = (Inr (e, True), d')" and "healthy env'"
  shows "store_Retry env' i g d' = (Inr (e, False), d')"
proof -
  from assms(2,1) show ?thesis
  proof (cases rule: store_Retry_cases)
    case (reactivated now p e0)
    have inv': "store_inv d'" using store_Retry_inv [OF assms(1), of env i g] assms(2) by simp
    have p': "pending_of d' i = Some (reactivate_row now p)"
      using reactivated find_key_map [of p_event_id "reactivate_row now" i i "pending_events d"]
      by (simp add: pending_of_def reactivated_def)
    have "\<not> retryable (reactivate_row now p) g" "already_retried (reactivate_row now p) g"
      using reactivated by (auto simp: retryable_def already_retried_def reactivate_row_def)
    moreover have "stored d' i = Some e"
      using reactivated stored_reactivated [OF assms(1) reactivated(3)] by simp
    ultimately show ?thesis
      using store_Retry_healthy [OF assms(3) inv', of i g] p' reactivated(1) by simp
  qed simp_all
qed

definition retried_db :: db where
  "retried_db = snd (store_Retry sample_env ''e2'' 0 quarantined_db)"

theorem retry_idempotent_witness: "snd (store_Retry sample_env ''e2'' 0 retried_db) = retried_db"
proof -
  have "case fst (store_Retry sample_env ''e2'' 0 quarantined_db) of Inr (e, b) \<Rightarrow> b | Inl err \<Rightarrow> False"
    by code_simp
  then obtain e where "store_Retry sample_env ''e2'' 0 quarantined_db = (Inr (e, True), retried_db)"
    unfolding retried_db_def by (auto split: sum.splits prod.splits simp: prod_eq_iff)
  from retry_idempotent [OF quarantined_db_inv this sample_env_healthy(1)] show ?thesis by simp
qed

section \<open>Readers\<close>

text \<open>
  C26. The customer summary is exact: as decimal texts of unbounded integers, the units and the
  amounts of precisely the posted events of that customer, and the numbers of its events that
  wait, are posted and are quarantined.
\<close>

theorem summary_exact:
  assumes "store_inv d" and "env_fault env 0 = None"
  shows "store_Summary env customer d = Inr (summary_spec customer (customer_events customer d))"
  using assms by (rule store_Summary_spec)

theorem summary_exact_witness:
  "store_Summary sample_env ''acme'' after_rejecting_batch =
     Inr \<lparr>sm_CustomerID = ''acme'', sm_Currency = ''USD'', sm_Units = ''4'', sm_AmountMicros = ''1000'',
          sm_Pending = 1, sm_Processed = 1, sm_Failed = 0\<rparr>"
proof -
  have "store_inv after_rejecting_batch"
    unfolding after_rejecting_batch_def by (rule ProcessBatch_inv) simp
  moreover have "summary_spec ''acme'' (customer_events ''acme'' after_rejecting_batch) =
      \<lparr>sm_CustomerID = ''acme'', sm_Currency = ''USD'', sm_Units = ''4'', sm_AmountMicros = ''1000'',
       sm_Pending = 1, sm_Processed = 1, sm_Failed = 0\<rparr>" by code_simp
  ultimately show ?thesis using summary_exact [of after_rejecting_batch sample_env "''acme''"]
    by (simp add: sample_env_def)
qed

text \<open>
  The three counts of a summary add up to the number of events of the customer.
\<close>

lemma summary_counts_complete:
  assumes "store_inv d" and "store_Summary env customer d = Inr s"
  shows "sm_Pending s + sm_Processed s + sm_Failed s = int (length (customer_events customer d))"
proof -
  have "env_fault env 0 = None"
    using assms(2) by (cases "env_fault env 0") (auto simp: store_Summary_def pool_query_def)
  with store_Summary_spec [OF assms(1)] assms(2)
  have "s = summary_spec customer (customer_events customer d)" by simp
  with summary_spec_counts [of "customer_events customer d" customer] customer_events_states [OF assms(1)]
  show ?thesis by simp
qed

lemma summary_counts_complete_sample:
  "int (length (customer_events ''acme'' two_accepted)) = 2"
proof -
  have "store_Summary sample_env ''acme'' two_accepted =
    Inr \<lparr>sm_CustomerID = ''acme'', sm_Currency = ''USD'', sm_Units = ''0'', sm_AmountMicros = ''0'',
         sm_Pending = 2, sm_Processed = 0, sm_Failed = 0\<rparr>" by code_simp
  from summary_counts_complete [OF two_accepted_inv this] show ?thesis by simp
qed

text \<open>
  The queue metrics: the two counts cover the queue, the age is never negative and at least
  that of every eligible event.
\<close>

lemma queue_stats_sound:
  assumes "store_inv d" and "store_QueueStats env d = Inr (pending, failed, age)"
  shows "pending + failed = int (length (pending_events d)) \<and> 0 \<le> age \<and>
     (\<forall>p\<in>set (pending_events d). p_processing_failures p < 3 \<longrightarrow> env_clock env 0 - p_enqueued_at p \<le> age)"
proof -
  have "env_fault env 0 = None"
    using assms(2) by (cases "env_fault env 0") (auto simp: store_QueueStats_def pool_query_def)
  then show ?thesis using assms by (rule store_QueueStats_counts)
qed

end
