(* ===== verification/Go_Json.thy ===== *)
theory Go_Json
  imports Go_Text
begin

text \<open>
  The part of Go's \<open>encoding/json\<close> and \<open>unicode/utf8\<close> the request decoders use: the token
  stream of \<open>json.Decoder\<close> (\<open>Token\<close>, \<open>More\<close>) and \<open>Decode\<close> into a raw message, on strings as
  lists of bytes. A string token is unquoted, a number token is its text (\<open>UseNumber\<close>; the
  decoder that does not set it never looks at a number token). An object or array as a raw
  message is an error here: both callers turn every raw value into a string or an int64, which
  fails for it with the same result.
\<close>

section \<open>Bytes\<close>

definition in_range :: "nat \<Rightarrow> nat \<Rightarrow> char \<Rightarrow> bool" where
  "in_range a b c \<longleftrightarrow> a \<le> of_char c \<and> of_char c \<le> b"

text \<open>\<open>utf8.Valid\<close>: the well-formed sequences of one to four bytes.\<close>

fun utf8_valid :: "string \<Rightarrow> bool" where
  "utf8_valid [] = True"
| "utf8_valid (a # s) =
     (if in_range 0 127 a then utf8_valid s
      else case s of
        [] \<Rightarrow> False
      | b # s2 \<Rightarrow>
          (if in_range 194 223 a then in_range 128 191 b \<and> utf8_valid s2
           else case s2 of
             [] \<Rightarrow> False
           | c # s3 \<Rightarrow>
               (if in_range 224 239 a then
                  in_range (if of_char a = (224 :: nat) then 160 else 128) (if of_char a = (237 :: nat) then 159 else 191) b \<and>
                  in_range 128 191 c \<and> utf8_valid s3
                else case s3 of
                  [] \<Rightarrow> False
                | d # s4 \<Rightarrow>
                    in_range 240 244 a \<and>
                    in_range (if of_char a = (240 :: nat) then 144 else 128) (if of_char a = (244 :: nat) then 143 else 191) b \<and>
                    in_range 128 191 c \<and> in_range 128 191 d \<and> utf8_valid s4)))"

text \<open>\<open>utf8.AppendRune\<close> of a code point that is not a surrogate.\<close>

definition utf8_rune :: "nat \<Rightarrow> string" where
  "utf8_rune u =
     (if u < 128 then [char_of u]
      else if u < 2048 then [char_of (192 + u div 64), char_of (128 + u mod 64)]
      else if u < 65536 then
        [char_of (224 + u div 4096), char_of (128 + u div 64 mod 64), char_of (128 + u mod 64)]
      else [char_of (240 + u div 262144), char_of (128 + u div 4096 mod 64),
            char_of (128 + u div 64 mod 64), char_of (128 + u mod 64)])"

definition is_space :: "char \<Rightarrow> bool" where
  "is_space c \<longleftrightarrow> c = CHR '' '' \<or> c = CHR 0x09 \<or> c = CHR 0x0D \<or> c = CHR 0x0A"

section \<open>Scalars\<close>

definition get_u4 :: "string \<Rightarrow> (nat \<times> string) option" where
  "get_u4 s = (case map hex_value (take 4 s) of
     [Some a, Some b, Some c, Some d] \<Rightarrow> Some (4096 * a + 256 * b + 16 * c + d, drop 4 s)
   | _ \<Rightarrow> None)"

text \<open>A low surrogate escape after the high surrogate \<open>u\<close>, as \<open>utf16.DecodeRune\<close> pairs them.\<close>

definition low_surrogate :: "nat \<Rightarrow> string \<Rightarrow> (nat \<times> string) option" where
  "low_surrogate u s = (case s of
     a # b # s' \<Rightarrow>
       (if a = CHR 0x5C \<and> b = CHR ''u'' \<and> u < 56320 then
          (case get_u4 s' of
             Some (l, s'') \<Rightarrow>
               (if 56320 \<le> l \<and> l < 57344 then Some ((u - 55296) * 1024 + (l - 56320) + 65536, s'') else None)
           | None \<Rightarrow> None)
        else None)
   | _ \<Rightarrow> None)"

definition escaped :: "char \<Rightarrow> char option" where
  "escaped c =
     (if c = CHR 0x22 \<or> c = CHR 0x5C \<or> c = CHR ''/'' then Some c
      else if c = CHR ''b'' then Some (CHR 0x08)
      else if c = CHR ''f'' then Some (CHR 0x0C)
      else if c = CHR ''n'' then Some (CHR 0x0A)
      else if c = CHR ''r'' then Some (CHR 0x0D)
      else if c = CHR ''t'' then Some (CHR 0x09)
      else None)"

lemma get_u4_length: "get_u4 s = Some (u, s') \<Longrightarrow> length s' < length s"
proof -
  assume g: "get_u4 s = Some (u, s')"
  then have "s' = drop 4 s" "s \<noteq> []" by (auto simp: get_u4_def split: list.splits option.splits)
  then show ?thesis by (cases s) auto
qed

lemma low_surrogate_length: "low_surrogate u s = Some (r, s') \<Longrightarrow> length s' < length s"
  by (auto simp: low_surrogate_def split: list.splits if_splits option.splits dest!: get_u4_length)

text \<open>A string after its opening quote: its value and the text after the closing quote.\<close>

function read_string :: "string \<Rightarrow> (string \<times> string) option" where
  "read_string [] = None"
| "read_string (c # s) =
     (if c = CHR 0x22 then Some ([], s)
      else if c = CHR 0x5C then
        (case s of
           [] \<Rightarrow> None
         | e # s' \<Rightarrow>
             (if e = CHR ''u'' then
                (case get_u4 s' of
                   None \<Rightarrow> None
                 | Some (u, s'') \<Rightarrow>
                     (if 55296 \<le> u \<and> u < 57344 then
                        (case low_surrogate u s'' of
                           Some (r, s3) \<Rightarrow> map_option (\<lambda>(v, t). (utf8_rune r @ v, t)) (read_string s3)
                         | None \<Rightarrow> map_option (\<lambda>(v, t). (utf8_rune 65533 @ v, t)) (read_string s''))
                      else map_option (\<lambda>(v, t). (utf8_rune u @ v, t)) (read_string s'')))
              else (case escaped e of
                      Some b \<Rightarrow> map_option (\<lambda>(v, t). (b # v, t)) (read_string s')
                    | None \<Rightarrow> None)))
      else if of_char c < (32 :: nat) then None
      else map_option (\<lambda>(v, t). (c # v, t)) (read_string s))"
  by pat_completeness auto

termination
  by (relation "measure length") (auto dest!: get_u4_length low_surrogate_length)

text \<open>A number: an optional minus, an integer part, an optional fraction and exponent.\<close>

definition read_int_part :: "string \<Rightarrow> (string \<times> string) option" where
  "read_int_part s = (case s of
     [] \<Rightarrow> None
   | c # r \<Rightarrow> (if c = CHR ''0'' then Some ([c], r)
              else if is_digit c then Some (takeWhile is_digit s, dropWhile is_digit s)
              else None))"

definition read_fraction :: "string \<Rightarrow> (string \<times> string) option" where
  "read_fraction s = (case s of
     [] \<Rightarrow> Some ([], s)
   | c # r \<Rightarrow> (if c \<noteq> CHR ''.'' then Some ([], s)
              else if takeWhile is_digit r = [] then None
              else Some (c # takeWhile is_digit r, dropWhile is_digit r)))"

definition read_exponent :: "string \<Rightarrow> (string \<times> string) option" where
  "read_exponent s = (case s of
     [] \<Rightarrow> Some ([], s)
   | c # r \<Rightarrow>
       (if c \<noteq> CHR ''e'' \<and> c \<noteq> CHR ''E'' then Some ([], s)
        else (let (sign, r') = (case r of [] \<Rightarrow> ([], []) | d # r1 \<Rightarrow>
                    (if d = CHR ''+'' \<or> d = CHR ''-'' then ([d], r1) else ([], r)))
              in if takeWhile is_digit r' = [] then None
                 else Some (c # sign @ takeWhile is_digit r', dropWhile is_digit r'))))"

definition read_number :: "string \<Rightarrow> (string \<times> string) option" where
  "read_number s =
     (let (sign, s1) = (case s of [] \<Rightarrow> ([], []) | c # r \<Rightarrow> (if c = CHR ''-'' then ([c], r) else ([], s))) in
      case read_int_part s1 of
        None \<Rightarrow> None
      | Some (a, s2) \<Rightarrow>
     (case read_fraction s2 of
        None \<Rightarrow> None
      | Some (b, s3) \<Rightarrow>
     (case read_exponent s3 of
        None \<Rightarrow> None
      | Some (c, s4) \<Rightarrow> Some (sign @ a @ b @ c, s4))))"

section \<open>The token stream\<close>

datatype json_token = Delim char | TString string | TNumber string | TLiteral string

datatype token_state =
    TopValue | ArrayStart | ArrayValue | ArrayComma
  | ObjectStart | ObjectKey | ObjectColon | ObjectValue | ObjectComma

record decoder =
  dec_buf :: string
  dec_state :: token_state
  dec_stack :: "token_state list"

definition NewDecoder :: "string \<Rightarrow> decoder" where
  "NewDecoder data = \<lparr>dec_buf = data, dec_state = TopValue, dec_stack = []\<rparr>"

datatype token_error = TokEOF | TokSyntax

definition value_allowed :: "token_state \<Rightarrow> bool" where
  "value_allowed st \<longleftrightarrow> st \<in> {TopValue, ArrayStart, ArrayValue, ObjectValue}"

definition value_end :: "token_state \<Rightarrow> token_state" where
  "value_end st = (case st of
     ArrayStart \<Rightarrow> ArrayComma | ArrayValue \<Rightarrow> ArrayComma | ObjectValue \<Rightarrow> ObjectComma | _ \<Rightarrow> st)"

text \<open>\<open>peek\<close>: the buffer from the first byte that is not white space.\<close>

definition skip_space :: "decoder \<Rightarrow> decoder" where
  "skip_space d = d\<lparr>dec_buf := dropWhile is_space (dec_buf d)\<rparr>"

definition read_literal :: "string \<Rightarrow> (string \<times> string) option" where
  "read_literal s =
     (if take 4 s = ''true'' then Some (''true'', drop 4 s)
      else if take 5 s = ''false'' then Some (''false'', drop 5 s)
      else if take 4 s = ''null'' then Some (''null'', drop 4 s)
      else None)"

text \<open>\<open>Decode\<close> of the scalar at the start of the buffer.\<close>

definition read_scalar :: "string \<Rightarrow> (json_token \<times> string) option" where
  "read_scalar s = (case s of
     [] \<Rightarrow> None
   | c # r \<Rightarrow>
       (if c = CHR 0x22 then map_option (\<lambda>(v, t). (TString v, t)) (read_string r)
        else if c = CHR ''-'' \<or> is_digit c then map_option (\<lambda>(v, t). (TNumber v, t)) (read_number s)
        else map_option (\<lambda>(v, t). (TLiteral v, t)) (read_literal s)))"

definition open_delim :: "char \<Rightarrow> token_state \<Rightarrow> decoder \<Rightarrow> token_error + json_token \<times> decoder" where
  "open_delim c st d =
     (if \<not> value_allowed (dec_state d) then Inl TokSyntax
      else Inr (Delim c, d\<lparr>dec_buf := tl (dec_buf d), dec_stack := dec_state d # dec_stack d, dec_state := st\<rparr>))"

definition close_delim :: "char \<Rightarrow> token_state set \<Rightarrow> decoder \<Rightarrow> token_error + json_token \<times> decoder" where
  "close_delim c sts d =
     (if dec_state d \<notin> sts then Inl TokSyntax
      else Inr (Delim c, d\<lparr>dec_buf := tl (dec_buf d), dec_stack := tl (dec_stack d),
             dec_state := value_end (hd (dec_stack d))\<rparr>))"

definition value_token :: "decoder \<Rightarrow> token_error + json_token \<times> decoder" where
  "value_token d =
     (if \<not> value_allowed (dec_state d) then Inl TokSyntax
      else (case read_scalar (dec_buf d) of
              None \<Rightarrow> Inl TokSyntax
            | Some (t, r) \<Rightarrow> Inr (t, d\<lparr>dec_buf := r, dec_state := value_end (dec_state d)\<rparr>)))"

lemma dropWhile_length: "dropWhile P s = c # r \<Longrightarrow> length r < length s"
  using length_dropWhile_le [of P s] by simp

text \<open>\<open>Token\<close>: the loop skips a colon or comma where the state expects one.\<close>

function json_Token :: "decoder \<Rightarrow> token_error + json_token \<times> decoder" where
  "json_Token d0 =
     (let d = skip_space d0 in
      case dec_buf d of
        [] \<Rightarrow> Inl TokEOF
      | c # r \<Rightarrow>
          (if c = CHR ''['' then open_delim c ArrayStart d
           else if c = CHR '']'' then close_delim c {ArrayStart, ArrayComma} d
           else if c = CHR ''{'' then open_delim c ObjectStart d
           else if c = CHR ''}'' then close_delim c {ObjectStart, ObjectComma} d
           else if c = CHR '':'' then
             (if dec_state d \<noteq> ObjectColon then Inl TokSyntax
              else json_Token (d\<lparr>dec_buf := r, dec_state := ObjectValue\<rparr>))
           else if c = CHR '','' then
             (if dec_state d = ArrayComma then json_Token (d\<lparr>dec_buf := r, dec_state := ArrayValue\<rparr>)
              else if dec_state d = ObjectComma then json_Token (d\<lparr>dec_buf := r, dec_state := ObjectKey\<rparr>)
              else Inl TokSyntax)
           else if c = CHR 0x22 \<and> (dec_state d = ObjectStart \<or> dec_state d = ObjectKey) then
             (case read_string r of
                None \<Rightarrow> Inl TokSyntax
              | Some (x, t) \<Rightarrow> Inr (TString x, d\<lparr>dec_buf := t, dec_state := ObjectColon\<rparr>))
           else value_token d))"
  by pat_completeness auto

termination
  by (relation "measure (\<lambda>d. length (dec_buf d))") (auto simp: skip_space_def dest!: dropWhile_length)

declare json_Token.simps [simp del]

definition json_More :: "decoder \<Rightarrow> bool" where
  "json_More d = (case dec_buf (skip_space d) of [] \<Rightarrow> False | c # r \<Rightarrow> c \<noteq> CHR '']'' \<and> c \<noteq> CHR ''}'')"

text \<open>\<open>Decode(&raw)\<close> in the middle of the stream: first the colon or comma that is due.\<close>

definition prepare_decode :: "decoder \<Rightarrow> decoder option" where
  "prepare_decode d0 =
     (let d = skip_space d0 in
      case dec_state d of
        ArrayComma \<Rightarrow> (case dec_buf d of [] \<Rightarrow> None | c # r \<Rightarrow>
            (if c \<noteq> CHR '','' then None else Some (d\<lparr>dec_buf := r, dec_state := ArrayValue\<rparr>)))
      | ObjectColon \<Rightarrow> (case dec_buf d of [] \<Rightarrow> None | c # r \<Rightarrow>
            (if c \<noteq> CHR '':'' then None else Some (d\<lparr>dec_buf := r, dec_state := ObjectValue\<rparr>)))
      | _ \<Rightarrow> Some d0)"

definition decode_raw :: "decoder \<Rightarrow> (json_token \<times> decoder) option" where
  "decode_raw d0 = (case prepare_decode d0 of
     None \<Rightarrow> None
   | Some d1 \<Rightarrow> (case value_token (skip_space d1) of Inl e \<Rightarrow> None | Inr r \<Rightarrow> Some r))"

text \<open>\<open>json.Unmarshal\<close> of a raw scalar into a string or an int64; \<open>null\<close> leaves it as it is.\<close>

definition unmarshal_string :: "json_token \<Rightarrow> string \<Rightarrow> string option" where
  "unmarshal_string t old = (case t of
     TString s \<Rightarrow> Some s | TLiteral l \<Rightarrow> (if l = ''null'' then Some old else None) | _ \<Rightarrow> None)"

definition unmarshal_int64 :: "json_token \<Rightarrow> int64 \<Rightarrow> int64 option" where
  "unmarshal_int64 t old = (case t of
     TNumber n \<Rightarrow> parse_int64 n | TLiteral l \<Rightarrow> (if l = ''null'' then Some old else None) | _ \<Rightarrow> None)"

section \<open>Every step consumes input\<close>

declare read_string.simps(2) [simp del]

text \<open>What one escape or byte leaves to read: \<open>None\<close> is an error.\<close>

lemma read_string_Cons_cases:
  assumes "read_string (c # s) = Some (v, t)"
  obtains (closed) "c = CHR 0x22" "v = []" "t = s"
  | (more_text) s2 v2 where "length s2 \<le> length s" "read_string s2 = Some (v2, t)"
proof -
  show thesis
  proof (cases "c = CHR 0x22 \<or> c \<noteq> CHR 0x5C")
    case True
    with assms that(1) that(2) [of s] show thesis
      by (auto simp: read_string.simps(2) split: if_splits)
  next
    case False
    with assms obtain e s' where s: "s = e # s'"
      by (auto simp: read_string.simps(2) split: list.splits)
    show thesis
    proof (cases "e = CHR ''u''")
      case e: True
      with False assms s obtain u s'' where g: "get_u4 s' = Some (u, s'')"
        by (auto simp: read_string.simps(2) split: option.splits)
      note l = get_u4_length [OF g]
      show thesis
      proof (cases "55296 \<le> u \<and> u < 57344")
        case True
        show thesis
        proof (cases "low_surrogate u s''")
          case None
          with False assms s e g True l that(2) [of s''] show thesis
            by (auto simp: read_string.simps(2))
        next
          case (Some q)
          obtain r s3 where q: "q = (r, s3)" by fastforce
          from low_surrogate_length [of u s'' r s3] Some q l have "length s3 \<le> length s" by (simp add: s)
          with False assms s e g True Some q that(2) [of s3] show thesis
            by (auto simp: read_string.simps(2))
        qed
      next
        case no: False
        with False assms s e g l that(2) [of s''] show thesis
          by (auto simp: read_string.simps(2))
      qed
    next
      case e: False
      with False assms s that(2) [of s'] show thesis
        by (auto simp: read_string.simps(2) split: option.splits)
    qed
  qed
qed

lemma read_string_length: "read_string s = Some (v, t) \<Longrightarrow> length t < length s"
proof (induction s arbitrary: v rule: length_induct)
  case (1 s)
  show ?case
  proof (cases s)
    case Nil
    with 1 show ?thesis by simp
  next
    case (Cons c s1)
    from "1.prems" [unfolded Cons] show ?thesis
    proof (cases rule: read_string_Cons_cases)
      case closed
      then show ?thesis by (simp add: Cons)
    next
      case (more_text s2 v2)
      then have "length s2 < length s" by (simp add: Cons)
      with "1.IH" more_text(2) have "length t < length s2" by blast
      with \<open>length s2 < length s\<close> show ?thesis by simp
    qed
  qed
qed

end
