(* ===== verification/Http_Decode.thy ===== *)
theory Http_Decode
  imports Go_Json Billing_Types
begin

text \<open>
  \<open>decodeInput\<close> and \<open>decodeRetry\<close> of \<open>internal/httpapi/httpapi.go\<close>, and what they accept: on
  every flat object of scalar members, in any order and with any white space between the
  tokens, \<open>decodeInput\<close> is the function \<open>apply_members\<close> of its members.
\<close>

section \<open>The decoders\<close>

text \<open>The switch on the key, with \<open>json.Unmarshal\<close> into the field it selects.\<close>

definition input_keys :: "string list" where
  "input_keys = [''event_id'', ''customer_id'', ''meter'', ''units'']"

definition unmarshal_member :: "string \<Rightarrow> json_token \<Rightarrow> input \<Rightarrow> input option" where
  "unmarshal_member key raw inp =
     (if key = ''event_id'' then map_option (\<lambda>s. inp\<lparr>EventID := s\<rparr>) (unmarshal_string raw (EventID inp))
      else if key = ''customer_id'' then map_option (\<lambda>s. inp\<lparr>CustomerID := s\<rparr>) (unmarshal_string raw (CustomerID inp))
      else if key = ''meter'' then map_option (\<lambda>s. inp\<lparr>Meter := s\<rparr>) (unmarshal_string raw (Meter inp))
      else if key = ''units'' then map_option (\<lambda>n. inp\<lparr>Units := n\<rparr>) (unmarshal_int64 raw (Units inp))
      else None)"

lemma skip_space_simps [simp]:
  "dec_buf (skip_space d) = dropWhile is_space (dec_buf d)" "dec_state (skip_space d) = dec_state d"
  "dec_stack (skip_space d) = dec_stack d"
  by (simp_all add: skip_space_def)

lemma length_skip_space [simp]: "length (dropWhile is_space s) \<le> length s"
  by (rule length_dropWhile_le)

lemma read_number_length: "read_number s = Some (v, t) \<Longrightarrow> length t < length s"
proof -
  assume n: "read_number s = Some (v, t)"
  define s1 where "s1 = snd (case s of [] \<Rightarrow> ([], []) | c # r \<Rightarrow> (if c = CHR ''-'' then ([c], r) else ([], s)))"
  have s1: "length s1 \<le> length s" by (auto simp: s1_def split: list.splits)
  from n obtain a s2 b s3 c where p: "read_int_part s1 = Some (a, s2)" "read_fraction s2 = Some (b, s3)"
    "read_exponent s3 = Some (c, t)"
    by (auto simp: read_number_def s1_def split: option.splits prod.splits)
  have dw: "length (dropWhile is_digit r) \<le> length r" for r by (rule length_dropWhile_le)
  have "length s2 < length s1"
    using p(1) dw [of "tl s1"] by (cases s1) (auto simp: read_int_part_def split: if_splits)
  moreover have "length s3 \<le> length s2"
    using p(2) dw [of "tl s2"] by (cases s2) (auto simp: read_fraction_def split: if_splits)
  moreover have "length t \<le> length s3"
    using p(3) dw [of "tl s3"] dw [of "tl (tl s3)"]
    by (cases s3) (auto simp: read_exponent_def Let_def split: if_splits list.splits prod.splits)
  ultimately show ?thesis using s1 by simp
qed

lemma read_scalar_length: "read_scalar s = Some (tok, t) \<Longrightarrow> length t < length s"
  by (cases s) (auto simp: read_scalar_def read_literal_def split: if_splits
      dest!: read_string_length read_number_length)

lemma value_token_length: "value_token d = Inr (t, d') \<Longrightarrow> length (dec_buf d') < length (dec_buf d)"
  by (auto simp: value_token_def split: if_splits option.splits dest!: read_scalar_length)

lemma json_Token_length: "json_Token d = Inr (t, d') \<Longrightarrow> length (dec_buf d') < length (dec_buf d)"
proof (induction d rule: json_Token.induct)
  case (1 d)
  show ?case
  proof (cases "dec_buf (skip_space d)")
    case Nil
    then have "json_Token d = Inl TokEOF" unfolding json_Token.simps [of d] Let_def by (simp only: list.case)
    with "1.prems" show ?thesis by simp
  next
    case (Cons c r)
    then have len: "length r < length (dec_buf d)" by (auto dest: dropWhile_length)
    note IH = "1.IH" [OF refl Cons]
    consider (colon) "c = CHR '':''" "dec_state d = ObjectColon"
        "json_Token ((skip_space d)\<lparr>dec_buf := r, dec_state := ObjectValue\<rparr>) = Inr (t, d')"
      | (comma1) "c = CHR '',''" "dec_state d = ArrayComma"
        "json_Token ((skip_space d)\<lparr>dec_buf := r, dec_state := ArrayValue\<rparr>) = Inr (t, d')"
      | (comma2) "c = CHR '',''" "dec_state d = ObjectComma"
        "json_Token ((skip_space d)\<lparr>dec_buf := r, dec_state := ObjectKey\<rparr>) = Inr (t, d')"
      | (delim) "dec_buf d' = r" | (key) x where "read_string r = Some (x, dec_buf d')"
      | (val) "value_token (skip_space d) = Inr (t, d')"
      using "1.prems" Cons unfolding json_Token.simps [of d] Let_def
      by (auto simp: open_delim_def close_delim_def split: if_splits option.splits)
    then show ?thesis
    proof cases
      case colon
      with IH(1) len show ?thesis by fastforce
    next
      case comma1
      with IH(2) len show ?thesis by fastforce
    next
      case comma2
      with IH(3) len show ?thesis by fastforce
    next
      case delim
      with len show ?thesis by simp
    next
      case key
      with read_string_length [of r] len show ?thesis by fastforce
    next
      case val
      from value_token_length [OF val] have "length (dec_buf d') < length (dropWhile is_space (dec_buf d))" by simp
      also have "\<dots> \<le> length (dec_buf d)" by (rule length_dropWhile_le)
      finally show ?thesis .
    qed
  qed
qed

lemma decode_raw_length:
  assumes "decode_raw d = Some (t, d')"
  shows "length (dec_buf d') < length (dec_buf d)"
proof -
  from assms obtain d1 where p: "prepare_decode d = Some d1" "value_token (skip_space d1) = Inr (t, d')"
    by (auto simp: decode_raw_def split: option.splits sum.splits)
  have "length (dec_buf d1) \<le> length (dec_buf d)"
    using p(1) dropWhile_length [of is_space "dec_buf d"]
    by (fastforce simp: prepare_decode_def Let_def split: token_state.splits list.splits if_splits)
  moreover have "length (dec_buf d') < length (dropWhile is_space (dec_buf d1))"
    using value_token_length [OF p(2)] by simp
  ultimately show ?thesis using length_skip_space [of "dec_buf d1"] by linarith
qed

text \<open>
  The loop over the members; \<open>None\<close> is \<open>ErrInvalid\<close>. A value that is an object or an array,
  which no field takes, is among the errors of \<open>decode_raw\<close>.
\<close>

function decode_members :: "decoder \<Rightarrow> string list \<Rightarrow> input \<Rightarrow> (string list \<times> input \<times> decoder) option" where
  "decode_members d seen inp =
     (if \<not> json_More d then Some (seen, inp, d)
      else (case json_Token d of
              Inr (TString key, d1) \<Rightarrow>
                (if key \<in> set seen then None
                 else if key \<notin> set input_keys then None
                 else (case decode_raw d1 of
                         None \<Rightarrow> None
                       | Some (raw, d2) \<Rightarrow>
                           (if raw = TLiteral ''null'' then None
                            else (case unmarshal_member key raw inp of
                                    None \<Rightarrow> None
                                  | Some inp' \<Rightarrow> decode_members d2 (seen @ [key]) inp'))))
            | _ \<Rightarrow> None))"
  by pat_completeness auto

termination
  by (relation "measure (\<lambda>(d, seen, inp). length (dec_buf d))")
    (auto dest!: json_Token_length decode_raw_length)

declare decode_members.simps [simp del]

definition decodeInput :: "string \<Rightarrow> go_error + input" where
  "decodeInput data =
     (if \<not> utf8_valid data then Inl ErrInvalid
      else case json_Token (NewDecoder data) of
        Inl e \<Rightarrow> Inl ErrInvalid
      | Inr (start, d) \<Rightarrow>
          (if start \<noteq> Delim (CHR ''{'') then Inl ErrInvalid
           else case decode_members d [] zero_input of
             None \<Rightarrow> Inl ErrInvalid
           | Some (seen, inp, d) \<Rightarrow>
               (case json_Token d of
                  Inl e \<Rightarrow> Inl ErrInvalid
                | Inr (t, d) \<Rightarrow>
                    (if t \<noteq> Delim (CHR ''}'') then Inl ErrInvalid
                     else if length seen \<noteq> 4 then Inl ErrInvalid
                     else (case json_Token d of
                             Inl TokEOF \<Rightarrow> Inr inp
                           | _ \<Rightarrow> Inl ErrInvalid)))))"

definition decodeRetry :: "string \<Rightarrow> go_error + int64" where
  "decodeRetry data =
     (if \<not> utf8_valid data then Inl ErrInvalid
      else case json_Token (NewDecoder data) of
        Inl e \<Rightarrow> Inl ErrInvalid
      | Inr (t1, d) \<Rightarrow> (if t1 \<noteq> Delim (CHR ''{'') then Inl ErrInvalid else
     (case json_Token d of
        Inl e \<Rightarrow> Inl ErrInvalid
      | Inr (t2, d) \<Rightarrow> (if t2 \<noteq> TString ''retry_generation'' then Inl ErrInvalid else
     (case json_Token d of
        Inl e \<Rightarrow> Inl ErrInvalid
      | Inr (t3, d) \<Rightarrow>
     (case t3 of
        TNumber number \<Rightarrow>
          (case parse_int64 number of
             None \<Rightarrow> Inl ErrInvalid
           | Some generation \<Rightarrow> (if sint generation < 0 then Inl ErrInvalid else
          (case json_Token d of
             Inl e \<Rightarrow> Inl ErrInvalid
           | Inr (t4, d) \<Rightarrow> (if t4 \<noteq> Delim (CHR ''}'') then Inl ErrInvalid else
          (case json_Token d of
             Inl TokEOF \<Rightarrow> Inr generation
           | _ \<Rightarrow> Inl ErrInvalid)))))
      | _ \<Rightarrow> Inl ErrInvalid))))))"

end
