(* ===== verification/Http_Render.thy ===== *)
theory Http_Render
  imports Http_Decode "HOL-Library.Multiset"
begin

text \<open>
  Flat JSON objects as text, with the same white space before every token, and what the two
  decoders make of them. \<open>decodeInput\<close> computes \<open>apply_members\<close> of the members, which says
  what is accepted: each of the four keys once, with a value of its type.
\<close>

section \<open>Rendering\<close>

definition plain :: "char \<Rightarrow> bool" where
  "plain c \<longleftrightarrow> in_range 32 126 c \<and> c \<noteq> CHR 0x22 \<and> c \<noteq> CHR 0x5C"

definition quoted :: "string \<Rightarrow> string" where
  "quoted s = CHR 0x22 # s @ [CHR 0x22]"

definition int_text :: "string \<Rightarrow> bool" where
  "int_text n \<longleftrightarrow> (case parse_int64 n of None \<Rightarrow> False | Some w \<Rightarrow> n = show_int (sint w))"

fun token_text :: "json_token \<Rightarrow> string" where
  "token_text (Delim c) = [c]"
| "token_text (TString s) = quoted s"
| "token_text (TNumber n) = n"
| "token_text (TLiteral l) = l"

fun token_ok :: "json_token \<Rightarrow> bool" where
  "token_ok (Delim c) = False"
| "token_ok (TString s) = list_all plain s"
| "token_ok (TNumber n) = int_text n"
| "token_ok (TLiteral l) = (l \<in> {''true'', ''false'', ''null''})"

type_synonym member = "string \<times> json_token"

definition member_ok :: "member \<Rightarrow> bool" where
  "member_ok m \<longleftrightarrow> list_all plain (fst m) \<and> token_ok (snd m)"

definition member_text :: "string \<Rightarrow> member \<Rightarrow> string" where
  "member_text sp m = sp @ quoted (fst m) @ sp @ CHR '':'' # sp @ token_text (snd m)"

fun rest_text :: "string \<Rightarrow> member list \<Rightarrow> string" where
  "rest_text sp [] = sp @ [CHR ''}'']"
| "rest_text sp (m # ms) = sp @ CHR '','' # member_text sp m @ rest_text sp ms"

definition object_text :: "string \<Rightarrow> member list \<Rightarrow> string" where
  "object_text sp ms = sp @ CHR ''{'' # (case ms of
     [] \<Rightarrow> sp @ [CHR ''}''] | m # ms' \<Rightarrow> member_text sp m @ rest_text sp ms') @ sp"

text \<open>What \<open>decodeInput\<close> does with a list of members.\<close>

fun apply_members :: "member list \<Rightarrow> string list \<Rightarrow> input \<Rightarrow> (string list \<times> input) option" where
  "apply_members [] seen inp = Some (seen, inp)"
| "apply_members ((key, raw) # ms) seen inp =
     (if key \<in> set seen \<or> key \<notin> set input_keys \<or> raw = TLiteral ''null'' then None
      else case unmarshal_member key raw inp of
        None \<Rightarrow> None
      | Some inp' \<Rightarrow> apply_members ms (seen @ [key]) inp')"

section \<open>Reading what was rendered\<close>

lemma skip_sp: "list_all is_space sp \<Longrightarrow> \<not> is_space c \<Longrightarrow> dropWhile is_space (sp @ c # r) = c # r"
  by (induction sp) auto

lemma not_space_simps [simp]:
  "\<not> is_space CHR 0x22" "\<not> is_space CHR ''{''" "\<not> is_space CHR ''}''" "\<not> is_space CHR '':''"
  "\<not> is_space CHR '',''"
  by (simp_all add: is_space_def)

lemma read_string_plain: "list_all plain s \<Longrightarrow> read_string (s @ CHR 0x22 # r) = Some (s, r)"
  by (induction s) (auto simp: read_string.simps(2) plain_def in_range_def)

lemma show_nat_leading: "show_nat n = CHR ''0'' # r \<Longrightarrow> r = []"
proof (induction n arbitrary: r rule: show_nat.induct)
  case (1 n)
  show ?case
  proof (cases "n < 10")
    case True
    with "1.prems" show ?thesis by (simp add: show_nat.simps [of n])
  next
    case False
    obtain c q where cq: "show_nat (n div 10) = c # q" by (rule show_nat_first)
    with "1.prems" False have "c = CHR ''0''" by (simp add: show_nat.simps [of n])
    with "1.IH" [OF False] cq have "show_nat (n div 10) = [CHR ''0'']" by simp
    then have "n div 10 = 0" using show_nat_correct [of "n div 10"]
      by (simp add: digits_value_def digit_value_def)
    with False show ?thesis by simp
  qed
qed

definition ends_number :: "string \<Rightarrow> bool" where
  "ends_number r \<longleftrightarrow> (case r of [] \<Rightarrow> True
     | c # _ \<Rightarrow> \<not> is_digit c \<and> c \<noteq> CHR ''.'' \<and> c \<noteq> CHR ''e'' \<and> c \<noteq> CHR ''E'')"

lemma span_digits:
  "list_all is_digit s \<Longrightarrow> ends_number r \<Longrightarrow> takeWhile is_digit (s @ r) = s \<and> dropWhile is_digit (s @ r) = r"
  by (induction s) (auto simp: ends_number_def split: list.splits)

lemma read_int_part_show:
  assumes "ends_number r"
  shows "read_int_part (show_nat n @ r) = Some (show_nat n, r)"
proof -
  obtain c q where cq: "show_nat n = c # q" and c: "is_digit c" by (rule show_nat_first)
  have "list_all is_digit (c # q)" using show_nat_correct [of n] by (simp add: cq)
  from span_digits [OF this assms] show ?thesis
    using c cq show_nat_leading [of n q] by (auto simp: read_int_part_def)
qed

lemma read_number_show:
  assumes "ends_number r"
  shows "read_number (show_int i @ r) = Some (show_int i, r)"
proof -
  have tail: "read_fraction r = Some ([], r)" "read_exponent r = Some ([], r)"
    using assms by (auto simp: read_fraction_def read_exponent_def ends_number_def split: list.splits)
  obtain c q where cq: "show_nat (nat i) = c # q" and c: "is_digit c" by (rule show_nat_first)
  then have "c \<noteq> CHR ''-''" by auto
  with read_int_part_show [OF assms, of "nat i"] read_int_part_show [OF assms, of "nat (- i)"] cq tail
  show ?thesis by (auto simp: read_number_def show_int_def)
qed

lemma show_int_first:
  obtains c q where "show_int i = c # q" and "c = CHR ''-'' \<or> is_digit c"
proof (cases "i < 0")
  case True
  then show thesis using that by (simp add: show_int_def)
next
  case False
  obtain c q where "show_nat (nat i) = c # q" "is_digit c" by (rule show_nat_first)
  with False that show thesis by (simp add: show_int_def)
qed

lemma read_scalar_text:
  assumes "token_ok t" and "ends_number r"
  shows "read_scalar (token_text t @ r) = Some (t, r)"
proof (cases t)
  case (TNumber n)
  with assms obtain w :: int64 where n: "n = show_int (sint w)" by (auto simp: int_text_def split: option.splits)
  obtain c q where cq: "show_int (sint w) = c # q" "c = CHR ''-'' \<or> is_digit c" by (rule show_int_first)
  from cq(2) have "c \<noteq> CHR 0x22" by (auto simp: is_digit_def less_eq_char_def)
  with cq read_number_show [OF assms(2), of "sint w"] show ?thesis
    by (simp add: read_scalar_def TNumber n)
next
  case (TString s)
  with assms read_string_plain [of s r] show ?thesis by (simp add: read_scalar_def quoted_def)
next
  case (TLiteral l)
  with assms show ?thesis
    by (auto simp: read_scalar_def read_literal_def is_digit_def less_eq_char_def)
qed (use assms in simp)

lemma token_text_first:
  assumes "token_ok t"
  obtains c q where "token_text t = c # q" and "\<not> is_space c"
proof (cases t)
  case (TNumber n)
  with assms obtain w :: int64 where n: "n = show_int (sint w)" by (auto simp: int_text_def split: option.splits)
  obtain c q where cq: "show_int (sint w) = c # q" "c = CHR ''-'' \<or> is_digit c" by (rule show_int_first)
  from cq(2) have "\<not> is_space c" by (auto simp: is_digit_def is_space_def less_eq_char_def)
  with cq(1) that show thesis by (simp add: TNumber n)
qed (use assms that in \<open>auto simp: quoted_def is_space_def\<close>)

section \<open>The loop over the members\<close>

lemma Token_key:
  assumes sp: "list_all is_space sp" and k: "list_all plain k" and "dec_state d = ObjectStart \<or> dec_state d = ObjectKey"
    and "dec_buf d = sp @ quoted k @ r"
  shows "json_Token d = Inr (TString k, d\<lparr>dec_buf := r, dec_state := ObjectColon\<rparr>)"
  using assms(3,4) skip_sp [OF sp, of "CHR 0x22" "k @ CHR 0x22 # r"] read_string_plain [OF k, of r]
  by (auto simp: json_Token.simps [of d] Let_def quoted_def skip_space_def)

lemma Token_comma_key:
  assumes sp: "list_all is_space sp" and k: "list_all plain k" and "dec_state d = ObjectComma"
    and "dec_buf d = sp @ CHR '','' # sp @ quoted k @ r"
  shows "json_Token d = Inr (TString k, d\<lparr>dec_buf := r, dec_state := ObjectColon\<rparr>)"
proof -
  let ?d = "(skip_space d)\<lparr>dec_buf := sp @ quoted k @ r, dec_state := ObjectKey\<rparr>"
  have "json_Token d = json_Token ?d"
    using assms(3,4) skip_sp [OF sp, of "CHR '',''" "sp @ quoted k @ r"]
    by (simp add: json_Token.simps [of d] Let_def)
  also have "\<dots> = Inr (TString k, ?d\<lparr>dec_buf := r, dec_state := ObjectColon\<rparr>)"
    using sp k by (intro Token_key) simp_all
  finally show ?thesis by (simp add: skip_space_def)
qed

lemma decode_raw_text:
  assumes sp: "list_all is_space sp" and t: "token_ok t" and r: "ends_number r" and "dec_state d = ObjectColon"
    and "dec_buf d = sp @ CHR '':'' # sp @ token_text t @ r"
  shows "decode_raw d = Some (t, d\<lparr>dec_buf := r, dec_state := ObjectComma\<rparr>)"
proof -
  obtain c q where cq: "token_text t = c # q" "\<not> is_space c" by (rule token_text_first [OF t])
  have "prepare_decode d = Some (d\<lparr>dec_buf := sp @ token_text t @ r, dec_state := ObjectValue\<rparr>)"
    using assms(4,5) skip_sp [OF sp, of "CHR '':''" "sp @ token_text t @ r"]
    by (simp add: prepare_decode_def Let_def skip_space_def)
  moreover have "skip_space (d\<lparr>dec_buf := sp @ token_text t @ r, dec_state := ObjectValue\<rparr>) =
      d\<lparr>dec_buf := token_text t @ r, dec_state := ObjectValue\<rparr>"
    using skip_sp [OF sp cq(2)] by (simp add: skip_space_def cq(1))
  ultimately show ?thesis
    using read_scalar_text [OF t r]
    by (simp add: decode_raw_def value_token_def value_allowed_def value_end_def)
qed

lemma ends_number_rest:
  assumes "list_all is_space sp"
  shows "ends_number (rest_text sp ms @ r)"
proof (cases sp)
  case Nil
  then show ?thesis by (cases ms) (auto simp: ends_number_def is_digit_def less_eq_char_def)
next
  case (Cons c q)
  then have "is_space c" using assms by simp
  then have "\<not> is_digit c \<and> c \<noteq> CHR ''.'' \<and> c \<noteq> CHR ''e'' \<and> c \<noteq> CHR ''E''"
    by (auto simp: is_space_def is_digit_def less_eq_char_def)
  with Cons show ?thesis by (cases ms) (auto simp: ends_number_def)
qed

text \<open>The body of the loop, from the key on.\<close>

lemma decode_members_step:
  assumes "json_More d" and "json_Token d = Inr (TString key, d1)"
    and "decode_raw d1 = Some (raw, d2)"
  shows "decode_members d seen inp =
    (if key \<in> set seen \<or> key \<notin> set input_keys \<or> raw = TLiteral ''null'' then None
     else case unmarshal_member key raw inp of
       None \<Rightarrow> None | Some inp' \<Rightarrow> decode_members d2 (seen @ [key]) inp')"
  using assms by (simp add: decode_members.simps [of d])

lemma decode_members_rest:
  assumes "list_all is_space sp"
  shows "list_all member_ok ms \<Longrightarrow> dec_state d = ObjectComma \<Longrightarrow> dec_buf d = rest_text sp ms @ r \<Longrightarrow>
   decode_members d seen inp =
     map_option (\<lambda>(seen', inp'). (seen', inp', d\<lparr>dec_buf := sp @ CHR ''}'' # r\<rparr>)) (apply_members ms seen inp)"
proof (induction ms arbitrary: d seen inp)
  case Nil
  then have "\<not> json_More d" using skip_sp [OF assms, of "CHR ''}''" r] by (simp add: json_More_def)
  then show ?case using Nil by (simp add: decode_members.simps [of d])
next
  case (Cons m ms)
  obtain key t where m: "m = (key, t)" by fastforce
  let ?after = "sp @ CHR '':'' # sp @ token_text t @ rest_text sp ms @ r"
  have buf: "dec_buf d = sp @ CHR '','' # sp @ quoted key @ ?after"
    using Cons.prems(3) by (simp add: m member_text_def)
  have ok: "list_all plain key" "token_ok t" using Cons.prems(1) by (simp_all add: m member_ok_def)
  have "json_More d"
    using buf skip_sp [OF assms, of "CHR '',''"] by (simp add: json_More_def)
  moreover note Token_comma_key [OF assms ok(1) Cons.prems(2) buf]
  moreover have "decode_raw (d\<lparr>dec_buf := ?after, dec_state := ObjectColon\<rparr>) =
      Some (t, d\<lparr>dec_buf := rest_text sp ms @ r, dec_state := ObjectComma\<rparr>)"
    using decode_raw_text [OF assms ok(2) ends_number_rest [OF assms], of "d\<lparr>dec_buf := ?after, dec_state := ObjectColon\<rparr>" ms r]
    by simp
  ultimately have step: "decode_members d seen inp =
    (if key \<in> set seen \<or> key \<notin> set input_keys \<or> t = TLiteral ''null'' then None
     else case unmarshal_member key t inp of
       None \<Rightarrow> None
     | Some inp' \<Rightarrow> decode_members (d\<lparr>dec_buf := rest_text sp ms @ r, dec_state := ObjectComma\<rparr>) (seen @ [key]) inp')"
    by (rule decode_members_step)
  have "decode_members (d\<lparr>dec_buf := rest_text sp ms @ r, dec_state := ObjectComma\<rparr>) (seen @ [key]) inp' =
      map_option (\<lambda>(seen', inp'). (seen', inp', d\<lparr>dec_buf := sp @ CHR ''}'' # r\<rparr>)) (apply_members ms (seen @ [key]) inp')" for inp'
  proof -
    have same: "d\<lparr>dec_buf := x, dec_state := ObjectComma\<rparr> = d\<lparr>dec_buf := x\<rparr>" for x
      using Cons.prems(2) by (cases d) simp
    show ?thesis using Cons.IH [of "d\<lparr>dec_buf := rest_text sp ms @ r\<rparr>"] Cons.prems(1,2)
      unfolding same by simp
  qed
  then show ?case by (simp add: step m split: option.splits)
qed


section \<open>Whole texts\<close>

lemma utf8_ascii: "list_all (in_range 0 127) s \<Longrightarrow> utf8_valid s"
  by (induction s) auto

lemma ascii_char:
  "is_space c \<Longrightarrow> in_range 0 127 c" "plain c \<Longrightarrow> in_range 0 127 c" "is_digit c \<Longrightarrow> in_range 0 127 c"
  by (elim is_space_def [THEN iffD1, elim_format] disjE, simp_all add: in_range_def)
    (simp_all add: plain_def in_range_def is_digit_def less_eq_char_def)

lemma ascii_pieces:
  "list_all is_space sp \<Longrightarrow> list_all (in_range 0 127) sp"
  "list_all plain s \<Longrightarrow> list_all (in_range 0 127) s"
  "list_all is_digit s \<Longrightarrow> list_all (in_range 0 127) s"
  by (simp_all add: list_all_iff ascii_char)

lemma ascii_show_int: "list_all (in_range 0 127) (show_int i)"
proof -
  have "list_all (in_range 0 127) (show_nat n)" for n
    using show_nat_correct [of n] by (intro ascii_pieces(3)) simp
  then show ?thesis by (simp add: show_int_def in_range_def)
qed

lemma ascii_token: "token_ok t \<Longrightarrow> list_all (in_range 0 127) (token_text t)"
  by (cases t) (auto simp: quoted_def ascii_pieces ascii_show_int int_text_def in_range_def split: option.splits)

lemma ascii_member: "list_all is_space sp \<Longrightarrow> member_ok m \<Longrightarrow> list_all (in_range 0 127) (member_text sp m)"
  by (auto simp: member_text_def member_ok_def quoted_def ascii_pieces ascii_token in_range_def)

lemma ascii_rest: "list_all is_space sp \<Longrightarrow> list_all member_ok ms \<Longrightarrow> list_all (in_range 0 127) (rest_text sp ms)"
  by (induction ms) (auto simp: ascii_pieces ascii_member in_range_def)

lemma object_text_valid: "list_all is_space sp \<Longrightarrow> list_all member_ok ms \<Longrightarrow> utf8_valid (object_text sp ms)"
  by (intro utf8_ascii) (auto simp: object_text_def ascii_pieces ascii_member ascii_rest in_range_def split: list.splits)

text \<open>The opening brace, the closing one, and the end.\<close>

lemma Token_open:
  "list_all is_space sp \<Longrightarrow> json_Token (NewDecoder (sp @ CHR ''{'' # r)) =
     Inr (Delim CHR ''{'', \<lparr>dec_buf = r, dec_state = ObjectStart, dec_stack = [TopValue]\<rparr>)"
  unfolding NewDecoder_def
  by (simp add: json_Token.simps [of "\<lparr>dec_buf = sp @ CHR ''{'' # r, dec_state = TopValue, dec_stack = []\<rparr>"]
      Let_def skip_sp open_delim_def value_allowed_def skip_space_def)

lemma Token_close:
  "list_all is_space sp \<Longrightarrow> st = ObjectStart \<or> st = ObjectComma \<Longrightarrow>
   json_Token \<lparr>dec_buf = sp @ CHR ''}'' # r, dec_state = st, dec_stack = [TopValue]\<rparr> =
     Inr (Delim CHR ''}'', \<lparr>dec_buf = r, dec_state = TopValue, dec_stack = []\<rparr>)"
  by (auto simp: json_Token.simps [of "\<lparr>dec_buf = sp @ CHR ''}'' # r, dec_state = st, dec_stack = [TopValue]\<rparr>"]
      Let_def skip_sp close_delim_def value_end_def skip_space_def)

lemma Token_end: "list_all is_space (dec_buf d) \<Longrightarrow> json_Token d = Inl TokEOF"
proof -
  assume "list_all is_space (dec_buf d)"
  then have "dropWhile is_space (dec_buf d) = []" by (simp add: list_all_iff)
  then show ?thesis by (simp add: json_Token.simps [of d] Let_def del: dropWhile_eq_Nil_conv)
qed

text \<open>After the brace: the key and the colon of the first member.\<close>

lemma first_member:
  assumes sp: "list_all is_space sp" and m: "member_ok (key, t)"
    and d: "d = \<lparr>dec_buf = member_text sp (key, t) @ rest_text sp ms @ r, dec_state = ObjectStart, dec_stack = [TopValue]\<rparr>"
  shows "json_Token d = Inr (TString key, d\<lparr>dec_buf := sp @ CHR '':'' # sp @ token_text t @ rest_text sp ms @ r, dec_state := ObjectColon\<rparr>)"
    and "json_More d"
proof -
  have k: "list_all plain key" using m by (simp add: member_ok_def)
  have buf: "dec_buf d = sp @ quoted key @ sp @ CHR '':'' # sp @ token_text t @ rest_text sp ms @ r"
    by (simp add: d member_text_def)
  from Token_key [OF sp k _ buf] show "json_Token d = Inr (TString key, d\<lparr>dec_buf := sp @ CHR '':'' # sp @ token_text t @ rest_text sp ms @ r, dec_state := ObjectColon\<rparr>)"
    by (simp add: d)
  show "json_More d" using skip_sp [OF sp, of "CHR 0x22"] by (simp add: json_More_def buf quoted_def)
qed

lemma decode_members_object:
  assumes sp: "list_all is_space sp" and ms: "list_all member_ok ms"
  shows "decode_members \<lparr>dec_buf = (case ms of [] \<Rightarrow> sp @ [CHR ''}''] | m # ms' \<Rightarrow> member_text sp m @ rest_text sp ms') @ sp,
       dec_state = ObjectStart, dec_stack = [TopValue]\<rparr> [] zero_input =
     map_option (\<lambda>(seen, inp). (seen, inp, \<lparr>dec_buf = sp @ CHR ''}'' # sp,
       dec_state = (if ms = [] then ObjectStart else ObjectComma), dec_stack = [TopValue]\<rparr>)) (apply_members ms [] zero_input)"
proof (cases ms)
  case Nil
  have "\<not> json_More \<lparr>dec_buf = sp @ CHR ''}'' # sp, dec_state = ObjectStart, dec_stack = [TopValue]\<rparr>"
    using skip_sp [OF sp, of "CHR ''}''"] by (simp add: json_More_def)
  then show ?thesis
    by (simp add: Nil decode_members.simps [of "\<lparr>dec_buf = sp @ CHR ''}'' # sp, dec_state = ObjectStart, dec_stack = [TopValue]\<rparr>"])
next
  case (Cons m ms')
  obtain key t where m: "m = (key, t)" by fastforce
  let ?d = "\<lparr>dec_buf = member_text sp (key, t) @ rest_text sp ms' @ sp, dec_state = ObjectStart, dec_stack = [TopValue]\<rparr>"
  let ?d1 = "?d\<lparr>dec_buf := sp @ CHR '':'' # sp @ token_text t @ rest_text sp ms' @ sp, dec_state := ObjectColon\<rparr>"
  let ?d2 = "\<lparr>dec_buf = rest_text sp ms' @ sp, dec_state = ObjectComma, dec_stack = [TopValue]\<rparr>"
  have ok: "member_ok (key, t)" "token_ok t" "list_all member_ok ms'"
    using ms by (simp_all add: Cons m member_ok_def)
  note f = first_member [OF sp ok(1) refl, of ms' sp]
  have "decode_raw ?d1 = Some (t, ?d2)"
    using decode_raw_text [OF sp ok(2) ends_number_rest [OF sp], of ?d1 ms' sp] by simp
  from decode_members_step [OF f(2) f(1) this] decode_members_rest [OF sp ok(3), of ?d2 sp]
  show ?thesis by (simp add: Cons m split: option.splits)
qed

lemma decodeInput_object_text:
  assumes "list_all is_space sp" and "list_all member_ok ms"
  shows "decodeInput (object_text sp ms) =
    (case apply_members ms [] zero_input of
       None \<Rightarrow> Inl ErrInvalid
     | Some (seen, inp) \<Rightarrow> (if length seen = 4 then Inr inp else Inl ErrInvalid))"
  using decode_members_object [OF assms] object_text_valid [OF assms] Token_close [OF assms(1), of _ sp]
  by (cases "apply_members ms [] zero_input")
    (auto simp: decodeInput_def object_text_def Token_open [OF assms(1)] Token_end assms(1))

section \<open>The members of an input\<close>

definition input_members :: "input \<Rightarrow> member list" where
  "input_members inp = [(''event_id'', TString (EventID inp)), (''customer_id'', TString (CustomerID inp)),
     (''meter'', TString (Meter inp)), (''units'', TNumber (show_int (sint (Units inp))))]"

lemma unmarshal_member_input:
  assumes "(key, t) \<in> set (input_members x)"
  shows "unmarshal_member key t inp \<noteq> None \<and> key \<in> set input_keys \<and> t \<noteq> TLiteral ''null'' \<and>
    EventID (the (unmarshal_member key t inp)) = (if key = ''event_id'' then EventID x else EventID inp) \<and>
    CustomerID (the (unmarshal_member key t inp)) = (if key = ''customer_id'' then CustomerID x else CustomerID inp) \<and>
    Meter (the (unmarshal_member key t inp)) = (if key = ''meter'' then Meter x else Meter inp) \<and>
    Units (the (unmarshal_member key t inp)) = (if key = ''units'' then Units x else Units inp)"
proof -
  note defs = unmarshal_member_def unmarshal_string_def unmarshal_int64_def input_keys_def parse_int64_show_int
  from assms consider (event) "key = ''event_id''" "t = TString (EventID x)"
    | (customer) "key = ''customer_id''" "t = TString (CustomerID x)"
    | (meter) "key = ''meter''" "t = TString (Meter x)"
    | (units) "key = ''units''" "t = TNumber (show_int (sint (Units x)))"
    unfolding input_members_def by (simp only: list.set insert_iff empty_iff prod.inject) blast
  then show ?thesis by cases (simp_all add: defs)
qed

lemma apply_members_input:
  "distinct (map fst ms) \<Longrightarrow> set (map fst ms) \<inter> set seen = {} \<Longrightarrow> set ms \<subseteq> set (input_members x) \<Longrightarrow>
   \<exists>inp'. apply_members ms seen inp = Some (seen @ map fst ms, inp') \<and>
     EventID inp' = (if ''event_id'' \<in> set (map fst ms) then EventID x else EventID inp) \<and>
     CustomerID inp' = (if ''customer_id'' \<in> set (map fst ms) then CustomerID x else CustomerID inp) \<and>
     Meter inp' = (if ''meter'' \<in> set (map fst ms) then Meter x else Meter inp) \<and>
     Units inp' = (if ''units'' \<in> set (map fst ms) then Units x else Units inp)"
proof (induction ms arbitrary: seen inp)
  case (Cons m ms)
  obtain key t where m: "m = (key, t)" by fastforce
  from Cons.prems(3) have mem: "(key, t) \<in> set (input_members x)" by (simp add: m)
  then obtain inp1 where one: "unmarshal_member key t inp = Some inp1"
    and key: "key \<in> set input_keys" "t \<noteq> TLiteral ''null''"
    and f: "EventID inp1 = (if key = ''event_id'' then EventID x else EventID inp)"
      "CustomerID inp1 = (if key = ''customer_id'' then CustomerID x else CustomerID inp)"
      "Meter inp1 = (if key = ''meter'' then Meter x else Meter inp)"
      "Units inp1 = (if key = ''units'' then Units x else Units inp)"
    using unmarshal_member_input [OF mem, of inp] by auto
  have "key \<notin> set seen" "key \<notin> set (map fst ms)" using Cons.prems by (auto simp: m)
  with Cons.prems have "distinct (map fst ms)" "set (map fst ms) \<inter> set (seen @ [key]) = {}"
    "set ms \<subseteq> set (input_members x)" by (auto simp: m)
  from Cons.IH [OF this, of inp1] one key f \<open>key \<notin> set seen\<close> show ?case by (fastforce simp: m)
qed simp

definition plain_input :: "input \<Rightarrow> bool" where
  "plain_input inp \<longleftrightarrow> list_all plain (EventID inp) \<and> list_all plain (CustomerID inp) \<and> list_all plain (Meter inp)"

lemma input_members_ok: "plain_input inp \<Longrightarrow> list_all member_ok (input_members inp)"
  by (auto simp: input_members_def member_ok_def plain_input_def int_text_def parse_int64_show_int)
    (auto simp: plain_def in_range_def)

lemma decodeInput_members:
  assumes "list_all is_space sp" and "plain_input inp" and "mset ms = mset (input_members inp)"
  shows "decodeInput (object_text sp ms) = Inr inp"
proof -
  have set: "set ms = set (input_members inp)" using assms(3) by (rule mset_eq_setD)
  then have ok: "list_all member_ok ms" using input_members_ok [OF assms(2)] by (simp add: list_all_iff)
  have "mset (map fst ms) = mset (map fst (input_members inp))" using assms(3) by (simp add: mset_map)
  then have keys: "distinct (map fst ms)" "length (map fst ms) = 4"
    using mset_eq_imp_distinct_iff [of "map fst ms" "map fst (input_members inp)"] mset_eq_length [OF assms(3)]
    by (simp_all add: input_members_def)
  have all: "set (map fst ms) = set input_keys"
    unfolding set_map set by (simp add: input_members_def input_keys_def)
  obtain inp' where app: "apply_members ms [] zero_input = Some (map fst ms, inp')"
    and f: "EventID inp' = EventID inp" "CustomerID inp' = CustomerID inp" "Meter inp' = Meter inp" "Units inp' = Units inp"
    using apply_members_input [OF keys(1), of "[]" inp zero_input] set unfolding all
    by (auto simp: input_keys_def)
  have "inp' = inp" using f by (intro input.equality) simp_all
  with app have "apply_members ms [] zero_input = Some (map fst ms, inp)" by simp
  with decodeInput_object_text [OF assms(1) ok] keys(2) show ?thesis by simp
qed


section \<open>The retry request\<close>

text \<open>The third token: the colon is skipped, then the value is read.\<close>

lemma value_token_scalar:
  "value_allowed (dec_state d) \<Longrightarrow> read_scalar (dec_buf d) = Some (t, r) \<Longrightarrow>
   value_token d = Inr (t, d\<lparr>dec_buf := r, dec_state := value_end (dec_state d)\<rparr>)"
  by (simp add: value_token_def)

lemma Token_value:
  assumes sp: "list_all is_space sp" and t: "token_ok t" and r: "ends_number r"
  shows "json_Token \<lparr>dec_buf = sp @ CHR '':'' # sp @ token_text t @ r, dec_state = ObjectColon, dec_stack = st\<rparr> =
     Inr (t, \<lparr>dec_buf = r, dec_state = ObjectComma, dec_stack = st\<rparr>)"
proof -
  let ?d = "\<lparr>dec_buf = sp @ token_text t @ r, dec_state = ObjectValue, dec_stack = st\<rparr>"
  obtain c q where cq: "token_text t = c # q" "\<not> is_space c" by (rule token_text_first [OF t])
  have buf: "dropWhile is_space (dec_buf ?d) = c # q @ r" using skip_sp [OF sp cq(2)] by (simp add: cq(1))
  have first: "c \<noteq> CHR ''['' \<and> c \<noteq> CHR '']'' \<and> c \<noteq> CHR ''{'' \<and> c \<noteq> CHR ''}'' \<and> c \<noteq> CHR '':'' \<and> c \<noteq> CHR '',''"
  proof (cases t)
    case (TNumber n)
    with t obtain w :: int64 where n: "n = show_int (sint w)" by (auto simp: int_text_def split: option.splits)
    obtain c' q' where "show_int (sint w) = c' # q'" "c' = CHR ''-'' \<or> is_digit c'" by (rule show_int_first)
    then show ?thesis using cq(1) by (auto simp: TNumber n is_digit_def less_eq_char_def)
  qed (use t cq(1) in \<open>auto simp: quoted_def\<close>)
  have "json_Token \<lparr>dec_buf = sp @ CHR '':'' # sp @ token_text t @ r, dec_state = ObjectColon, dec_stack = st\<rparr> = json_Token ?d"
    using skip_sp [OF sp, of "CHR '':''" "sp @ token_text t @ r"]
    by (simp add: json_Token.simps [of "\<lparr>dec_buf = sp @ CHR '':'' # sp @ token_text t @ r, dec_state = ObjectColon, dec_stack = st\<rparr>"]
        Let_def skip_space_def)
  also have "\<dots> = value_token (skip_space ?d)"
    using buf first by (simp add: json_Token.simps [of ?d] Let_def)
  also have "skip_space ?d = \<lparr>dec_buf = token_text t @ r, dec_state = ObjectValue, dec_stack = st\<rparr>"
    using buf by (simp add: skip_space_def cq(1))
  also have "value_token \<dots> = Inr (t, \<lparr>dec_buf = r, dec_state = ObjectComma, dec_stack = st\<rparr>)"
    using value_token_scalar [of "\<lparr>dec_buf = token_text t @ r, dec_state = ObjectValue, dec_stack = st\<rparr>"]
      read_scalar_text [OF t r] by (simp add: value_allowed_def value_end_def)
  finally show ?thesis .
qed

lemma decodeRetry_object_text:
  assumes sp: "list_all is_space sp" and ms: "list_all member_ok ms"
  shows "decodeRetry (object_text sp ms) =
    (case ms of
       [(key, TNumber n)] \<Rightarrow>
         (if key \<noteq> ''retry_generation'' then Inl ErrInvalid
          else case parse_int64 n of
            None \<Rightarrow> Inl ErrInvalid
          | Some g \<Rightarrow> (if sint g < 0 then Inl ErrInvalid else Inr g))
     | _ \<Rightarrow> Inl ErrInvalid)"
proof (cases ms)
  case Nil
  then show ?thesis
    using object_text_valid [OF assms] Token_close [OF sp, of ObjectStart sp]
    by (simp add: decodeRetry_def object_text_def Token_open [OF sp])
next
  case (Cons m ms')
  obtain key t where m: "m = (key, t)" by fastforce
  let ?d = "\<lparr>dec_buf = member_text sp (key, t) @ rest_text sp ms' @ sp, dec_state = ObjectStart, dec_stack = [TopValue]\<rparr>"
  have ok: "member_ok (key, t)" "token_ok t" "list_all member_ok ms'"
    using ms by (simp_all add: Cons m member_ok_def)
  have t1: "json_Token (NewDecoder (object_text sp ms)) = Inr (Delim CHR ''{'', ?d)"
    using Token_open [OF sp, of "member_text sp (key, t) @ rest_text sp ms' @ sp"]
    by (simp add: object_text_def Cons m)
  note t2 = first_member(1) [OF sp ok(1) refl, of ms' sp]
  note t3 = Token_value [OF sp ok(2) ends_number_rest [OF sp], of ms' sp "[TopValue]"]
  have t4: "\<exists>tok d. json_Token \<lparr>dec_buf = rest_text sp ms' @ sp, dec_state = ObjectComma, dec_stack = [TopValue]\<rparr> = Inr (tok, d) \<and>
      (if ms' = [] then tok = Delim CHR ''}'' \<and> json_Token d = Inl TokEOF else tok \<noteq> Delim CHR ''}'')"
  proof (cases ms')
    case Nil
    then show ?thesis using Token_close [OF sp, of ObjectComma sp] sp by (simp add: Token_end)
  next
    case (Cons m2 ms2)
    then have "json_Token \<lparr>dec_buf = rest_text sp ms' @ sp, dec_state = ObjectComma, dec_stack = [TopValue]\<rparr> =
        Inr (TString (fst m2), \<lparr>dec_buf = sp @ CHR '':'' # sp @ token_text (snd m2) @ rest_text sp ms2 @ sp,
          dec_state = ObjectColon, dec_stack = [TopValue]\<rparr>)"
      using ok(3) Token_comma_key [OF sp, of "fst m2" "\<lparr>dec_buf = rest_text sp ms' @ sp, dec_state = ObjectComma, dec_stack = [TopValue]\<rparr>"]
      by (simp add: member_ok_def member_text_def)
    with Cons show ?thesis by simp
  qed
  then obtain tok d where d: "json_Token \<lparr>dec_buf = rest_text sp ms' @ sp, dec_state = ObjectComma, dec_stack = [TopValue]\<rparr> = Inr (tok, d)"
    "if ms' = [] then tok = Delim CHR ''}'' \<and> json_Token d = Inl TokEOF else tok \<noteq> Delim CHR ''}''" by blast
  have "decodeRetry (object_text sp ms) =
    (if key \<noteq> ''retry_generation'' then Inl ErrInvalid
     else case t of
       TNumber n \<Rightarrow> (case parse_int64 n of None \<Rightarrow> Inl ErrInvalid
         | Some g \<Rightarrow> (if sint g < 0 \<or> ms' \<noteq> [] then Inl ErrInvalid else Inr g))
     | _ \<Rightarrow> Inl ErrInvalid)"
    using object_text_valid [OF assms] t1 t2 t3 d
    by (cases "ms' = []") (auto simp: decodeRetry_def split: json_token.splits option.splits)
  then show ?thesis by (auto simp: Cons m split: json_token.splits list.splits option.splits)
qed

end
