(* ===== verification/Http_Api.thy ===== *)
theory Http_Api
  imports Http_Render Billing_Service
begin

text \<open>
  The handler of \<open>internal/httpapi/httpapi.go\<close>: construction, routing, authorization, the
  operations behind each route, the mapping of errors to statuses, the request counters and the
  metrics text. A reply collects what the handler writes and logs; a response body is a JSON
  value, whose text form is left to \<open>encoding/json\<close>. The two library functions the handler
  applies as they are, \<open>sha256.Sum256\<close> and \<open>mime.ParseMediaType\<close>, are the record \<open>http_lib\<close>.
\<close>

section \<open>Values\<close>

datatype json_value =
    JStr string | JInt int | JBool bool | JTime int | JObj "(string \<times> json_value) list"

text \<open>\<open>json.Marshal\<close> refuses a time whose year is not between 0 and 9999.\<close>

fun marshal_ok :: "json_value \<Rightarrow> bool" where
  "marshal_ok (JTime t) \<longleftrightarrow> - 62167219200000000 \<le> t \<and> t < 253402300800000000"
| "marshal_ok (JObj fs) \<longleftrightarrow> (\<forall>(k, v) \<in> set fs. marshal_ok v)"
| "marshal_ok v \<longleftrightarrow> True"

definition event_json :: "event \<Rightarrow> json_value" where
  "event_json e = JObj ([(''event_id'', JStr (EventID (Input e))), (''customer_id'', JStr (CustomerID (Input e))),
     (''meter'', JStr (Meter (Input e))), (''units'', JInt (sint (Units (Input e))))] @
     (if RequestID e = [] then [] else [(''request_id'', JStr (RequestID e))]) @
     [(''unit_price_micros'', JInt (sint (UnitPriceMicros e))), (''amount_micros'', JInt (sint (AmountMicros e))),
      (''currency'', JStr (Currency e)), (''processed'', JBool (Processed e)), (''created_at'', JTime (CreatedAt e)),
      (''failed'', JBool (Failed e)), (''processing_failures'', JInt (ProcessingFailures e)),
      (''failure_code'', JStr (FailureCode e)), (''retry_generation'', JInt (sint (RetryGeneration e)))])"

definition summary_json :: "summary \<Rightarrow> json_value" where
  "summary_json s = JObj [(''customer_id'', JStr (sm_CustomerID s)), (''currency'', JStr (sm_Currency s)),
     (''units'', JStr (sm_Units s)), (''amount_micros'', JStr (sm_AmountMicros s)),
     (''pending'', JInt (sm_Pending s)), (''processed'', JInt (sm_Processed s)), (''failed'', JInt (sm_Failed s))]"

datatype body = Json json_value | Text string

datatype log_value = LStr string | LInt int

record log_entry =
  lg_level :: string
  lg_message :: string
  lg_fields :: "(string \<times> log_value) list"

text \<open>The response under construction; \<open>rp_broken\<close> says that the client cannot be written to.\<close>

record reply =
  rp_headers :: "(string \<times> string) list"
  rp_status :: "int option"
  rp_body :: "body option"
  rp_log :: "log_entry list"
  rp_broken :: bool

definition set_header :: "string \<Rightarrow> string \<Rightarrow> reply \<Rightarrow> reply" where
  "set_header k v rp = rp\<lparr>rp_headers := filter (\<lambda>(k', v'). k' \<noteq> k) (rp_headers rp) @ [(k, v)]\<rparr>"

definition log_line :: "string \<Rightarrow> string \<Rightarrow> (string \<times> log_value) list \<Rightarrow> reply \<Rightarrow> reply" where
  "log_line level msg fs rp =
     rp\<lparr>rp_log := rp_log rp @ [\<lparr>lg_level = level, lg_message = msg, lg_fields = fs\<rparr>]\<rparr>"

text \<open>A request: \<open>rq_body\<close> is what can be read before the end or, with \<open>rq_body_fault\<close>, an error.\<close>

record request =
  rq_method :: string
  rq_path :: string
  rq_headers :: "(string \<times> string) list"
  rq_body :: string
  rq_body_fault :: bool

definition header_values :: "string \<Rightarrow> request \<Rightarrow> string list" where
  "header_values k r = map snd (filter (\<lambda>(k', v). k' = k) (rq_headers r))"

definition header_get :: "string \<Rightarrow> request \<Rightarrow> string" where
  "header_get k r = (case header_values k r of [] \<Rightarrow> [] | v # _ \<Rightarrow> v)"

record http_lib =
  lib_sha256 :: "string \<Rightarrow> byte list"
  lib_media_type :: "string \<Rightarrow> string option"

section \<open>The handler\<close>

record ('e, 's) api_service =
  as_Accept :: "'e ctx \<Rightarrow> input \<Rightarrow> 's \<Rightarrow> ((go_error + event \<times> bool) \<times> 's) go_outcome"
  as_Get :: "'e ctx \<Rightarrow> string \<Rightarrow> 's \<Rightarrow> go_error + event"
  as_Summary :: "'e ctx \<Rightarrow> string \<Rightarrow> 's \<Rightarrow> go_error + summary"
  as_Retry :: "'e ctx \<Rightarrow> string \<Rightarrow> int64 \<Rightarrow> 's \<Rightarrow> (go_error + event \<times> bool) \<times> 's"

type_synonym ('e, 's) metrics_source = "'e ctx \<Rightarrow> 's \<Rightarrow> string \<times> 's"

record ('e, 's) handler =
  h_service :: "('e, 's) api_service"
  h_readiness :: "'e ctx \<Rightarrow> 's \<Rightarrow> go_error option"
  h_token_hash :: "byte list"
  h_requests :: "uint64 list list"
  h_metrics_source :: "('e, 's) metrics_source option"

definition token_byte_bad :: "char \<Rightarrow> bool" where
  "token_byte_bad c \<longleftrightarrow> c \<le> CHR '' '' \<or> of_char c \<ge> (127 :: nat)"

text \<open>\<open>New\<close>: a nil service, callback, logger or metrics source is \<open>None\<close> or \<open>False\<close>.\<close>

definition http_New ::
  "http_lib \<Rightarrow> ('e, 's) api_service option \<Rightarrow> ('e ctx \<Rightarrow> 's \<Rightarrow> go_error option) option \<Rightarrow> string \<Rightarrow> bool \<Rightarrow>
   ('e, 's) metrics_source option list \<Rightarrow> go_error + ('e, 's) handler" where
  "http_New lib service readiness token logger sources =
     (case (service, readiness) of
        (Some sv, Some rd) \<Rightarrow>
          (if \<not> logger then Inl (New ''service, readiness callback, and logger are required'')
           else if length token < 32 \<or> length token > 4096
           then Inl (New ''API token must contain between 32 and 4096 bytes'')
           else if list_ex token_byte_bad token
           then Inl (New ''API token must contain printable ASCII without whitespace'')
           else if length sources > 1 \<or> length sources = 1 \<and> hd sources = None
           then Inl (New ''at most one non-nil metrics source is allowed'')
           else Inr \<lparr>h_service = sv, h_readiness = rd, h_token_hash = lib_sha256 lib token,
                  h_requests = replicate 8 (replicate 6 0),
                  h_metrics_source = (if length sources = 1 then hd sources else None)\<rparr>)
      | _ \<Rightarrow> Inl (New ''service, readiness callback, and logger are required''))"

definition routeNames :: "string list" where
  "routeNames = [''unmatched'', ''health'', ''ready'', ''accept'', ''event'', ''summary'', ''metrics'', ''retry'']"

definition route :: "string \<Rightarrow> nat \<times> string" where
  "route path =
     (if path = ''/healthz'' then (1, [])
      else if path = ''/readyz'' then (2, [])
      else if path = ''/v1/events'' then (3, [])
      else if path = ''/metrics'' then (6, [])
      else (let parts = split_on (CHR ''/'') path in
        if length parts = 4 \<and> parts ! 1 = ''v1'' \<and> parts ! 2 = ''events'' then (4, parts ! 3)
        else if length parts = 5 \<and> parts ! 1 = ''v1'' \<and> parts ! 2 = ''events'' \<and> parts ! 4 = ''retry''
        then (7, parts ! 3)
        else if length parts = 5 \<and> parts ! 1 = ''v1'' \<and> parts ! 2 = ''customers'' \<and> parts ! 4 = ''summary''
        then (5, parts ! 3)
        else (0, [])))"

definition authorized :: "http_lib \<Rightarrow> ('e, 's) handler \<Rightarrow> request \<Rightarrow> bool" where
  "authorized lib h r =
     (let values = header_values ''Authorization'' r in
      if length values \<noteq> 1 then False
      else case cut (CHR '' '') (hd values) of
        None \<Rightarrow> False
      | Some (scheme, token) \<Rightarrow>
          (if \<not> equal_fold scheme ''Bearer'' then False else lib_sha256 lib token = h_token_hash h))"

section \<open>Writing\<close>

definition writeJSON :: "int \<Rightarrow> json_value \<Rightarrow> reply \<Rightarrow> int \<times> reply" where
  "writeJSON status value rp =
     (let (status, value, rp) =
        (if marshal_ok value then (status, value, rp)
         else (500, JObj [(''error'', JStr ''internal_error'')], log_line ''ERROR'' ''encode response failed'' [] rp));
        rp = (set_header ''Content-Type'' ''application/json'' rp)\<lparr>rp_status := Some status\<rparr>
      in (status, if rp_broken rp then log_line ''WARN'' ''write response failed'' [] rp
                  else rp\<lparr>rp_body := Some (Json value)\<rparr>))"

definition fail :: "int \<Rightarrow> string \<Rightarrow> reply \<Rightarrow> int \<times> reply" where
  "fail status code rp = writeJSON status (JObj [(''error'', JStr code)]) rp"

definition serviceError :: "go_error \<Rightarrow> reply \<Rightarrow> int \<times> reply" where
  "serviceError err rp =
     (if errors_is err ErrInvalid then fail 400 ''invalid_input'' rp
      else if errors_is err ErrConflict then fail 409 ''event_conflict'' rp
      else if errors_is err ErrRetryConflict then fail 409 ''retry_conflict'' rp
      else if errors_is err ErrNotFound then fail 404 ''not_found'' rp
      else if errors_is err ErrQueueFull then fail 503 ''queue_full'' (set_header ''Retry-After'' ''1'' rp)
      else fail 500 ''internal_error'' rp)"

definition maxBodyBytes :: nat where
  "maxBodyBytes = 16384"

text \<open>\<open>readBody\<close>: the data, or the status already written.\<close>

definition readBody :: "http_lib \<Rightarrow> request \<Rightarrow> reply \<Rightarrow> (int \<times> reply) + string" where
  "readBody lib r rp =
     (if lib_media_type lib (header_get ''Content-Type'' r) \<noteq> Some ''application/json''
      then Inl (fail 415 ''json_required'' rp)
      else if length (rq_body r) > maxBodyBytes then Inl (fail 413 ''body_too_large'' rp)
      else if rq_body_fault r then Inl (fail 400 ''invalid_json'' rp)
      else Inr (rq_body r))"

section \<open>Operations\<close>

definition http_accept ::
  "http_lib \<Rightarrow> ('e, 's) handler \<Rightarrow> 'e ctx \<Rightarrow> request \<Rightarrow> 's \<Rightarrow> reply \<Rightarrow> ((int \<times> reply) \<times> 's) go_outcome" where
  "http_accept lib h c r s rp =
     (case readBody lib r rp of
        Inl written \<Rightarrow> Return (written, s)
      | Inr data \<Rightarrow>
     (case decodeInput data of
        Inl err \<Rightarrow> Return (fail 400 ''invalid_json'' rp, s)
      | Inr input \<Rightarrow>
     (case as_Accept (h_service h) c input s of
        Panic m \<Rightarrow> Panic m
      | Return (Inl err, s') \<Rightarrow> Return (serviceError err rp, s')
      | Return (Inr (event, created), s') \<Rightarrow>
          Return (writeJSON (if created then 202 else 200) (event_json event) rp, s'))))"

definition http_retry ::
  "http_lib \<Rightarrow> ('e, 's) handler \<Rightarrow> 'e ctx \<Rightarrow> request \<Rightarrow> string \<Rightarrow> 's \<Rightarrow> reply \<Rightarrow> (int \<times> reply) \<times> 's" where
  "http_retry lib h c r i s rp =
     (case readBody lib r rp of
        Inl written \<Rightarrow> (written, s)
      | Inr data \<Rightarrow>
     (case decodeRetry data of
        Inl err \<Rightarrow> (fail 400 ''invalid_json'' rp, s)
      | Inr generation \<Rightarrow>
     (case as_Retry (h_service h) c i generation s of
        (Inl err, s') \<Rightarrow> (serviceError err rp, s')
      | (Inr (event, retried), s') \<Rightarrow>
          (writeJSON (if retried then 202 else 200) (event_json event) rp, s'))))"

definition counter_lines :: "string \<Rightarrow> uint64 list \<Rightarrow> string" where
  "counter_lines name row = concat (map (\<lambda>class.
     ''usage_billing_http_requests_total{route='' @ quoted name @ '',status_class='' @
     quoted (show_nat class @ ''xx'') @ ''} '' @ show_nat (unat (row ! class)) @ [CHR 0x0A]) [1, 2, 3, 4, 5])"

definition http_metrics :: "('e, 's) handler \<Rightarrow> 'e ctx \<Rightarrow> 's \<Rightarrow> reply \<Rightarrow> (int \<times> reply) \<times> 's" where
  "http_metrics h c s rp =
     (let own = ''# HELP usage_billing_http_requests_total Completed HTTP requests.'' @ [CHR 0x0A] @
                ''# TYPE usage_billing_http_requests_total counter'' @ [CHR 0x0A] @
                concat (map (\<lambda>i. counter_lines (routeNames ! i) (h_requests h ! i)) [0..<length routeNames]);
          (operational, s') = (case h_metrics_source h of None \<Rightarrow> ([], s) | Some m \<Rightarrow> m c s);
          body = own @ operational @
            (if operational \<noteq> [] \<and> last operational \<noteq> CHR 0x0A then [CHR 0x0A] else []);
          rp = (set_header ''Content-Type'' ''text/plain; version=0.0.4; charset=utf-8'' rp)\<lparr>rp_status := Some 200\<rparr>
      in ((200, if rp_broken rp then log_line ''WARN'' ''write metrics failed'' [] rp
                else rp\<lparr>rp_body := Some (Text body)\<rparr>), s'))"

definition route_method :: "nat \<Rightarrow> string" where
  "route_method index = (if index = 3 \<or> index = 7 then ''POST'' else ''GET'')"

definition http_serve ::
  "http_lib \<Rightarrow> ('e, 's) handler \<Rightarrow> 'e ctx \<Rightarrow> request \<Rightarrow> nat \<Rightarrow> string \<Rightarrow> 's \<Rightarrow> reply \<Rightarrow>
   ((int \<times> reply) \<times> 's) go_outcome" where
  "http_serve lib h c r index i s rp =
     (if index \<noteq> 1 \<and> index \<noteq> 2 \<and> \<not> authorized lib h r
      then Return (fail 401 ''unauthorized'' (set_header ''WWW-Authenticate'' ''Bearer'' rp), s)
      else if index = 0 then Return (fail 404 ''not_found'' rp, s)
      else if rq_method r \<noteq> route_method index
      then Return (fail 405 ''method_not_allowed'' (set_header ''Allow'' (route_method index) rp), s)
      else if index = 1 then Return (writeJSON 200 (JObj [(''status'', JStr ''ok'')]) rp, s)
      else if index = 2 then
        (case h_readiness h c s of
           Some err \<Rightarrow> Return (fail 503 ''not_ready'' rp, s)
         | None \<Rightarrow> Return (writeJSON 200 (JObj [(''status'', JStr ''ready'')]) rp, s))
      else if index = 3 then http_accept lib h c r s rp
      else if index = 4 then
        (case as_Get (h_service h) c i s of
           Inl err \<Rightarrow> Return (serviceError err rp, s)
         | Inr event \<Rightarrow> Return (writeJSON 200 (event_json event) rp, s))
      else if index = 5 then
        (case as_Summary (h_service h) c i s of
           Inl err \<Rightarrow> Return (serviceError err rp, s)
         | Inr summary \<Rightarrow> Return (writeJSON 200 (summary_json summary) rp, s))
      else if index = 7 then Return (http_retry lib h c r i s rp)
      else Return (http_metrics h c s rp))"

definition count_request :: "nat \<Rightarrow> int \<Rightarrow> ('e, 's) handler \<Rightarrow> ('e, 's) handler" where
  "count_request index status h =
     h\<lparr>h_requests := (h_requests h)[index := ((h_requests h ! index)
        [nat (status div 100) := h_requests h ! index ! nat (status div 100) + 1])]\<rparr>"

text \<open>
  \<open>ServeHTTP\<close>; the entropy of the request identifier, the reading of the clock at the end and
  whether the client can be written to are arguments. The context of the request carries its
  environment; \<open>requestid.WithContext\<close> adds the identifier.
\<close>

definition ServeHTTP ::
  "http_lib \<Rightarrow> byte list option \<Rightarrow> int \<Rightarrow> bool \<Rightarrow> ('e, 's) handler \<Rightarrow> 'e ctx \<Rightarrow> request \<Rightarrow> 's \<Rightarrow>
   (reply \<times> ('e, 's) handler \<times> 's) go_outcome" where
  "ServeHTTP lib rand elapsed_ms broken h c0 r s =
     (case requestid_New rand of
        Panic m \<Rightarrow> Panic m
      | Return request_id \<Rightarrow>
          (let rp = \<lparr>rp_headers = [], rp_status = None, rp_body = None, rp_log = [], rp_broken = broken\<rparr>;
               rp = set_header ''X-Request-ID'' request_id rp;
               c = WithContext c0 request_id;
               (index, i) = route (rq_path r);
               rp = set_header ''Cache-Control'' ''no-store'' (set_header ''X-Content-Type-Options'' ''nosniff'' rp)
           in case http_serve lib h c r index i s rp of
                Panic m \<Rightarrow> Panic m
              | Return ((status, rp), s') \<Rightarrow>
                  Return (log_line ''INFO'' ''http request''
                            [(''route'', LStr (routeNames ! index)), (''status'', LInt status),
                             (''duration_ms'', LInt elapsed_ms), (''request_id'', LStr request_id)] rp,
                          count_request index status h, s')))"

text \<open>\<open>RequestID\<close>: the identifier \<open>ServeHTTP\<close> stored in the context.\<close>

definition http_RequestID :: "'e ctx \<Rightarrow> string" where
  "http_RequestID c = FromContext c"

end
