(* ===== verification/Http_Facts.thy ===== *)
theory Http_Facts
  imports Http_Api
begin

text \<open>
  Facts about the handler: which paths a route takes, which statuses it can answer with, that
  the counters are indexed in bounds, and the locale \<open>http_service\<close> with what the handler needs
  of the service behind it.
\<close>

section \<open>Routing\<close>

lemma split_on_eq: "split_on c s = ps \<longleftrightarrow> ps \<noteq> [] \<and> (\<forall>p\<in>set ps. c \<notin> set p) \<and> s = join_on c ps"
  by (metis join_split split_join split_on_not_Nil split_on_parts)

lemma length4: "length ps = 4 \<longleftrightarrow> (\<exists>a b c d. ps = [a, b, c, d])"
  by (auto simp: eval_nat_numeral length_Suc_conv)

lemma length5: "length ps = 5 \<longleftrightarrow> (\<exists>a b c d e. ps = [a, b, c, d, e])"
  by (auto simp: eval_nat_numeral length_Suc_conv)

lemma split_three:
  "length (split_on c s) = 4 \<Longrightarrow> length (filter (\<lambda>x. x = c) s) = 3"
  "length (split_on c s) = 5 \<Longrightarrow> length (filter (\<lambda>x. x = c) s) = 4"
proof -
  have "length (split_on c s) = Suc (length (filter (\<lambda>x. x = c) s))"
    by (induction s) (auto split: list.splits)
  then show "length (split_on c s) = 4 \<Longrightarrow> length (filter (\<lambda>x. x = c) s) = 3"
    "length (split_on c s) = 5 \<Longrightarrow> length (filter (\<lambda>x. x = c) s) = 4" by simp_all
qed

lemma route_parts:
  "length (split_on CHR ''/'' p) = 4 \<or> length (split_on CHR ''/'' p) = 5 \<Longrightarrow>
   p \<notin> {''/healthz'', ''/readyz'', ''/v1/events'', ''/metrics''}"
  by (auto dest!: split_three)

lemma route_event_iff:
  "route p = (4, i) \<longleftrightarrow> (\<exists>a. CHR ''/'' \<notin> set a \<and> CHR ''/'' \<notin> set i \<and> p = a @ ''/v1/events/'' @ i)"
proof -
  have "route p = (4, i) \<longleftrightarrow> (\<exists>a. split_on CHR ''/'' p = [a, ''v1'', ''events'', i])"
    using route_parts [of p] by (auto simp: route_def Let_def length4 length5)
  also have "\<dots> \<longleftrightarrow> (\<exists>a. CHR ''/'' \<notin> set a \<and> CHR ''/'' \<notin> set i \<and> p = a @ ''/v1/events/'' @ i)"
    unfolding split_on_eq by simp
  finally show ?thesis .
qed

lemma route_retry_iff:
  "route p = (7, i) \<longleftrightarrow> (\<exists>a. CHR ''/'' \<notin> set a \<and> CHR ''/'' \<notin> set i \<and> p = a @ ''/v1/events/'' @ i @ ''/retry'')"
proof -
  have "route p = (7, i) \<longleftrightarrow> (\<exists>a. split_on CHR ''/'' p = [a, ''v1'', ''events'', i, ''retry''])"
    using route_parts [of p] by (auto simp: route_def Let_def length4 length5)
  also have "\<dots> \<longleftrightarrow> (\<exists>a. CHR ''/'' \<notin> set a \<and> CHR ''/'' \<notin> set i \<and> p = a @ ''/v1/events/'' @ i @ ''/retry'')"
    unfolding split_on_eq by simp
  finally show ?thesis .
qed

lemma route_summary_iff:
  "route p = (5, i) \<longleftrightarrow> (\<exists>a. CHR ''/'' \<notin> set a \<and> CHR ''/'' \<notin> set i \<and> p = a @ ''/v1/customers/'' @ i @ ''/summary'')"
proof -
  have "route p = (5, i) \<longleftrightarrow> (\<exists>a. split_on CHR ''/'' p = [a, ''v1'', ''customers'', i, ''summary''])"
    using route_parts [of p] by (auto simp: route_def Let_def length4 length5)
  also have "\<dots> \<longleftrightarrow> (\<exists>a. CHR ''/'' \<notin> set a \<and> CHR ''/'' \<notin> set i \<and> p = a @ ''/v1/customers/'' @ i @ ''/summary'')"
    unfolding split_on_eq by simp
  finally show ?thesis .
qed

lemma route_index: "fst (route p) < 8"
  by (simp add: route_def Let_def)

section \<open>Statuses\<close>

definition statuses :: "int set" where
  "statuses = {200, 202, 400, 401, 404, 405, 409, 413, 415, 500, 503}"

lemma statuses_simps [simp]:
  "200 \<in> statuses" "202 \<in> statuses" "400 \<in> statuses" "401 \<in> statuses" "404 \<in> statuses" "405 \<in> statuses"
  "409 \<in> statuses" "413 \<in> statuses" "415 \<in> statuses" "500 \<in> statuses" "503 \<in> statuses"
  by (simp_all add: statuses_def)

lemma writeJSON_status: "fst (writeJSON st v rp) = (if marshal_ok v then st else 500)"
  by (simp add: writeJSON_def Let_def)

lemma writeJSON_statuses [simp]: "st \<in> statuses \<Longrightarrow> fst (writeJSON st v rp) \<in> statuses"
  by (simp add: writeJSON_status)

lemma fail_status [simp]: "fst (fail st code rp) = st"
  by (simp add: fail_def writeJSON_status)

lemma serviceError_status [simp]: "fst (serviceError err rp) \<in> statuses"
  by (simp add: serviceError_def)

lemma readBody_status: "readBody lib r rp = Inl w \<Longrightarrow> fst w \<in> statuses"
  by (auto simp: readBody_def split: if_splits)

lemma accept_status: "http_accept lib h c r s rp = Return x \<Longrightarrow> fst (fst x) \<in> statuses"
  by (cases "readBody lib r rp")
    (auto simp: http_accept_def dest!: readBody_status split: sum.splits go_outcome.splits prod.splits if_splits)

lemma retry_status: "fst (fst (http_retry lib h c r i s rp)) \<in> statuses"
  by (cases "readBody lib r rp")
    (auto simp: http_retry_def dest!: readBody_status split: sum.splits prod.splits)

lemma metrics_status: "fst (fst (http_metrics h c s rp)) = 200"
  by (simp add: http_metrics_def Let_def case_prod_beta)

text \<open>Only the accept route can fail to return; the others change the state by a retry or a scrape.\<close>

definition serves_accept :: "http_lib \<Rightarrow> ('e, 's) handler \<Rightarrow> request \<Rightarrow> nat \<Rightarrow> bool" where
  "serves_accept lib h r index \<longleftrightarrow> index = 3 \<and> authorized lib h r \<and> rq_method r = ''POST''"

lemma serve_accept: "serves_accept lib h r index \<Longrightarrow> http_serve lib h c r index i s rp = http_accept lib h c r s rp"
  by (simp add: http_serve_def serves_accept_def route_method_def)

lemma serve_other:
  "\<not> serves_accept lib h r index \<Longrightarrow> \<exists>x. http_serve lib h c r index i s rp = Return x \<and> fst (fst x) \<in> statuses \<and>
     snd x \<in> {s, snd (http_retry lib h c r i s rp), snd (http_metrics h c s rp)}"
proof -
  assume other: "\<not> serves_accept lib h r index"
  consider "index \<noteq> 1 \<and> index \<noteq> 2 \<and> \<not> authorized lib h r" | "index = 0" "authorized lib h r"
    | "index \<noteq> 0" "rq_method r \<noteq> route_method index" "index = 1 \<or> index = 2 \<or> authorized lib h r"
    | (ok) "index \<noteq> 0" "rq_method r = route_method index" "index = 1 \<or> index = 2 \<or> authorized lib h r"
    by (cases "authorized lib h r"; cases "index = 0"; cases "rq_method r = route_method index") auto
  then show ?thesis
  proof cases
    case ok
    with other have "index \<noteq> 3" by (auto simp: serves_accept_def route_method_def)
    with ok consider "index = 1" | "index = 2" | "index = 4" "authorized lib h r" | "index = 5" "authorized lib h r"
      | "index = 7" "authorized lib h r" | "index \<notin> {0, 1, 2, 3, 4, 5, 7}" "authorized lib h r" by force
    then show ?thesis
      using ok(2) by cases (simp_all add: http_serve_def retry_status metrics_status del: split_paired_Ex split: option.split sum.split)
  qed (simp_all add: http_serve_def del: split_paired_Ex)
qed

lemma serve_status:
  assumes "http_serve lib h c r index i s rp = Return ((st, rp'), s')"
  shows "st \<in> statuses"
proof (cases "serves_accept lib h r index")
  case True
  with assms accept_status [of lib h c r s rp] show ?thesis by (fastforce simp: serve_accept)
next
  case False
  from serve_other [OF this, of c i s rp] assms show ?thesis by auto
qed

text \<open>The counter table keeps its shape, and exactly one cell grows, by one.\<close>

definition counters_ok :: "uint64 list list \<Rightarrow> bool" where
  "counters_ok t \<longleftrightarrow> length t = 8 \<and> list_all (\<lambda>row. length row = 6) t"

lemma statuses_class: "st \<in> statuses \<Longrightarrow> nat (st div 100) < 6 \<and> 2 \<le> nat (st div 100)"
  by (auto simp: statuses_def)

lemma count_request_ok:
  assumes "counters_ok (h_requests h)" and "index < 8" and "st \<in> statuses"
  shows "counters_ok (h_requests (count_request index st h)) \<and>
    (\<forall>i < 8. \<forall>k < 6. h_requests (count_request index st h) ! i ! k =
       (if i = index \<and> k = nat (st div 100) then h_requests h ! i ! k + 1 else h_requests h ! i ! k))"
  using assms statuses_class [OF assms(3)]
  by (auto simp: counters_ok_def count_request_def list_all_length nth_list_update)

section \<open>What the handler needs of the service\<close>

text \<open>
  A service that never panics on a request that carries an identifier and keeps an invariant of
  its state; then the handler returns whenever the entropy source answers, and keeps it too.
\<close>

locale http_service =
  fixes service :: "('e, 's) api_service"
    and inv :: "'s \<Rightarrow> bool"
  assumes accept_returns: "FromContext c \<noteq> [] \<Longrightarrow> \<exists>r s'. as_Accept service c inp s = Return (r, s')"
    and accept_inv: "inv s \<Longrightarrow> as_Accept service c inp s = Return (r, s') \<Longrightarrow> inv s'"
    and retry_inv: "inv s \<Longrightarrow> inv (snd (as_Retry service c i g s))"
begin

lemma serve_returns:
  assumes "h_service h = service" and "FromContext c \<noteq> []"
  shows "\<exists>w s'. http_serve lib h c r index i s rp = Return (w, s')"
proof (cases "serves_accept lib h r index")
  case True
  have "\<exists>x. http_accept lib h c r s rp = Return x"
    using accept_returns [OF assms(2)] assms(1)
    by (auto simp: http_accept_def split: sum.splits go_outcome.splits)
      (metis go_outcome.distinct(1))
  with True show ?thesis by (simp add: serve_accept split_paired_Ex)
next
  case False
  from serve_other [OF this, of c i s rp] show ?thesis by auto
qed

lemma serve_inv:
  assumes "h_service h = service" and "inv s"
    and src: "\<And>m. h_metrics_source h = Some m \<Longrightarrow> inv (snd (m c s))"
    and run: "http_serve lib h c r index i s rp = Return (w, s')"
  shows "inv s'"
proof (cases "serves_accept lib h r index")
  case True
  with run have "http_accept lib h c r s rp = Return (w, s')" by (simp add: serve_accept)
  then show ?thesis
    using assms(1,2) accept_inv [OF assms(2)]
    by (auto simp: http_accept_def split: sum.splits go_outcome.splits prod.splits)
next
  case False
  have retry: "inv (snd (http_retry lib h c r i s rp))"
    using assms(1,2) retry_inv [OF assms(2), of c i]
    by (auto simp: http_retry_def split: sum.splits prod.splits) (metis snd_conv)+
  have metrics: "inv (snd (http_metrics h c s rp))"
    using src assms(2) by (auto simp: http_metrics_def Let_def case_prod_beta split: option.splits)
  from serve_other [OF False, of c i s rp] run retry metrics assms(2) show ?thesis by auto
qed

end

end
