(* ===== verification/Worker.thy ===== *)
theory Worker
  imports Billing_Service
begin

text \<open>
  The background worker of \<open>internal/worker/worker.go\<close>. A run is a function of what wakes its
  loop: the list of \<open>wake\<close>s says when the context ends, and for each expiry of the timer what the
  attempt meets. The loop returns what it set the timer to, the log lines and the counters; a
  list that ends while the loop waits in its \<open>select\<close> leaves the run unfinished. The counters
  are read by other goroutines under the mutex only between the methods below.
\<close>

section \<open>The worker and its counters\<close>

record worker_stats =
  ws_Running :: bool
  ws_BatchInFlight :: bool
  ws_BatchAttempts :: uint64
  ws_BatchErrors :: uint64
  ws_BatchCancellations :: uint64
  ws_EventsProcessed :: uint64

definition zero_stats :: worker_stats where
  "zero_stats = \<lparr>ws_Running = False, ws_BatchInFlight = False, ws_BatchAttempts = 0,
     ws_BatchErrors = 0, ws_BatchCancellations = 0, ws_EventsProcessed = 0\<rparr>"

text \<open>\<open>Processor\<close>; \<open>pr_results\<close> is \<open>None\<close> when it is no \<open>ResultProcessor\<close>.\<close>

record ('e, 's) processor =
  pr_batch :: "'e \<Rightarrow> int \<Rightarrow> 's \<Rightarrow> go_error option \<times> int \<times> 's"
  pr_results :: "('e \<Rightarrow> int \<Rightarrow> 's \<Rightarrow> go_error option \<times> batch_result \<times> 's) option"

record ('e, 's) worker =
  wk_processor :: "('e, 's) processor option"
  wk_interval :: int64
  wk_batch :: int
  wk_logger :: bool
  wk_stats :: worker_stats

definition worker_New :: "('e, 's) processor option \<Rightarrow> int64 \<Rightarrow> int \<Rightarrow> bool \<Rightarrow> ('e, 's) worker" where
  "worker_New p interval batch logger =
     \<lparr>wk_processor = p, wk_interval = interval, wk_batch = batch, wk_logger = logger, wk_stats = zero_stats\<rparr>"

definition worker_start :: "worker_stats \<Rightarrow> bool \<times> worker_stats" where
  "worker_start st = (if ws_Running st then (False, st) else (True, st\<lparr>ws_Running := True\<rparr>))"

definition worker_stop :: "worker_stats \<Rightarrow> worker_stats" where
  "worker_stop st = st\<lparr>ws_Running := False, ws_BatchInFlight := False\<rparr>"

definition beginAttempt :: "worker_stats \<Rightarrow> worker_stats" where
  "beginAttempt st = st\<lparr>ws_BatchInFlight := True\<rparr>"

definition finishAttempt :: "int \<Rightarrow> go_error option \<Rightarrow> bool \<Rightarrow> worker_stats \<Rightarrow> worker_stats" where
  "finishAttempt count err context_err st0 =
     (let st = st0\<lparr>ws_BatchInFlight := False, ws_BatchAttempts := ws_BatchAttempts st0 + 1\<rparr> in
      case err of
        Some e \<Rightarrow>
          (if context_err \<or> errors_is e (Driver Canceled) \<or> errors_is e (Driver DeadlineExceeded)
           then st\<lparr>ws_BatchCancellations := ws_BatchCancellations st + 1\<rparr>
           else st\<lparr>ws_BatchErrors := ws_BatchErrors st + 1\<rparr>)
      | None \<Rightarrow>
          (if count > 0 then st\<lparr>ws_EventsProcessed := ws_EventsProcessed st + word_of_int count\<rparr> else st))"

text \<open>The log lines, with the fields of each.\<close>

datatype worker_log =
    EventUnconfirmed string                          \<comment> \<open>request id\<close>
  | EventProcessed string int64                      \<comment> \<open>request id, retry generation\<close>
  | EventFailed string string int int64              \<comment> \<open>request id, outcome, failures, generation\<close>
  | BatchFailed
  | BatchCompleted int

definition event_log :: "bool \<Rightarrow> processing_event \<Rightarrow> worker_log list" where
  "event_log failed ev =
     (let rid = ForLog (pe_RequestID ev) in
      if rid = [] then []
      else if failed then [EventUnconfirmed rid]
      else if pe_Outcome ev = ''processed'' then [EventProcessed rid (pe_RetryGeneration ev)]
      else if pe_Outcome ev \<in> {''retry_scheduled'', ''quarantined''}
      then [EventFailed rid (pe_Outcome ev) (pe_ProcessingFailures ev) (pe_RetryGeneration ev)]
      else [])"

definition processBatch ::
  "('e, 's) processor \<Rightarrow> int \<Rightarrow> 'e \<Rightarrow> 's \<Rightarrow> int \<times> go_error option \<times> worker_log list \<times> 's" where
  "processBatch p batch env s =
     (case pr_results p of
        None \<Rightarrow> (case pr_batch p env batch s of (err, count, s') \<Rightarrow> (count, err, [], s'))
      | Some results \<Rightarrow>
          (case results env batch s of (err, result, s') \<Rightarrow>
             (br_Processed result, err, concat (map (event_log (err \<noteq> None)) (br_Events result)), s')))"

section \<open>The loop\<close>

text \<open>
  What an expiry of the timer meets: the context may already be done, the attempt has its own
  environment and deadline, and the context may be done when the attempt returns.
\<close>

record 'e tick =
  tk_done_before :: bool
  tk_env :: 'e
  tk_attempt_expired :: bool
  tk_done_after :: bool

datatype 'e wake = CtxDone | TimerFired "'e tick"

record 's loop =
  lp_delay :: int64
  lp_stats :: worker_stats
  lp_log :: "worker_log list"
  lp_timers :: "int64 list"
  lp_store :: 's

definition max_delay :: "int64 \<Rightarrow> int64" where
  "max_delay interval = (if sint interval \<le> 30000000000 then 30000000000 else interval)"

definition next_delay :: "int64 \<Rightarrow> int64 \<Rightarrow> int64" where
  "next_delay md delay = (if sint delay \<ge> sint (go_div md 2) then md else delay * 2)"

text \<open>One attempt: the new state, and whether the loop goes on.\<close>

definition attempt :: "('e, 's) processor \<Rightarrow> int64 \<Rightarrow> int \<Rightarrow> 'e tick \<Rightarrow> 's loop \<Rightarrow> bool \<times> 's loop" where
  "attempt p interval batch t lp0 =
     (let lp = lp0\<lparr>lp_stats := beginAttempt (lp_stats lp0)\<rparr> in
      case processBatch p batch (tk_env t) (lp_store lp) of (count, err, events, s') \<Rightarrow>
        (let lp = lp\<lparr>lp_store := s', lp_log := lp_log lp @ events,
                     lp_stats := finishAttempt count err (tk_attempt_expired t) (lp_stats lp)\<rparr> in
         if tk_done_after t then (False, lp)
         else (let lp = (case err of
                   Some e \<Rightarrow> lp\<lparr>lp_log := lp_log lp @ [BatchFailed],
                              lp_delay := next_delay (max_delay interval) (lp_delay lp)\<rparr>
                 | None \<Rightarrow> lp\<lparr>lp_delay := interval,
                              lp_log := lp_log lp @ (if count > 0 then [BatchCompleted count] else [])\<rparr>)
               in (True, lp\<lparr>lp_timers := lp_timers lp @ [lp_delay lp]\<rparr>))))"

text \<open>\<open>True\<close>: the loop has returned nil.\<close>

fun worker_loop :: "('e, 's) processor \<Rightarrow> int64 \<Rightarrow> int \<Rightarrow> 'e wake list \<Rightarrow> 's loop \<Rightarrow> bool \<times> 's loop" where
  "worker_loop p interval batch [] lp = (False, lp)"
| "worker_loop p interval batch (CtxDone # ws) lp = (True, lp)"
| "worker_loop p interval batch (TimerFired t # ws) lp =
     (if tk_done_before t then (True, lp)
      else (case attempt p interval batch t lp of
              (False, lp') \<Rightarrow> (True, lp')
            | (True, lp') \<Rightarrow> worker_loop p interval batch ws lp'))"

datatype run_result = Returned "go_error option" | Waiting

text \<open>\<open>Run\<close>: the result, the worker with its counters, and the loop's record.\<close>

definition worker_Run ::
  "('e, 's) worker \<Rightarrow> 'e wake list \<Rightarrow> 's \<Rightarrow> run_result \<times> ('e, 's) worker \<times> 's loop" where
  "worker_Run w ws s =
     (let lp = \<lparr>lp_delay = wk_interval w, lp_stats = wk_stats w, lp_log = [], lp_timers = [0], lp_store = s\<rparr>
      in case wk_processor w of
        None \<Rightarrow> (Returned (Some (New ''invalid worker configuration'')), w, lp\<lparr>lp_timers := []\<rparr>)
      | Some p \<Rightarrow>
          (if \<not> wk_logger w \<or> sint (wk_interval w) \<le> 0 \<or> wk_batch w < 1 \<or> wk_batch w > 1000
           then (Returned (Some (New ''invalid worker configuration'')), w, lp\<lparr>lp_timers := []\<rparr>)
           else case worker_start (wk_stats w) of
             (False, st) \<Rightarrow> (Returned (Some (New ''worker is already running'')), w, lp\<lparr>lp_timers := []\<rparr>)
           | (True, st) \<Rightarrow>
               (case worker_loop p (wk_interval w) (wk_batch w) ws (lp\<lparr>lp_stats := st\<rparr>) of
                  (False, lp') \<Rightarrow> (Waiting, w\<lparr>wk_stats := lp_stats lp'\<rparr>, lp')
                | (True, lp') \<Rightarrow>
                    (let st' = worker_stop (lp_stats lp')
                     in (Returned None, w\<lparr>wk_stats := st'\<rparr>, lp'\<lparr>lp_stats := st'\<rparr>)))))"

section \<open>The delay\<close>

lemma max_delay_bounds:
  "0 < sint i \<Longrightarrow> sint i \<le> sint (max_delay i) \<and> 30000000000 \<le> sint (max_delay i)"
  by (simp add: max_delay_def)

text \<open>
  The doubling neither overflows nor passes the maximum, and it is doubling up to the maximum:
  the delay after \<open>k\<close> failures in a row is the interval times \<open>2 ^ k\<close>, at most the maximum.
\<close>

definition backoff :: "int64 \<Rightarrow> nat \<Rightarrow> int" where
  "backoff interval k = min (sint (max_delay interval)) (sint interval * 2 ^ k)"

lemma backoff_0: "0 < sint i \<Longrightarrow> backoff i 0 = sint i"
  using max_delay_bounds [of i] by (simp add: backoff_def)

lemma next_delay_backoff:
  assumes "0 < sint i" and d: "sint d = backoff i k"
  shows "sint (next_delay (max_delay i) d) = backoff i (Suc k)"
proof -
  let ?M = "sint (max_delay i)"
  have M: "sint i \<le> ?M" "30000000000 \<le> ?M" using max_delay_bounds [OF assms(1)] by auto
  have half: "sint (go_div (max_delay i) 2) = ?M div 2"
    using M by (subst sint_go_div) simp_all
  have pos: "sint i \<le> sint i * 2 ^ k" using assms(1) by simp
  show ?thesis
  proof (cases "sint d \<ge> ?M div 2")
    case True
    have "?M \<le> sint i * 2 ^ Suc k"
    proof (cases "sint i \<le> 30000000000")
      case True
      then have "?M = 30000000000" by (simp add: max_delay_def)
      with \<open>sint d \<ge> ?M div 2\<close> d show ?thesis by (simp add: backoff_def min_def split: if_splits)
    next
      case False
      then have "?M = sint i" by (simp add: max_delay_def)
      moreover have "sint i * 1 \<le> sint i * 2 ^ Suc k"
        using assms(1) by (intro mult_left_mono one_le_power) auto
      ultimately show ?thesis by simp
    qed
    with True half show ?thesis by (simp add: next_delay_def backoff_def)
  next
    case False
    then have "sint d < ?M div 2" by simp
    moreover have "?M div 2 \<le> ?M" using M by simp
    ultimately have e: "sint d = sint i * 2 ^ k" and lt: "sint i * 2 ^ k < ?M div 2"
      using d by (auto simp: backoff_def min_def split: if_splits)
    have "sint (d * 2) = sint d * 2"
    proof (subst sint_mult)
      have "0 \<le> sint d" using e assms(1) by simp
      then show "- 9223372036854775808 \<le> sint d * sint (2 :: int64)" by simp
      show "sint d * sint (2 :: int64) \<le> 9223372036854775807"
        using e lt sint_upper [of "max_delay i"] by simp
    qed simp
    moreover have "2 * (sint i * 2 ^ k) < ?M" using lt by linarith
    ultimately show ?thesis using e False half by (simp add: next_delay_def backoff_def min_def)
  qed
qed

lemma backoff_bounds: "0 < sint i \<Longrightarrow> sint i \<le> backoff i k \<and> backoff i k \<le> sint (max_delay i)"
proof -
  assume i: "0 < sint i"
  have "sint i * 1 \<le> sint i * 2 ^ k" using i by (intro mult_left_mono) auto
  with i max_delay_bounds [OF i] show ?thesis by (simp add: backoff_def)
qed


section \<open>The delays of a run\<close>

definition attempt_fails :: "('e, 's) processor \<Rightarrow> int \<Rightarrow> 'e \<Rightarrow> 's \<Rightarrow> bool" where
  "attempt_fails p batch env s \<longleftrightarrow> fst (snd (processBatch p batch env s)) \<noteq> None"

definition attempt_store :: "('e, 's) processor \<Rightarrow> int \<Rightarrow> 'e \<Rightarrow> 's \<Rightarrow> 's" where
  "attempt_store p batch env s = snd (snd (snd (processBatch p batch env s)))"

text \<open>Which of a series of attempts fail, and the delays this calls for.\<close>

fun outcomes :: "('e, 's) processor \<Rightarrow> int \<Rightarrow> 'e tick list \<Rightarrow> 's \<Rightarrow> bool list" where
  "outcomes p batch [] s = []"
| "outcomes p batch (t # ts) s =
     attempt_fails p batch (tk_env t) s # outcomes p batch ts (attempt_store p batch (tk_env t) s)"

fun expected_delays :: "int64 \<Rightarrow> nat \<Rightarrow> bool list \<Rightarrow> int list" where
  "expected_delays i k [] = []"
| "expected_delays i k (True # fs) = backoff i (Suc k) # expected_delays i (Suc k) fs"
| "expected_delays i k (False # fs) = sint i # expected_delays i 0 fs"

lemma expected_delays_bounds:
  "0 < sint i \<Longrightarrow> d \<in> set (expected_delays i k fs) \<Longrightarrow> sint i \<le> d \<and> d \<le> sint (max_delay i)"
  using backoff_bounds [of i] max_delay_bounds [of i]
  by (induction i k fs rule: expected_delays.induct) auto

lemma attempt_eq:
  assumes "processBatch p batch (tk_env t) (lp_store lp) = (count, err, events, s')"
  shows "attempt p interval batch t lp =
    (let stats = finishAttempt count err (tk_attempt_expired t) (beginAttempt (lp_stats lp)) in
     if tk_done_after t then (False, lp\<lparr>lp_stats := stats, lp_log := lp_log lp @ events, lp_store := s'\<rparr>)
     else case err of
       Some e \<Rightarrow> (let d = next_delay (max_delay interval) (lp_delay lp) in
         (True, lp\<lparr>lp_delay := d, lp_stats := stats, lp_log := lp_log lp @ events @ [BatchFailed],
                   lp_timers := lp_timers lp @ [d], lp_store := s'\<rparr>))
     | None \<Rightarrow> (True, lp\<lparr>lp_delay := interval, lp_stats := stats,
           lp_log := lp_log lp @ events @ (if count > 0 then [BatchCompleted count] else []),
           lp_timers := lp_timers lp @ [interval], lp_store := s'\<rparr>))"
  using assms by (cases err) (auto simp: attempt_def Let_def)

lemma worker_loop_delays:
  assumes i: "0 < sint interval"
  shows "\<forall>t\<in>set ts. \<not> tk_done_before t \<and> \<not> tk_done_after t \<Longrightarrow> sint (lp_delay lp) = backoff interval k \<Longrightarrow>
    map sint (lp_timers (snd (worker_loop p interval batch (map TimerFired ts) lp))) =
    map sint (lp_timers lp) @ expected_delays interval k (outcomes p batch ts (lp_store lp))"
proof (induction ts arbitrary: lp k)
  case (Cons t ts)
  obtain count err events s' where pb: "processBatch p batch (tk_env t) (lp_store lp) = (count, err, events, s')"
    by (metis prod_cases4)
  have fs: "attempt_fails p batch (tk_env t) (lp_store lp) \<longleftrightarrow> err \<noteq> None"
    "attempt_store p batch (tk_env t) (lp_store lp) = s'"
    by (simp_all add: attempt_fails_def attempt_store_def pb)
  show ?case
  proof (cases err)
    case None
    with Cons.IH [of _ 0] Cons.prems backoff_0 [OF i] fs show ?thesis
      by (simp add: attempt_eq [OF pb] Let_def)
  next
    case (Some e)
    with Cons.IH [of _ "Suc k"] Cons.prems next_delay_backoff [OF i Cons.prems(2)] fs show ?thesis
      by (simp add: attempt_eq [OF pb] Let_def)
  qed
qed simp

section \<open>The log\<close>

text \<open>What a log line may carry: re-encoded request identifiers, never an error's text.\<close>

fun log_ok :: "worker_log \<Rightarrow> bool" where
  "log_ok (EventUnconfirmed r) = request_id_ok r"
| "log_ok (EventProcessed r g) = request_id_ok r"
| "log_ok (EventFailed r out n g) = (request_id_ok r \<and> out \<in> {''retry_scheduled'', ''quarantined''})"
| "log_ok BatchFailed = True"
| "log_ok (BatchCompleted n) = (0 < n)"

lemma event_log_ok: "l \<in> set (event_log failed ev) \<Longrightarrow> log_ok l"
  using ForLog_ok [of "pe_RequestID ev"] by (auto simp: event_log_def Let_def split: if_splits)

lemma processBatch_log_ok:
  "processBatch p batch env s = (count, err, events, s') \<Longrightarrow> l \<in> set events \<Longrightarrow> log_ok l"
  by (auto simp: processBatch_def split: option.splits prod.splits dest: event_log_ok)

lemma worker_loop_log:
  "list_all log_ok (lp_log lp) \<Longrightarrow> list_all log_ok (lp_log (snd (worker_loop p interval batch ws lp)))"
proof (induction p interval batch ws lp rule: worker_loop.induct)
  case (3 p interval batch t ws lp)
  obtain count err events s' where pb: "processBatch p batch (tk_env t) (lp_store lp) = (count, err, events, s')"
    by (metis prod_cases4)
  obtain go lp' where a: "attempt p interval batch t lp = (go, lp')" by fastforce
  have "list_all log_ok events" using processBatch_log_ok [OF pb] by (simp add: list_all_iff)
  with a "3.prems" have ok: "list_all log_ok (lp_log lp')"
    by (auto simp: attempt_eq [OF pb] Let_def split: if_splits option.splits)
  show ?case
  proof (cases "tk_done_before t")
    case False
    then show ?thesis using a ok "3.IH" [OF False, of go lp'] by (cases go) auto
  qed (use "3.prems" in simp)
qed auto

section \<open>The counters\<close>

lemma beginAttempt_simps [simp]:
  "ws_BatchAttempts (beginAttempt st) = ws_BatchAttempts st"
  "ws_BatchErrors (beginAttempt st) = ws_BatchErrors st"
  "ws_BatchCancellations (beginAttempt st) = ws_BatchCancellations st"
  "ws_EventsProcessed (beginAttempt st) = ws_EventsProcessed st"
  by (simp_all add: beginAttempt_def)

lemma finishAttempt_success:
  assumes "0 \<le> count"
  shows "ws_BatchAttempts (finishAttempt count None x st) = ws_BatchAttempts st + 1"
    "ws_BatchErrors (finishAttempt count None x st) = ws_BatchErrors st"
    "ws_BatchCancellations (finishAttempt count None x st) = ws_BatchCancellations st"
    "ws_EventsProcessed (finishAttempt count None x st) = ws_EventsProcessed st + word_of_int count"
  using assms by (simp_all add: finishAttempt_def Let_def)

text \<open>What the worker relies on: a batch that fails posts nothing it reports, one that succeeds reports what it posted.\<close>

locale batch_processor =
  fixes p :: "('e, 's) processor"
    and inv :: "'s \<Rightarrow> bool"
    and posted :: "'s \<Rightarrow> nat"
  assumes batch_inv: "inv s \<Longrightarrow> processBatch p batch env s = (count, err, events, s') \<Longrightarrow> inv s'"
    and batch_posted: "inv s \<Longrightarrow> processBatch p batch env s = (count, None, events, s') \<Longrightarrow>
      0 \<le> count \<and> int (posted s') = int (posted s) + count"
    and failed_posted: "inv s \<Longrightarrow> processBatch p batch env s = (count, Some e, events, s') \<Longrightarrow> posted s \<le> posted s'"
begin

text \<open>
  The counters of a run: \<open>k\<close> successful attempts that posted \<open>n\<close> events, \<open>e\<close> errors and \<open>c\<close>
  cancellations. At least \<open>n\<close> events were posted, exactly \<open>n\<close> when no attempt failed.
\<close>

definition accounts :: "'s loop \<Rightarrow> 's loop \<Rightarrow> bool" where
  "accounts lp lp' \<longleftrightarrow> (\<exists>k n e c.
     ws_BatchAttempts (lp_stats lp') = ws_BatchAttempts (lp_stats lp) + of_nat (k + e + c) \<and>
     ws_BatchErrors (lp_stats lp') = ws_BatchErrors (lp_stats lp) + of_nat e \<and>
     ws_BatchCancellations (lp_stats lp') = ws_BatchCancellations (lp_stats lp) + of_nat c \<and>
     ws_EventsProcessed (lp_stats lp') = ws_EventsProcessed (lp_stats lp) + of_nat n \<and>
     posted (lp_store lp) + n \<le> posted (lp_store lp') \<and>
     (e + c = 0 \<longrightarrow> posted (lp_store lp') = posted (lp_store lp) + n))"

lemma accountsI:
  assumes "ws_BatchAttempts (lp_stats lp') = ws_BatchAttempts (lp_stats lp) + of_nat (k + e + c)"
    and "ws_BatchErrors (lp_stats lp') = ws_BatchErrors (lp_stats lp) + of_nat e"
    and "ws_BatchCancellations (lp_stats lp') = ws_BatchCancellations (lp_stats lp) + of_nat c"
    and "ws_EventsProcessed (lp_stats lp') = ws_EventsProcessed (lp_stats lp) + of_nat n"
    and "posted (lp_store lp) + n \<le> posted (lp_store lp')"
    and "e + c = 0 \<Longrightarrow> posted (lp_store lp') = posted (lp_store lp) + n"
  shows "accounts lp lp'"
  unfolding accounts_def using assms by blast

lemma accounts_refl: "accounts lp lp"
  by (rule accountsI [of _ _ 0 0 0 0]) simp_all

lemma accounts_trans:
  assumes "accounts a b" and "accounts b c"
  shows "accounts a c"
proof -
  from assms(1) obtain k1 n1 e1 c1 where 1:
    "ws_BatchAttempts (lp_stats b) = ws_BatchAttempts (lp_stats a) + of_nat (k1 + e1 + c1)"
    "ws_BatchErrors (lp_stats b) = ws_BatchErrors (lp_stats a) + of_nat e1"
    "ws_BatchCancellations (lp_stats b) = ws_BatchCancellations (lp_stats a) + of_nat c1"
    "ws_EventsProcessed (lp_stats b) = ws_EventsProcessed (lp_stats a) + of_nat n1"
    "posted (lp_store a) + n1 \<le> posted (lp_store b)"
    "e1 + c1 = 0 \<longrightarrow> posted (lp_store b) = posted (lp_store a) + n1"
    unfolding accounts_def by blast
  from assms(2) obtain k2 n2 e2 c2 where 2:
    "ws_BatchAttempts (lp_stats c) = ws_BatchAttempts (lp_stats b) + of_nat (k2 + e2 + c2)"
    "ws_BatchErrors (lp_stats c) = ws_BatchErrors (lp_stats b) + of_nat e2"
    "ws_BatchCancellations (lp_stats c) = ws_BatchCancellations (lp_stats b) + of_nat c2"
    "ws_EventsProcessed (lp_stats c) = ws_EventsProcessed (lp_stats b) + of_nat n2"
    "posted (lp_store b) + n2 \<le> posted (lp_store c)"
    "e2 + c2 = 0 \<longrightarrow> posted (lp_store c) = posted (lp_store b) + n2"
    unfolding accounts_def by blast
  show ?thesis
  proof (rule accountsI)
    show "ws_BatchAttempts (lp_stats c) = ws_BatchAttempts (lp_stats a) + of_nat ((k1 + k2) + (e1 + e2) + (c1 + c2))"
      by (simp only: 1(1) 2(1) of_nat_add ac_simps)
    show "ws_BatchErrors (lp_stats c) = ws_BatchErrors (lp_stats a) + of_nat (e1 + e2)"
      by (simp only: 1(2) 2(2) of_nat_add ac_simps)
    show "ws_BatchCancellations (lp_stats c) = ws_BatchCancellations (lp_stats a) + of_nat (c1 + c2)"
      by (simp only: 1(3) 2(3) of_nat_add ac_simps)
    show "ws_EventsProcessed (lp_stats c) = ws_EventsProcessed (lp_stats a) + of_nat (n1 + n2)"
      by (simp only: 1(4) 2(4) of_nat_add ac_simps)
    show "posted (lp_store a) + (n1 + n2) \<le> posted (lp_store c)" using 1(5) 2(5) by simp
    show "posted (lp_store c) = posted (lp_store a) + (n1 + n2)" if "e1 + e2 + (c1 + c2) = 0"
      using 1(6) 2(6) that by simp
  qed
qed

lemma attempt_accounts:
  assumes "inv (lp_store lp)" and a: "attempt p interval batch t lp = (go, lp')"
  shows "inv (lp_store lp') \<and> accounts lp lp'"
proof -
  obtain count err events s' where pb: "processBatch p batch (tk_env t) (lp_store lp) = (count, err, events, s')"
    by (metis prod_cases4)
  have res: "lp_store lp' = s'"
    "lp_stats lp' = finishAttempt count err (tk_attempt_expired t) (beginAttempt (lp_stats lp))"
    using a by (auto simp: attempt_eq [OF pb] Let_def split: if_splits option.splits)
  have "accounts lp lp'"
  proof (cases err)
    case None
    from batch_posted [OF assms(1) pb [unfolded None]]
    have c: "0 \<le> count" "int (posted s') = int (posted (lp_store lp)) + count" by simp_all
    then have n: "posted s' = posted (lp_store lp) + nat count" by linarith
    have w: "word_of_int count = (of_nat (nat count) :: uint64)" using c(1) by simp
    note stats = finishAttempt_success [OF c(1), of "tk_attempt_expired t" "beginAttempt (lp_stats lp)"]
    show ?thesis
      by (rule accountsI [of _ _ 1 0 0 "nat count"]) (simp_all add: res None stats n w)
  next
    case (Some e)
    from failed_posted [OF assms(1) pb [unfolded Some]] have le: "posted (lp_store lp) \<le> posted s'" .
    show ?thesis
    proof (cases "tk_attempt_expired t \<or> errors_is e (Driver Canceled) \<or> errors_is e (Driver DeadlineExceeded)")
      case True
      with Some le res show ?thesis
        by (intro accountsI [of _ _ 0 0 1 0]) (simp_all add: finishAttempt_def beginAttempt_def Let_def)
    next
      case False
      with Some le res show ?thesis
        by (intro accountsI [of _ _ 0 1 0 0]) (simp_all add: finishAttempt_def beginAttempt_def Let_def)
    qed
  qed
  with res batch_inv [OF assms(1) pb] show ?thesis by simp
qed

lemma loop_accounts:
  "inv (lp_store lp) \<Longrightarrow>
   inv (lp_store (snd (worker_loop p interval batch ws lp))) \<and> accounts lp (snd (worker_loop p interval batch ws lp))"
proof (induction ws arbitrary: lp)
  case (Cons w ws)
  show ?case
  proof (cases w)
    case CtxDone
    with Cons.prems show ?thesis by (simp add: accounts_refl)
  next
    case (TimerFired t)
    obtain go lp' where a: "attempt p interval batch t lp = (go, lp')" by fastforce
    from attempt_accounts [OF Cons.prems a] have 1: "inv (lp_store lp')" "accounts lp lp'" by simp_all
    show ?thesis
    proof (cases "tk_done_before t")
      case True
      with TimerFired Cons.prems show ?thesis by (simp add: accounts_refl)
    next
      case False
      with TimerFired a 1 Cons.IH [OF 1(1)] accounts_trans [OF 1(2)] show ?thesis by (cases go) auto
    qed
  qed
qed (simp add: accounts_refl)

end

end
