(* ===== verification/Telemetry.thy ===== *)
theory Telemetry
  imports Worker
begin

text \<open>
  \<open>internal/telemetry/metrics.go\<close>: the collector, its counter of failed queue scrapes and the
  metrics text, as the list of its lines. The queue's age is kept in microseconds, as the store
  reads it; how the float of seconds is printed is the argument \<open>float_text\<close>.
\<close>

type_synonym queue_answer = "go_error + int \<times> int \<times> int"

record ('e, 's) collector =
  col_queueStats :: "'e \<Rightarrow> 's \<Rightarrow> queue_answer"
  col_workerStats :: "'s \<Rightarrow> worker_stats"

definition telemetry_New ::
  "('e \<Rightarrow> 's \<Rightarrow> queue_answer) option \<Rightarrow> ('s \<Rightarrow> worker_stats) option \<Rightarrow> go_error + ('e, 's) collector" where
  "telemetry_New queue wstats =
     (case (queue, wstats) of
        (Some q, Some w) \<Rightarrow> Inr \<lparr>col_queueStats = q, col_workerStats = w\<rparr>
      | _ \<Rightarrow> Inl (New ''queue and worker metrics callbacks are required''))"

definition writeBool :: "string \<Rightarrow> bool \<Rightarrow> string" where
  "writeBool prefix b = prefix @ (if b then ''1'' else ''0'')"

definition writeInt :: "string \<Rightarrow> int \<Rightarrow> string" where
  "writeInt prefix v = prefix @ show_int v"

definition writeUint :: "string \<Rightarrow> uint64 \<Rightarrow> string" where
  "writeUint prefix v = prefix @ show_nat (unat v)"

definition writeFloat :: "(int \<Rightarrow> string) \<Rightarrow> string \<Rightarrow> int \<Rightarrow> string" where
  "writeFloat float_text prefix v = prefix @ float_text v"

definition queue_lines :: "(int \<Rightarrow> string) \<Rightarrow> queue_answer \<Rightarrow> string list" where
  "queue_lines float_text answer =
     [''# HELP usage_billing_queue_scrape_success Whether the latest queue query succeeded.'',
      ''# TYPE usage_billing_queue_scrape_success gauge''] @
     (case answer of
        Inl err \<Rightarrow> [''usage_billing_queue_scrape_success 0'']
      | Inr (pending, failed, age) \<Rightarrow>
          [''usage_billing_queue_scrape_success 1'',
           ''# HELP usage_billing_queue_pending_events Durable events waiting for the worker.'',
           ''# TYPE usage_billing_queue_pending_events gauge'',
           writeInt ''usage_billing_queue_pending_events '' pending,
           ''# HELP usage_billing_queue_failed_events Durable events requiring manual recovery.'',
           ''# TYPE usage_billing_queue_failed_events gauge'',
           writeInt ''usage_billing_queue_failed_events '' failed,
           ''# HELP usage_billing_queue_oldest_event_age_seconds Age of the oldest pending event.'',
           ''# TYPE usage_billing_queue_oldest_event_age_seconds gauge'',
           writeFloat float_text ''usage_billing_queue_oldest_event_age_seconds '' age])"

definition worker_lines :: "uint64 \<Rightarrow> worker_stats \<Rightarrow> string list" where
  "worker_lines queue_errors stats =
     [''# HELP usage_billing_queue_scrape_errors_total Failed queue metric queries.'',
      ''# TYPE usage_billing_queue_scrape_errors_total counter'',
      writeUint ''usage_billing_queue_scrape_errors_total '' queue_errors,
      ''# HELP usage_billing_worker_running Whether this process owns a running worker loop.'',
      ''# TYPE usage_billing_worker_running gauge'',
      writeBool ''usage_billing_worker_running '' (ws_Running stats),
      ''# HELP usage_billing_worker_batch_in_flight Whether a worker batch is currently running.'',
      ''# TYPE usage_billing_worker_batch_in_flight gauge'',
      writeBool ''usage_billing_worker_batch_in_flight '' (ws_BatchInFlight stats),
      ''# HELP usage_billing_worker_batch_attempts_total Worker batch calls completed or cancelled.'',
      ''# TYPE usage_billing_worker_batch_attempts_total counter'',
      writeUint ''usage_billing_worker_batch_attempts_total '' (ws_BatchAttempts stats),
      ''# HELP usage_billing_worker_batch_errors_total Worker batch calls that failed for a non-context error.'',
      ''# TYPE usage_billing_worker_batch_errors_total counter'',
      writeUint ''usage_billing_worker_batch_errors_total '' (ws_BatchErrors stats),
      ''# HELP usage_billing_worker_batch_cancellations_total Worker batch calls stopped by cancellation or deadline.'',
      ''# TYPE usage_billing_worker_batch_cancellations_total counter'',
      writeUint ''usage_billing_worker_batch_cancellations_total '' (ws_BatchCancellations stats),
      ''# HELP usage_billing_worker_events_processed_total Events durably removed from the pending queue by this process.'',
      ''# TYPE usage_billing_worker_events_processed_total counter'',
      writeUint ''usage_billing_worker_events_processed_total '' (ws_EventsProcessed stats)]"

text \<open>\<open>Metrics\<close>: the text, and the counter of failed queries after it.\<close>

definition collector_Metrics ::
  "(int \<Rightarrow> string) \<Rightarrow> ('e, 's) collector \<Rightarrow> uint64 \<Rightarrow> 'e \<Rightarrow> 's \<Rightarrow> string \<times> uint64" where
  "collector_Metrics float_text col queue_errors env s =
     (let answer = col_queueStats col env s;
          queue_errors' = (case answer of Inl err \<Rightarrow> queue_errors + 1 | Inr q \<Rightarrow> queue_errors);
          lines = queue_lines float_text answer @ worker_lines queue_errors' (col_workerStats col s)
      in (concat (map (\<lambda>l. l @ [CHR 0x0A]) lines), queue_errors'))"

section \<open>Reading the text back\<close>

text \<open>A scraper: the sample of a metric is what follows its name and a space on its line.\<close>

definition sample_of :: "string \<Rightarrow> string \<Rightarrow> string option" where
  "sample_of name text =
     (case find (\<lambda>l. take (Suc (length name)) l = name @ '' '') (split_on (CHR 0x0A) text) of
        None \<Rightarrow> None | Some l \<Rightarrow> Some (drop (Suc (length name)) l))"

lemma split_lines:
  "\<forall>l\<in>set ls. c \<notin> set l \<Longrightarrow> split_on c (concat (map (\<lambda>l. l @ [c]) ls)) = ls @ [[]]"
  by (induction ls) (simp_all add: split_on_append)

lemma no_newline_digits: "list_all is_digit s \<Longrightarrow> CHR 0x0A \<notin> set s"
  by (auto simp: list_all_iff is_digit_def less_eq_char_def)

lemma no_newline_show_nat [simp]: "CHR 0x0A \<notin> set (show_nat n)"
  using show_nat_correct [of n] by (simp add: no_newline_digits)

lemma no_newline_show_int [simp]: "CHR 0x0A \<notin> set (show_int i)"
  by (simp add: show_int_def)

lemma lines_clean:
  "(\<And>v. CHR 0x0A \<notin> set (float_text v)) \<Longrightarrow>
   \<forall>l\<in>set (queue_lines float_text answer @ worker_lines n stats). CHR 0x0A \<notin> set l"
  by (cases answer)
    (auto simp: queue_lines_def worker_lines_def writeInt_def writeUint_def writeBool_def writeFloat_def)

text \<open>The first line that starts with a name and a space, in a text of clean lines.\<close>

lemma sample_of_lines:
  assumes "\<forall>l\<in>set ls. CHR 0x0A \<notin> set l"
  shows "sample_of name (concat (map (\<lambda>l. l @ [CHR 0x0A]) ls)) =
    (case find (\<lambda>l. take (Suc (length name)) l = name @ '' '') ls of
       None \<Rightarrow> None | Some l \<Rightarrow> Some (drop (Suc (length name)) l))"
proof -
  have "find P (ls @ [[]]) = find P ls" if "\<not> P []" for P :: "string \<Rightarrow> bool"
    using that by (induction ls) auto
  then show ?thesis using split_lines [OF assms] by (simp add: sample_of_def)
qed

end
