(* ===== verification/System.thy ===== *)
theory System
  imports Http_Facts Telemetry Store_Repository Store_Drain
begin

text \<open>
  The components put together as \<open>run\<close> in \<open>cmd/usage-billing/main.go\<close> does: the handler over
  the service over the store, the collector over the queue's statistics and the worker's
  counters, and the worker over the store. The state is the database, the collector's counter
  and the worker's counters.
\<close>

record system =
  sys_db :: db
  sys_queue_errors :: uint64
  sys_worker :: worker_stats

section \<open>The service behind the handler\<close>

definition api_of :: "(pg_env, db) service \<Rightarrow> byte list option \<Rightarrow> (pg_env, system) api_service" where
  "api_of sv rand =
     \<lparr>as_Accept = \<lambda>c inp s. (case service_Accept sv rand c inp (sys_db s) of
        Panic m \<Rightarrow> Panic m | Return (r, d) \<Rightarrow> Return (r, s\<lparr>sys_db := d\<rparr>)),
      as_Get = \<lambda>c i s. service_Get sv c i (sys_db s),
      as_Summary = \<lambda>c i s. service_Summary sv c i (sys_db s),
      as_Retry = \<lambda>c i g s. (case service_Retry sv c i g (sys_db s) of (r, d) \<Rightarrow> (r, s\<lparr>sys_db := d\<rparr>))\<rparr>"

definition billing_service :: "store \<Rightarrow> int64 \<Rightarrow> (pg_env, db) service" where
  "billing_service st rate = \<lparr>svc_repo = pg_repository st, svc_rate = rate\<rparr>"

lemma billing_service_simps [simp]:
  "svc_repo (billing_service st rate) = pg_repository st" "svc_rate (billing_service st rate) = rate"
  by (simp_all add: billing_service_def)

lemma Accept_with_id_returns:
  assumes "FromContext c \<noteq> []"
  shows "\<exists>r d'. service_Accept sv rand c inp d = Return (r, d')"
  using assms by (auto simp: service_Accept_def split: option.splits sum.splits prod.splits)

interpretation api: http_service "api_of (billing_service st rate) rand" "\<lambda>s. store_inv (sys_db s)"
  for st rate rand
proof unfold_locales
  fix c :: "pg_env ctx" and inp s r s' i g
  show "\<exists>r s'. as_Accept (api_of (billing_service st rate) rand) c inp s = Return (r, s')"
    if "FromContext c \<noteq> []"
    using Accept_with_id_returns [OF that, of "billing_service st rate" rand inp "sys_db s"]
    by (auto simp: api_of_def)
  show "store_inv (sys_db s')" if "store_inv (sys_db s)"
    "as_Accept (api_of (billing_service st rate) rand) c inp s = Return (r, s')"
    using that pg.Accept_inv [OF that(1), of "billing_service st rate"]
    by (auto simp: api_of_def split: go_outcome.splits prod.splits)
  show "store_inv (sys_db (snd (as_Retry (api_of (billing_service st rate) rand) c i g s)))"
    if "store_inv (sys_db s)"
    using pg.Retry_inv [OF that, of "billing_service st rate" st c i g]
    by (auto simp: api_of_def split: prod.splits)
qed

section \<open>The worker over the store\<close>

definition pg_processor :: "(pg_env, db) processor" where
  "pg_processor = \<lparr>pr_batch = ProcessBatch, pr_results = Some ProcessBatchWithResults\<rparr>"

lemma processBatch_pg:
  "processBatch pg_processor batch env d =
    (case ProcessBatchWithResults env batch d of (err, res, d') \<Rightarrow>
       (br_Processed res, err, concat (map (event_log (err \<noteq> None)) (br_Events res)), d'))"
  by (simp add: processBatch_def pg_processor_def)

text \<open>Under the invariant the ledger has as many rows as there are events that are not queued.\<close>

lemma ledger_length:
  assumes "store_inv d"
  shows "length (ledger_entries d) + length (pending_events d) = length (usage_events d)"
proof -
  have "card (set (ledger_ids d) \<union> set (pending_ids d)) = card (set (ledger_ids d)) + card (set (pending_ids d))"
    using store_invD(4) [OF assms] by (intro card_Un_disjoint) auto
  moreover have "set (ledger_ids d) \<union> set (pending_ids d) = set (usage_ids d)"
    using store_invD(5) [OF assms] by blast
  ultimately have "card (set (usage_ids d)) = card (set (ledger_ids d)) + card (set (pending_ids d))" by simp
  then show ?thesis using store_invD(1-3) [OF assms] by (simp add: distinct_card del: set_map)
qed

lemma batch_done_ledger:
  assumes inv: "store_inv d" and bd: "batch_done env limit d viol n evs d'"
  shows "0 \<le> n \<and> int (length (ledger_entries d')) = int (length (ledger_entries d)) + n"
proof -
  let ?is = "claimed_ids env limit d"
  from bd have ids: "pending_ids d' = filter (\<lambda>i. \<not> (i \<in> set ?is \<and> viol i = None)) (pending_ids d)"
    and usage: "usage_events d' = usage_events d" and n: "n = int (length (filter (\<lambda>i. viol i = None) ?is))"
    by (simp_all add: batch_done_def batch_inv_def)
  note dist = distinct_claimed_ids [OF inv, of env limit]
  have "length (filter (\<lambda>i. i \<in> set (filter (\<lambda>i. viol i = None) ?is)) (pending_ids d)) =
      length (filter (\<lambda>i. viol i = None) ?is)"
    using length_filter_key_distinct [of id "pending_ids d" "filter (\<lambda>i. viol i = None) ?is"]
      store_invD(2) [OF inv] claimed_ids_pending [of env limit d] dist by auto
  moreover have "filter (\<lambda>i. i \<in> set (filter (\<lambda>i. viol i = None) ?is)) (pending_ids d) =
      filter (\<lambda>i. i \<in> set ?is \<and> viol i = None) (pending_ids d)" by (intro filter_cong) auto
  ultimately have "length (pending_ids d') + length (filter (\<lambda>i. viol i = None) ?is) = length (pending_ids d)"
    using sum_length_filter_compl [of "\<lambda>i. i \<in> set ?is \<and> viol i = None" "pending_ids d"] by (simp add: ids)
  then have "length (pending_events d') + length (filter (\<lambda>i. viol i = None) ?is) = length (pending_events d)" by simp
  with ledger_length [OF inv] ledger_length [OF batch_done_inv [OF bd]] usage n show ?thesis by simp
qed

interpretation wk: batch_processor pg_processor store_inv "\<lambda>d. length (ledger_entries d)"
proof unfold_locales
  fix d :: db and batch env count err events d' e
  assume inv: "store_inv d"
  show "store_inv d'" if "processBatch pg_processor batch env d = (count, err, events, d')"
    using ProcessBatch_inv [OF inv, of env batch] that by (auto simp: processBatch_pg split: prod.splits)
  show "0 \<le> count \<and> int (length (ledger_entries d')) = int (length (ledger_entries d)) + count"
    if "processBatch pg_processor batch env d = (count, None, events, d')"
  proof -
    from that obtain res where run: "ProcessBatchWithResults env batch d = (None, res, d')" "br_Processed res = count"
      by (auto simp: processBatch_pg split: prod.splits)
    from run(1) inv show ?thesis
      by (cases rule: ProcessBatch_cases) (use inv run(2) batch_done_ledger in auto)
  qed
  show "length (ledger_entries d) \<le> length (ledger_entries d')"
    if "processBatch pg_processor batch env d = (count, Some e, events, d')"
  proof -
    from that obtain res where run: "ProcessBatchWithResults env batch d = (Some e, res, d')"
      by (auto simp: processBatch_pg split: prod.splits)
    from run(1) inv show ?thesis
    proof (cases rule: ProcessBatch_cases)
      case (unconfirmed e' k viol n evs)
      with batch_done_ledger [OF inv unconfirmed(4)] show ?thesis by simp
    qed simp_all
  qed
qed

text \<open>The store after a run of the loop is that of its batches.\<close>

lemma worker_loop_store:
  "\<forall>t\<in>set ts. \<not> tk_done_before t \<and> \<not> tk_done_after t \<Longrightarrow>
   lp_store (snd (worker_loop pg_processor interval batch (map TimerFired ts) lp)) =
     run_batches batch (map tk_env ts) (lp_store lp)"
proof (induction ts arbitrary: lp)
  case (Cons t ts)
  obtain err res d' where run: "ProcessBatchWithResults (tk_env t) batch (lp_store lp) = (err, res, d')"
    by (metis prod_cases3)
  then have pb: "processBatch pg_processor batch (tk_env t) (lp_store lp) =
      (br_Processed res, err, concat (map (event_log (err \<noteq> None)) (br_Events res)), d')"
    by (simp add: processBatch_pg)
  from Cons show ?case
    by (cases err) (simp_all add: attempt_eq [OF pb] Let_def run_batches_Cons run)
qed (simp add: run_batches_def)

section \<open>The metrics source\<close>

text \<open>\<open>Worker.Snapshot\<close>: a copy of the counters, taken under the worker's mutex.\<close>

definition Snapshot :: "system \<Rightarrow> worker_stats" where
  [simp]: "Snapshot s = sys_worker s"

definition pg_collector :: "(pg_env, system) collector" where
  "pg_collector = \<lparr>col_queueStats = \<lambda>env s. store_QueueStats env (sys_db s), col_workerStats = Snapshot\<rparr>"

definition metrics_source :: "(int \<Rightarrow> string) \<Rightarrow> (pg_env, system) metrics_source" where
  "metrics_source float_text = (\<lambda>c s.
     (case collector_Metrics float_text pg_collector (sys_queue_errors s) (ctx_env c) s of
        (text, n) \<Rightarrow> (text, s\<lparr>sys_queue_errors := n\<rparr>)))"

end
