(* ===== verification/Http_Requests.thy ===== *)
theory Http_Requests
  imports Http_Facts
begin

text \<open>
  What a whole request meets: exactly which objects \<open>decodeInput\<close> takes, who is authorized, what
  the reply to a service error depends on, and that the status the handler counts is the one it
  wrote.
\<close>

section \<open>The objects that are an input\<close>

lemma unmarshal_member_members:
  assumes "unmarshal_member key t inp = Some inp'" and "t \<noteq> TLiteral ''null''" and "token_ok t"
  shows "(key, t) \<in> set (input_members inp') \<and> length (input_members inp') = 4 \<and>
    (\<forall>m\<in>set (input_members inp). fst m \<noteq> key \<longrightarrow> m \<in> set (input_members inp'))"
proof -
  from assms(1) have "key = ''event_id'' \<or> key = ''customer_id'' \<or> key = ''meter'' \<or> key = ''units''"
    by (auto simp: unmarshal_member_def split: if_splits)
  with assms show ?thesis
    by (elim disjE; cases t)
      (auto simp: unmarshal_member_def unmarshal_string_def unmarshal_int64_def input_members_def int_text_def
        split: option.splits if_splits)
qed

lemma apply_members_only:
  "apply_members ms seen inp0 = Some (seen', inp) \<Longrightarrow> list_all member_ok ms \<Longrightarrow>
   seen' = seen @ map fst ms \<and> distinct (map fst ms) \<and> set (map fst ms) \<inter> set seen = {} \<and>
   set ms \<subseteq> set (input_members inp) \<and>
   (\<forall>m\<in>set (input_members inp0). fst m \<notin> set (map fst ms) \<longrightarrow> m \<in> set (input_members inp))"
proof (induction ms arbitrary: seen inp0)
  case (Cons m ms)
  obtain key t where m: "m = (key, t)" by fastforce
  from Cons.prems(1) obtain inp1 where u: "unmarshal_member key t inp0 = Some inp1" "t \<noteq> TLiteral ''null''"
    and new: "key \<notin> set seen" and rest: "apply_members ms (seen @ [key]) inp1 = Some (seen', inp)"
    by (auto simp: m split: if_splits option.splits)
  from Cons.prems(2) have "member_ok (key, t)" and ok2: "list_all member_ok ms" by (simp_all add: m)
  then have ok: "token_ok t" "list_all member_ok ms" by (simp_all add: member_ok_def)
  note 1 = unmarshal_member_members [OF u ok(1)]
  note IH = Cons.IH [OF rest ok(2)]
  from IH have "key \<notin> set (map fst ms)" by auto
  with IH 1 new show ?case by (auto simp: m)
qed simp

lemma distinct_input_members: "distinct (input_members inp)" "distinct (map fst (input_members inp))"
  "length (input_members inp) = 4"
  by (simp_all add: input_members_def)

text \<open>Exactly the objects with the four members, once each, and the value is theirs.\<close>

lemma decodeInput_exact:
  assumes sp: "list_all is_space sp" and ok: "list_all member_ok ms"
  shows "decodeInput (object_text sp ms) = Inr inp \<longleftrightarrow> mset ms = mset (input_members inp)"
proof
  assume "decodeInput (object_text sp ms) = Inr inp"
  with decodeInput_object_text [OF assms] obtain seen where
    a: "apply_members ms [] zero_input = Some (seen, inp)" "length seen = 4"
    by (auto split: option.splits prod.splits if_splits)
  from apply_members_only [OF a(1) ok] a(2)
  have d: "distinct (map fst ms)" "length ms = 4" "set ms \<subseteq> set (input_members inp)" by auto
  then have dm: "distinct ms" by (simp add: distinct_map)
  have "set ms = set (input_members inp)"
    using d(2,3) distinct_card [OF dm] distinct_card [OF distinct_input_members(1), of inp] distinct_input_members(3) [of inp]
    by (intro card_subset_eq) auto
  with dm distinct_input_members(1) [of inp] show "mset ms = mset (input_members inp)"
    by (simp add: set_eq_iff_mset_eq_distinct [symmetric])
next
  assume m: "mset ms = mset (input_members inp)"
  then have "list_all member_ok (input_members inp)" using ok by (metis list.pred_set mset_eq_setD)
  then have "plain_input inp" by (simp add: input_members_def member_ok_def plain_input_def)
  from decodeInput_members [OF sp this m] show "decodeInput (object_text sp ms) = Inr inp" .
qed

text \<open>A valid input is written without escapes.\<close>

lemma id_byte_plain: "id_byte c \<Longrightarrow> plain c"
  by (auto simp: id_byte_def plain_def in_range_def Let_def less_eq_char_def)

lemma valid_id_plain: "valid_id s \<Longrightarrow> list_all plain s"
  by (auto simp: valid_id_def list_all_iff id_byte_plain)

lemma valid_input_plain: "valid_input inp \<Longrightarrow> plain_input inp"
  by (simp add: valid_input_def plain_input_def valid_id_plain) (simp add: plain_def in_range_def)

section \<open>Authorization\<close>

text \<open>The configured token in one Authorization header, whatever the case of the scheme.\<close>

definition carries_token :: "http_lib \<Rightarrow> string \<Rightarrow> request \<Rightarrow> bool" where
  "carries_token lib token r \<longleftrightarrow> (\<exists>scheme cred. header_values ''Authorization'' r = [scheme @ CHR '' '' # cred] \<and>
     CHR '' '' \<notin> set scheme \<and> equal_fold scheme ''Bearer'' \<and> lib_sha256 lib cred = lib_sha256 lib token)"

lemma authorized_carries:
  assumes "h_token_hash h = lib_sha256 lib token"
  shows "authorized lib h r \<longleftrightarrow> carries_token lib token r"
proof (cases "header_values ''Authorization'' r")
  case Nil
  then show ?thesis by (simp add: authorized_def carries_token_def)
next
  case (Cons v vs)
  show ?thesis
  proof (cases "vs = []")
    case True
    have "authorized lib h r \<longleftrightarrow> (\<exists>scheme cred. cut CHR '' '' v = Some (scheme, cred) \<and>
        equal_fold scheme ''Bearer'' \<and> lib_sha256 lib cred = lib_sha256 lib token)"
      using assms Cons True by (auto simp: authorized_def split: option.splits)
    also have "\<dots> \<longleftrightarrow> carries_token lib token r"
      unfolding cut_Some carries_token_def using Cons True by auto
    finally show ?thesis .
  next
    case False
    then show ?thesis by (simp add: authorized_def carries_token_def Cons)
  qed
qed

lemma http_New_hash: "http_New lib sv rd token lg ms = Inr h \<Longrightarrow> h_token_hash h = lib_sha256 lib token"
  by (auto simp: http_New_def split: option.splits if_splits)

section \<open>The status that is counted\<close>

definition wrote :: "int \<times> reply \<Rightarrow> bool" where
  "wrote w \<longleftrightarrow> rp_status (snd w) = Some (fst w)"

lemma wrote_simps [simp]: "wrote (writeJSON st v rp)" "wrote (fail st code rp)" "wrote (serviceError e rp)"
  by (simp_all add: wrote_def fail_def serviceError_def writeJSON_def log_line_def set_header_def Let_def)

lemma wrote_readBody: "readBody lib r rp = Inl w \<Longrightarrow> wrote w"
  by (auto simp: readBody_def split: if_splits)

lemma wrote_accept: "http_accept lib h c r s rp = Return (w, s') \<Longrightarrow> wrote w"
  by (cases "readBody lib r rp")
    (auto simp: http_accept_def dest!: wrote_readBody split: sum.splits go_outcome.splits prod.splits)

lemma wrote_retry: "http_retry lib h c r i s rp = (w, s') \<Longrightarrow> wrote w"
  by (cases "readBody lib r rp")
    (auto simp: http_retry_def dest!: wrote_readBody split: sum.splits prod.splits)

lemma wrote_metrics: "http_metrics h c s rp = (w, s') \<Longrightarrow> wrote w"
  by (auto simp: http_metrics_def wrote_def log_line_def set_header_def Let_def case_prod_beta)

lemma serve_wrote:
  assumes "http_serve lib h c r index i s rp = Return (w, s')"
  shows "wrote w"
proof -
  consider "w \<in> range (\<lambda>(st, v, rp). writeJSON st v rp) \<union> range (\<lambda>(st, v, rp). fail st v rp) \<union>
      range (\<lambda>(e, rp). serviceError e rp)"
    | "http_accept lib h c r s rp = Return (w, s')" | "http_retry lib h c r i s rp = (w, s')"
    | "http_metrics h c s rp = (w, s')"
    using assms by (fastforce simp: http_serve_def image_iff split: if_splits option.splits sum.splits)
  then show ?thesis
    by cases (auto dest: wrote_accept wrote_retry wrote_metrics)
qed

end
