(* ===== verification/System_Requests.thy ===== *)
theory System_Requests
  imports System Http_Requests
begin

text \<open>
  Requests served over the store: every request is answered, counted once and keeps the store's
  invariant, and the answer to a POST of an event is a function of the stored events.
\<close>

section \<open>Every request\<close>

text \<open>A handler as \<open>run\<close> builds it, after any number of requests.\<close>

definition serves_store :: "store \<Rightarrow> int64 \<Rightarrow> byte list option \<Rightarrow> (int \<Rightarrow> string) \<Rightarrow> (pg_env, system) handler \<Rightarrow> bool" where
  "serves_store st rate rand float_text h \<longleftrightarrow> h_service h = api_of (billing_service st rate) rand \<and>
     h_metrics_source h = Some (metrics_source float_text) \<and> counters_ok (h_requests h)"

lemma metrics_source_db [simp]: "sys_db (snd (metrics_source float_text c s)) = sys_db s"
  by (simp add: metrics_source_def case_prod_beta)

lemma count_request_simps [simp]:
  "h_service (count_request i st h) = h_service h" "h_metrics_source (count_request i st h) = h_metrics_source h"
  "h_token_hash (count_request i st h) = h_token_hash h" "h_readiness (count_request i st h) = h_readiness h"
  by (simp_all add: count_request_def)

lemma log_line_simps [simp]:
  "rp_status (log_line l m fs rp) = rp_status rp" "rp_body (log_line l m fs rp) = rp_body rp"
  "rp_headers (log_line l m fs rp) = rp_headers rp" "rp_broken (log_line l m fs rp) = rp_broken rp"
  by (simp_all add: log_line_def)

lemma set_header_simps [simp]:
  "rp_status (set_header k v rp) = rp_status rp" "rp_body (set_header k v rp) = rp_body rp"
  "rp_broken (set_header k v rp) = rp_broken rp" "rp_log (set_header k v rp) = rp_log rp"
  by (simp_all add: set_header_def)

text \<open>The identifier the handler gives the request, and the reply it starts from.\<close>

definition fresh_reply :: "bool \<Rightarrow> string \<Rightarrow> reply" where
  "fresh_reply broken rid = set_header ''Cache-Control'' ''no-store'' (set_header ''X-Content-Type-Options'' ''nosniff''
     (set_header ''X-Request-ID'' rid
       \<lparr>rp_headers = [], rp_status = None, rp_body = None, rp_log = [], rp_broken = broken\<rparr>))"

lemma ServeHTTP_eq:
  "ServeHTTP lib (Some raw) elapsed broken h c0 r s =
    (case http_serve lib h (WithContext c0 (hex_encode raw)) r (fst (route (rq_path r))) (snd (route (rq_path r))) s
            (fresh_reply broken (hex_encode raw)) of
       Panic m \<Rightarrow> Panic m
     | Return ((status, rp), s') \<Rightarrow>
         Return (log_line ''INFO'' ''http request''
             [(''route'', LStr (routeNames ! fst (route (rq_path r)))), (''status'', LInt status),
              (''duration_ms'', LInt elapsed), (''request_id'', LStr (hex_encode raw))] rp,
           count_request (fst (route (rq_path r))) status h, s'))"
  by (simp add: ServeHTTP_def requestid_New_def fresh_reply_def Let_def case_prod_beta split: go_outcome.split)

lemma ForLog_hex [simp]: "length raw = 16 \<Longrightarrow> ForLog (hex_encode raw) = hex_encode raw"
  by (rule ForLog_id) (simp add: request_id_ok_def hex_encode_lower)

lemma ServeHTTP_answers:
  assumes h: "serves_store st rate rand float_text h" and inv: "store_inv (sys_db s)" and raw: "length raw = 16"
  shows "\<exists>status rp h' s'. ServeHTTP lib (Some raw) elapsed broken h c0 r s = Return (rp, h', s') \<and>
    store_inv (sys_db s') \<and> serves_store st rate rand float_text h' \<and>
    rp_status rp = Some status \<and> status \<in> statuses \<and>
    (\<forall>i < 8. \<forall>k < 6. h_requests h' ! i ! k =
       (if i = fst (route (rq_path r)) \<and> k = nat (status div 100) then h_requests h ! i ! k + 1 else h_requests h ! i ! k))"
proof -
  let ?c = "WithContext c0 (hex_encode raw)" and ?i = "fst (route (rq_path r))"
  have "FromContext ?c \<noteq> []" using raw by (auto dest: arg_cong [where f = length])
  from api.serve_returns [OF _ this, of h st rate rand lib r ?i "snd (route (rq_path r))" s
      "fresh_reply broken (hex_encode raw)"] h
  obtain status rp s' where run: "http_serve lib h ?c r ?i (snd (route (rq_path r))) s
      (fresh_reply broken (hex_encode raw)) = Return ((status, rp), s')"
    by (auto simp: serves_store_def)
  have st: "status \<in> statuses" using serve_status [OF run] .
  have "store_inv (sys_db s')"
    using api.serve_inv [OF _ inv _ run] h inv by (auto simp: serves_store_def)
  moreover have "rp_status rp = Some status" using serve_wrote [OF run] by (simp add: wrote_def)
  moreover have "counters_ok (h_requests h)" using h by (simp add: serves_store_def)
  note count_request_ok [OF this route_index st, of "rq_path r"]
  ultimately show ?thesis
    using h st by (simp add: ServeHTTP_eq run serves_store_def)
qed

section \<open>Posting an event\<close>

text \<open>The answer to an event that reaches the service, when the database answers.\<close>

definition error_json :: "string \<Rightarrow> json_value" where
  "error_json code = JObj [(''error'', JStr code)]"

definition post_answer :: "store \<Rightarrow> int64 \<Rightarrow> pg_env \<Rightarrow> string \<Rightarrow> input \<Rightarrow> db \<Rightarrow> (int \<times> json_value) \<times> db" where
  "post_answer st rate env rid inp d =
     (case stored d (EventID inp) of
        Some e \<Rightarrow> (if Input e = inp then (200, event_json e) else (409, error_json ''event_conflict''), d)
      | None \<Rightarrow>
          (if \<not> fits rate inp then ((400, error_json ''invalid_input''), d)
           else if queue_full st d then ((503, error_json ''queue_full''), d)
           else ((202, event_json (fresh_event (priced_event rate rid inp) (env_clock env 1))),
                 admitted (priced_event rate rid inp) (env_clock env 1) (env_clock env 4) d)))"

lemma event_json_ok: "marshal_ok (event_json e) \<longleftrightarrow> marshal_ok (JTime (CreatedAt e))"
  by (simp add: event_json_def)

lemma writeJSON_plain:
  assumes "marshal_ok v" and "\<not> rp_broken rp"
  shows "fst (writeJSON st v rp) = st \<and> rp_status (snd (writeJSON st v rp)) = Some st \<and>
    rp_body (snd (writeJSON st v rp)) = Some (Json v)"
  using assms by (simp add: writeJSON_def Let_def)

lemma fail_plain:
  "\<not> rp_broken rp \<Longrightarrow> fst (fail st code rp) = st \<and> rp_status (snd (fail st code rp)) = Some st \<and>
    rp_body (snd (fail st code rp)) = Some (Json (error_json code))"
  unfolding fail_def error_json_def by (rule writeJSON_plain) simp_all

text \<open>The service's result, by the stored events.\<close>

lemma service_Accept_decision:
  assumes valid: "valid_input inp" and rate: "0 < sint rate" and env: "healthy (ctx_env c)" and inv: "store_inv d"
    and rid: "FromContext c = rid" "request_id_ok rid"
  shows "service_Accept (billing_service st rate) rand c inp d = Return (
    case stored d (EventID inp) of
      Some e \<Rightarrow> (if Input e = inp then (Inr (e, False), d)
               else (Inl (if fits rate inp then Wrap ''accept usage'' (Wrap ''accept usage'' ErrConflict) else ErrConflict), d))
    | None \<Rightarrow>
        (if \<not> fits rate inp then (Inl ErrInvalid, d)
         else if queue_full st d then (Inl (Wrap ''accept usage'' (Wrap ''accept usage'' ErrQueueFull)), d)
         else (Inr (fresh_event (priced_event rate rid inp) (env_clock (ctx_env c) 1), True),
               admitted (priced_event rate rid inp) (env_clock (ctx_env c) 1) (env_clock (ctx_env c) 4) d)))"
proof (cases "fits rate inp")
  case False
  with service_Accept_overflow [of inp "billing_service st rate" rand c d] valid rate
    store_Get_stored [of "ctx_env c" "EventID inp" d] env show ?thesis
    by (auto split: option.splits)
next
  case True
  have "rid \<noteq> []" using rid(2) by auto
  with service_Accept_priced [of inp "billing_service st rate" c rand rid d] valid rate True rid
    store_Accept_healthy [OF env inv priced_row_check [OF valid rate True disjI2 [OF rid(2)]]] show ?thesis
    by (auto split: option.splits)
qed

lemma http_accept_decision:
  assumes h: "h_service h = api_of (billing_service st rate) rand" and rate: "0 < sint rate"
    and env: "healthy (ctx_env c)" and inv: "store_inv (sys_db s)"
    and rid: "FromContext c = rid" "request_id_ok rid"
    and body: "readBody lib r rp = Inr data" "decodeInput data = Inr inp" and valid: "valid_input inp"
    and rp: "\<not> rp_broken rp"
    and times: "\<And>e. stored (sys_db s) (EventID inp) = Some e \<Longrightarrow> marshal_ok (JTime (CreatedAt e))"
      "marshal_ok (JTime (env_clock (ctx_env c) 1))"
    and answer: "post_answer st rate (ctx_env c) rid inp (sys_db s) = ((status, val), d')"
  shows "\<exists>rp'. http_accept lib h c r s rp = Return ((status, rp'), s\<lparr>sys_db := d'\<rparr>) \<and>
    rp_status rp' = Some status \<and> rp_body rp' = Some (Json val)"
proof -
  note run = service_Accept_decision [OF valid rate env inv rid, of st rand]
  have unfold: "http_accept lib h c r s rp =
    (case service_Accept (billing_service st rate) rand c inp (sys_db s) of
       Panic m \<Rightarrow> Panic m
     | Return (Inl err, d) \<Rightarrow> Return (serviceError err rp, s\<lparr>sys_db := d\<rparr>)
     | Return (Inr (event, created), d) \<Rightarrow>
         Return (writeJSON (if created then 202 else 200) (event_json event) rp, s\<lparr>sys_db := d\<rparr>))"
    by (simp add: http_accept_def body h api_of_def split: go_outcome.splits sum.splits prod.splits)
  have out: "\<exists>rp'. w = (st', rp') \<and> rp_status rp' = Some st' \<and> rp_body rp' = Some (Json v)"
    if "fst w = st' \<and> rp_status (snd w) = Some st' \<and> rp_body (snd w) = Some (Json v)" for w :: "int \<times> reply" and st' v
    using that by (cases w) auto
  have err: "\<exists>rp'. serviceError e rp = (st', rp') \<and> rp_status rp' = Some st' \<and> rp_body rp' = Some (Json (error_json code))"
    if "serviceError e rp = fail st' code rp0" "\<not> rp_broken rp0" for e st' code rp0
    using out [OF fail_plain [OF that(2)]] that(1) by simp
  show ?thesis
  proof (cases "stored (sys_db s) (EventID inp)")
    case (Some e)
    show ?thesis
    proof (cases "Input e = inp")
      case True
      have "marshal_ok (event_json e)" using times(1) [OF Some] event_json_ok by blast
      from out [OF writeJSON_plain [OF this rp]] show ?thesis
        using answer Some True unfolding unfold run by (simp add: post_answer_def)
    next
      case False
      from err [OF _ rp, of "if fits rate inp then Wrap ''accept usage'' (Wrap ''accept usage'' ErrConflict) else ErrConflict"
          409 "''event_conflict''"] show ?thesis
        using answer Some False unfolding unfold run by (simp add: post_answer_def serviceError_def)
    qed
  next
    case None
    consider (over) "\<not> fits rate inp" | (full) "fits rate inp" "queue_full st (sys_db s)"
      | (new) "fits rate inp" "\<not> queue_full st (sys_db s)" by blast
    then show ?thesis
    proof cases
      case over
      from err [OF _ rp, of ErrInvalid 400 "''invalid_input''"] show ?thesis
        using answer None over unfolding unfold run by (simp add: post_answer_def serviceError_def)
    next
      case full
      from err [of "Wrap ''accept usage'' (Wrap ''accept usage'' ErrQueueFull)" 503 "''queue_full''"
          "set_header ''Retry-After'' ''1'' rp"] show ?thesis
        using answer None full rp unfolding unfold run by (simp add: post_answer_def serviceError_def)
    next
      case new
      have "marshal_ok (event_json (fresh_event (priced_event rate rid inp) (env_clock (ctx_env c) 1)))"
        using times(2) event_json_ok by simp
      from out [OF writeJSON_plain [OF this rp]] show ?thesis
        using answer None new unfolding unfold run by (simp add: post_answer_def)
    qed
  qed
qed

text \<open>A request that posts an input: authorized, as JSON, the four members in any order.\<close>

definition posts_event :: "http_lib \<Rightarrow> string \<Rightarrow> input \<Rightarrow> request \<Rightarrow> bool" where
  "posts_event lib token inp r \<longleftrightarrow> carries_token lib token r \<and> rq_method r = ''POST'' \<and> rq_path r = ''/v1/events'' \<and>
     lib_media_type lib (header_get ''Content-Type'' r) = Some ''application/json'' \<and>
     length (rq_body r) \<le> maxBodyBytes \<and> \<not> rq_body_fault r \<and>
     (\<exists>sp ms. list_all is_space sp \<and> mset ms = mset (input_members inp) \<and> rq_body r = object_text sp ms)"

lemma http_New_service:
  "http_New lib (Some sv) rd token lg ms = Inr h \<Longrightarrow> h_service h = sv"
  by (auto simp: http_New_def split: option.splits if_splits)

lemma fresh_reply_broken [simp]: "rp_broken (fresh_reply broken rid) = broken"
  by (simp add: fresh_reply_def)

lemma ServeHTTP_posts_at:
  assumes h: "h_service h = api_of (billing_service st rate) rand" "h_token_hash h = lib_sha256 lib token"
    and r: "posts_event lib token inp r" and valid: "valid_input inp" and rate: "0 < sint rate"
    and env: "healthy (ctx_env c)" and inv: "store_inv (sys_db s)" and raw: "length raw = 16"
    and times: "\<And>e. stored (sys_db s) (EventID inp) = Some e \<Longrightarrow> marshal_ok (JTime (CreatedAt e))"
      "marshal_ok (JTime (env_clock (ctx_env c) 1))"
    and answer: "post_answer st rate (ctx_env c) (hex_encode raw) inp (sys_db s) = ((status, val), d')"
  shows "\<exists>rp. ServeHTTP lib (Some raw) elapsed False h c r s = Return (rp, count_request 3 status h, s\<lparr>sys_db := d'\<rparr>) \<and>
    rp_status rp = Some status \<and> rp_body rp = Some (Json val)"
proof -
  let ?c = "WithContext c (hex_encode raw)"
  from r obtain sp ms' where
    body: "list_all is_space sp" "mset ms' = mset (input_members inp)" "rq_body r = object_text sp ms'"
    by (auto simp: posts_event_def)
  from r have req: "carries_token lib token r" "rq_method r = ''POST''" "rq_path r = ''/v1/events''"
    "readBody lib r (fresh_reply False (hex_encode raw)) = Inr (rq_body r)"
    by (simp_all add: posts_event_def readBody_def not_less)
  have dec: "decodeInput (rq_body r) = Inr inp"
    using decodeInput_members [OF body(1) valid_input_plain [OF valid] body(2)] body(3) by simp
  have rid: "FromContext ?c = hex_encode raw" "request_id_ok (hex_encode raw)"
    using raw by (simp_all add: request_id_ok_def hex_encode_lower)
  from http_accept_decision [OF h(1) rate _ inv rid req(4) dec valid _ times(1), of status val d']
    env times(2) answer obtain rp' where
    run: "http_accept lib h ?c r s (fresh_reply False (hex_encode raw)) = Return ((status, rp'), s\<lparr>sys_db := d'\<rparr>)"
      "rp_status rp' = Some status" "rp_body rp' = Some (Json val)" by auto
  have "serves_accept lib h r 3"
    using req(1,2) authorized_carries [OF h(2)] by (simp add: serves_accept_def)
  from serve_accept [OF this] run req(3) show ?thesis
    by (simp add: ServeHTTP_eq route_def)
qed

lemma ServeHTTP_posts:
  assumes h: "http_New lib (Some (api_of (billing_service st rate) rand)) rd token lg ms = Inr h"
    and "posts_event lib token inp r" and "valid_input inp" and "0 < sint rate"
    and "healthy (ctx_env c)" and "store_inv (sys_db s)" and "length raw = 16"
    and "\<And>e. stored (sys_db s) (EventID inp) = Some e \<Longrightarrow> marshal_ok (JTime (CreatedAt e))"
    and "marshal_ok (JTime (env_clock (ctx_env c) 1))"
    and "post_answer st rate (ctx_env c) (hex_encode raw) inp (sys_db s) = ((status, val), d')"
  shows "\<exists>rp h'. ServeHTTP lib (Some raw) elapsed False h c r s = Return (rp, h', s\<lparr>sys_db := d'\<rparr>) \<and>
    rp_status rp = Some status \<and> rp_body rp = Some (Json val)"
  using ServeHTTP_posts_at [OF http_New_service [OF h] http_New_hash [OF h] assms(2-)] by blast

section \<open>Reading a summary\<close>

text \<open>The answer to an authorized summary request, when the database answers.\<close>

lemma ServeHTTP_summary:
  assumes h: "h_service h = api_of (billing_service st rate) rand" "h_token_hash h = lib_sha256 lib token"
    and r: "carries_token lib token r" "rq_method r = ''GET''" "rq_path r = ''/v1/customers/'' @ customer @ ''/summary''"
    and "valid_id customer" and "CHR ''/'' \<notin> set customer" and env: "healthy (ctx_env c)" and inv: "store_inv (sys_db s)"
  shows "\<exists>rp. ServeHTTP lib (Some raw) elapsed False h c r s = Return (rp, count_request 5 200 h, s) \<and>
    rp_status rp = Some 200 \<and>
    rp_body rp = Some (Json (summary_json (summary_spec customer (customer_events customer (sys_db s)))))"
proof -
  let ?v = "summary_spec customer (customer_events customer (sys_db s))"
  let ?rp = "fresh_reply False (hex_encode raw)"
  have route: "route (rq_path r) = (5, customer)"
    using route_summary_iff [of "rq_path r" customer] assms(7) r(3)
    by (metis append_Nil empty_iff list.set(1))
  have "as_Summary (h_service h) (WithContext c (hex_encode raw)) customer s = Inr ?v"
    using h(1) assms(6) store_Summary_spec [OF inv, of "ctx_env c" customer] env
    by (simp add: api_of_def service_Summary_def ValidateID_iff pg_repository_def)
  moreover have "authorized lib h r" using authorized_carries [OF h(2)] r(1) by simp
  ultimately have run: "http_serve lib h (WithContext c (hex_encode raw)) r 5 customer s ?rp =
      Return (writeJSON 200 (summary_json ?v) ?rp, s)"
    using r(2) by (simp add: http_serve_def route_method_def)
  have "marshal_ok (summary_json ?v)" by (simp add: summary_json_def)
  from writeJSON_plain [OF this, of ?rp 200] run show ?thesis
    by (cases "writeJSON 200 (summary_json ?v) ?rp") (simp add: ServeHTTP_eq route)
qed

end
