(* ===== verification/System_Properties.thy ===== *)
theory System_Properties
  imports Samples System_Requests
begin

text \<open>
  The properties of the HTTP interface, the worker and the metrics, alone and over the store,
  each with a witness where it has hypotheses. The lemmas are in \<open>Http_Facts\<close>, \<open>Http_Requests\<close>,
  \<open>System_Requests\<close>, \<open>Worker\<close>, \<open>System\<close> and \<open>Telemetry\<close>.
\<close>

section \<open>Samples\<close>

text \<open>A digest without collisions, a token, the handler over an empty store and requests for it.\<close>

definition sample_lib :: http_lib where
  "sample_lib = \<lparr>lib_sha256 = map of_char, lib_media_type = Some\<rparr>"

definition sample_token :: string where
  "sample_token = replicate 32 CHR ''k''"

definition sample_handler :: "(pg_env, system) handler" where
  "sample_handler = \<lparr>h_service = api_of (billing_service \<lparr>maxPending = 2\<rparr> 250) None,
     h_readiness = \<lambda>c s. None, h_token_hash = lib_sha256 sample_lib sample_token,
     h_requests = replicate 8 (replicate 6 0), h_metrics_source = Some (metrics_source show_int)\<rparr>"

lemma sample_handler_New:
  "http_New sample_lib (Some (api_of (billing_service \<lparr>maxPending = 2\<rparr> 250) None)) (Some (\<lambda>c s. None))
     sample_token True [Some (metrics_source show_int)] = Inr sample_handler"
  by (simp add: http_New_def sample_handler_def sample_token_def token_byte_bad_def less_eq_char_def list_ex_iff)

definition sample_system :: "db \<Rightarrow> system" where
  "sample_system d = \<lparr>sys_db = d, sys_queue_errors = 0, sys_worker = zero_stats\<rparr>"

definition sample_raw :: "byte list" where
  "sample_raw = replicate 16 7"

definition sample_request :: "string \<Rightarrow> string \<Rightarrow> string \<Rightarrow> string \<Rightarrow> request" where
  "sample_request meth path cred body =
     \<lparr>rq_method = meth, rq_path = path,
      rq_headers = [(''Authorization'', ''bearer '' @ cred), (''Content-Type'', ''application/json'')],
      rq_body = body, rq_body_fault = False\<rparr>"

lemma sample_serves: "serves_store \<lparr>maxPending = 2\<rparr> 250 None show_int sample_handler"
  by (simp add: serves_store_def sample_handler_def counters_ok_def list_all_length)

section \<open>Requests\<close>




text \<open>
  Decoding a retry request is the inverse of writing it, with any white space, for every
  generation from zero on; negative ones are refused.
\<close>

lemma retry_body_round_trip:
  assumes "list_all is_space sp"
  shows "decodeRetry (object_text sp [(''retry_generation'', TNumber (show_int (sint g)))]) =
    (if sint g < 0 then Inl ErrInvalid else Inr g)"
proof -
  have "list_all member_ok [(''retry_generation'', TNumber (show_int (sint g)))]"
    by (simp add: member_ok_def int_text_def parse_int64_show_int) (simp add: plain_def in_range_def)
  from decodeRetry_object_text [OF assms this] show ?thesis by (simp add: parse_int64_show_int)
qed

text \<open>
  C17. Without the configured token in its one Authorization header a request, except for health
  and readiness, is answered 401 with a fixed body, before its method, path and body are looked
  at, and the state behind the handler is the one before.
\<close>

theorem unauthorized_rejected:
  assumes "http_New lib sv rd token lg ms = Inr h" and "\<not> carries_token lib token r"
    and "fst (route (rq_path r)) \<noteq> 1" and "fst (route (rq_path r)) \<noteq> 2"
  shows "\<exists>rp h'. ServeHTTP lib (Some raw) elapsed False h c r s = Return (rp, h', s) \<and>
    rp_status rp = Some 401 \<and> rp_body rp = Some (Json (error_json ''unauthorized''))"
proof -
  have "\<not> authorized lib h r"
    using authorized_carries [OF http_New_hash [OF assms(1)]] assms(2) by simp
  moreover have "\<not> rp_broken (set_header ''WWW-Authenticate'' ''Bearer'' (fresh_reply False (hex_encode raw)))"
    by (simp add: fresh_reply_def)
  note fail_plain [OF this, of 401 "''unauthorized''"]
  ultimately show ?thesis
    using assms(3,4) by (auto simp: ServeHTTP_eq http_serve_def split: prod.splits)
qed

theorem unauthorized_rejected_witness:
  "\<exists>rp h'. ServeHTTP sample_lib (Some sample_raw) 3 False sample_handler (sample_ctx sample_env)
     (sample_request ''GET'' ''/metrics'' ''guess'' []) (sample_system two_accepted) = Return (rp, h', sample_system two_accepted) \<and>
   rp_status rp = Some 401 \<and> rp_body rp = Some (Json (error_json ''unauthorized''))"
proof (rule unauthorized_rejected [OF sample_handler_New])
  have "\<not> authorized sample_lib sample_handler (sample_request ''GET'' ''/metrics'' ''guess'' [])" by code_simp
  then show "\<not> carries_token sample_lib sample_token (sample_request ''GET'' ''/metrics'' ''guess'' [])"
    using authorized_carries [of sample_handler sample_lib sample_token] by (simp add: sample_handler_def)
qed (simp_all add: sample_request_def route_def)



text \<open>
  C20. Every request is answered: the handler over the store never panics once the request has its
  identifier, whatever the request and the database, keeps the store's invariant, writes the
  status it returns, and counts the request in exactly one cell, that of its route and class.
\<close>

theorem every_request_answered:
  assumes "serves_store st rate rand float_text h" and "store_inv (sys_db s)" and "length raw = 16"
  shows "\<exists>status rp h' s'. ServeHTTP lib (Some raw) elapsed broken h c r s = Return (rp, h', s') \<and>
    store_inv (sys_db s') \<and> serves_store st rate rand float_text h' \<and>
    rp_status rp = Some status \<and> status \<in> statuses \<and>
    (\<forall>i < 8. \<forall>k < 6. h_requests h' ! i ! k =
       (if i = fst (route (rq_path r)) \<and> k = nat (status div 100) then h_requests h ! i ! k + 1 else h_requests h ! i ! k))"
  using assms by (rule ServeHTTP_answers)

theorem every_request_answered_witness:
  "\<exists>rp h' s'. ServeHTTP sample_lib (Some sample_raw) 3 True sample_handler (sample_ctx (lost_commit_env 2))
     (sample_request ''POST'' ''/v1/events/e1/retry'' sample_token ''junk'') (sample_system two_accepted) = Return (rp, h', s') \<and>
     store_inv (sys_db s')"
  using every_request_answered [OF sample_serves, of "sample_system two_accepted" sample_raw sample_lib 3 True
      "sample_ctx (lost_commit_env 2)" "sample_request ''POST'' ''/v1/events/e1/retry'' sample_token ''junk''"]
  by (fastforce simp: sample_system_def sample_raw_def)

text \<open>
  C2. End to end: an authorized POST of a valid input is answered from the stored events alone. An
  identifier already used answers the event as first accepted, or a conflict when its input
  differs; a new one is refused when its charge does not fit in an int64 or the queue is full,
  and is otherwise stored, queued and answered with the exact price; nothing else changes.
\<close>

theorem post_event_decision:
  assumes "http_New lib (Some (api_of (billing_service st rate) rand)) rd token lg ms = Inr h"
    and "posts_event lib token inp r" and "valid_input inp" and "0 < sint rate"
    and "healthy (ctx_env c)" and "store_inv (sys_db s)" and "length raw = 16"
    and "\<And>e. stored (sys_db s) (EventID inp) = Some e \<Longrightarrow> marshal_ok (JTime (CreatedAt e))"
    and "marshal_ok (JTime (env_clock (ctx_env c) 1))"
    and "post_answer st rate (ctx_env c) (hex_encode raw) inp (sys_db s) = ((status, val), d')"
  shows "\<exists>rp h'. ServeHTTP lib (Some raw) elapsed False h c r s = Return (rp, h', s\<lparr>sys_db := d'\<rparr>) \<and>
    rp_status rp = Some status \<and> rp_body rp = Some (Json val)"
  using assms by (rule ServeHTTP_posts)

definition sample_post :: request where
  "sample_post = sample_request ''POST'' ''/v1/events'' sample_token (object_text '' '' (rev (input_members (sample_input ''e1'' 4))))"

lemma sample_post_posts: "posts_event sample_lib sample_token (sample_input ''e1'' 4) sample_post"
proof -
  have "authorized sample_lib sample_handler sample_post" by code_simp
  then have "carries_token sample_lib sample_token sample_post"
    using authorized_carries [of sample_handler sample_lib sample_token] by (simp add: sample_handler_def)
  moreover have "lib_media_type sample_lib (header_get ''Content-Type'' sample_post) = Some ''application/json''"
    "length (rq_body sample_post) \<le> maxBodyBytes" by code_simp+
  moreover have "list_all is_space '' ''" by code_simp
  ultimately show ?thesis
    unfolding posts_event_def
    by (intro conjI exI [of _ "'' ''"] exI [of _ "rev (input_members (sample_input ''e1'' 4))"])
      (simp_all add: sample_post_def sample_request_def)
qed

theorem post_event_decision_witness:
  "\<exists>rp h' s'. ServeHTTP sample_lib (Some sample_raw) 3 False sample_handler (sample_ctx sample_env) sample_post
     (sample_system empty_db) = Return (rp, h', s') \<and> rp_status rp = Some 202 \<and> length (usage_events (sys_db s')) = 1"
proof -
  have "fst (fst (post_answer \<lparr>maxPending = 2\<rparr> 250 sample_env (hex_encode sample_raw) (sample_input ''e1'' 4) empty_db)) = 202"
    "length (usage_events (snd (post_answer \<lparr>maxPending = 2\<rparr> 250 sample_env (hex_encode sample_raw) (sample_input ''e1'' 4) empty_db))) = 1"
    by code_simp+
  then obtain val d' where answer: "post_answer \<lparr>maxPending = 2\<rparr> 250 sample_env (hex_encode sample_raw)
      (sample_input ''e1'' 4) empty_db = ((202, val), d')" "length (usage_events d') = 1" by (metis prod.collapse)
  have "valid_input (sample_input ''e1'' 4)" by code_simp
  have sys: "sys_db (sample_system empty_db) = empty_db" by (simp add: sample_system_def)
  have env: "ctx_env (sample_ctx sample_env) = sample_env" by (simp add: sample_ctx_def)
  have "\<exists>rp h'. ServeHTTP sample_lib (Some sample_raw) 3 False sample_handler (sample_ctx sample_env) sample_post
     (sample_system empty_db) = Return (rp, h', (sample_system empty_db)\<lparr>sys_db := d'\<rparr>) \<and> rp_status rp = Some 202 \<and>
     rp_body rp = Some (Json val)"
  proof (rule post_event_decision [OF sample_handler_New sample_post_posts \<open>valid_input _\<close>], unfold sys env)
    show "marshal_ok (JTime (CreatedAt e))" if "stored empty_db (EventID (sample_input ''e1'' 4)) = Some e" for e
      using that by (simp add: stored_def usage_of_def empty_db_def)
    show "marshal_ok (JTime (env_clock sample_env 1))" by (simp add: sample_env_def)
  qed (use answer(1) in \<open>simp_all add: sample_raw_def\<close>)
  with answer(2) show ?thesis by fastforce
qed

end
