(* ===== verification/Go_Parse.thy ===== *)
theory Go_Parse
  imports Go_Text
begin

text \<open>
  The parsers of Go's library the configuration uses: \<open>strings.TrimSpace\<close> compared with the
  empty string, \<open>net.SplitHostPort\<close> and \<open>time.ParseDuration\<close>. A duration's fraction is the one
  place where Go computes in float64; the nanoseconds it adds are the argument \<open>frac\<close>, applied
  to the fraction's digits as a number, the unit and the power of ten.
\<close>

section \<open>White space\<close>

text \<open>The encodings of the code points with \<open>unicode.IsSpace\<close>, and the texts made of nothing else.\<close>

definition space_rune1 :: "char \<Rightarrow> bool" where
  "space_rune1 a \<longleftrightarrow> (9 \<le> (of_char a :: nat) \<and> of_char a \<le> (13 :: nat)) \<or> a = CHR '' ''"

definition space_rune2 :: "char \<Rightarrow> char \<Rightarrow> bool" where
  "space_rune2 a b \<longleftrightarrow> a = CHR 0xC2 \<and> (b = CHR 0x85 \<or> b = CHR 0xA0)"

definition space_rune3 :: "char \<Rightarrow> char \<Rightarrow> char \<Rightarrow> bool" where
  "space_rune3 a b c \<longleftrightarrow> (a, b, c) = (CHR 0xE1, CHR 0x9A, CHR 0x80) \<or>
     a = CHR 0xE2 \<and> b = CHR 0x80 \<and>
       ((128 \<le> (of_char c :: nat) \<and> of_char c \<le> (138 :: nat)) \<or> c = CHR 0xA8 \<or> c = CHR 0xA9 \<or> c = CHR 0xAF) \<or>
     (a, b, c) = (CHR 0xE2, CHR 0x81, CHR 0x9F) \<or> (a, b, c) = (CHR 0xE3, CHR 0x80, CHR 0x80)"

fun trims_to_nothing :: "string \<Rightarrow> bool" where
  "trims_to_nothing [] = True"
| "trims_to_nothing (a # s) =
     (if space_rune1 a then trims_to_nothing s
      else case s of
        [] \<Rightarrow> False
      | b # s2 \<Rightarrow>
          (if space_rune2 a b then trims_to_nothing s2
           else case s2 of
             [] \<Rightarrow> False
           | c # s3 \<Rightarrow> space_rune3 a b c \<and> trims_to_nothing s3))"

section \<open>Host and port\<close>

text \<open>
  \<open>net.SplitHostPort\<close>: the port follows the last colon; a host in brackets may contain colons,
  and brackets are nowhere else.
\<close>

definition split_host_port :: "string \<Rightarrow> (string \<times> string) option" where
  "split_host_port s =
     (if CHR '':'' \<notin> set s then None
      else (let port = rev (takeWhile (\<lambda>c. c \<noteq> CHR '':'') (rev s)); i = length s - length port - 1 in
        if hd s = CHR ''['' then
          (if CHR '']'' \<notin> set s then None
           else (let end = length (takeWhile (\<lambda>c. c \<noteq> CHR '']'') s) in
             if end + 1 \<noteq> i then None
             else if CHR ''['' \<in> set (drop 1 s) \<or> CHR '']'' \<in> set (drop (end + 1) s) then None
             else Some (drop 1 (take end s), port)))
        else
          (if CHR '':'' \<in> set (take i s) then None
           else if CHR ''['' \<in> set s \<or> CHR '']'' \<in> set s then None
           else Some (take i s, port))))"

lemma split_host_port_plain:
  assumes "CHR '':'' \<notin> set host" and "CHR '':'' \<notin> set port"
    and "CHR ''['' \<notin> set host \<union> set port" and "CHR '']'' \<notin> set host \<union> set port"
  shows "split_host_port (host @ CHR '':'' # port) = Some (host, port)"
proof -
  have "takeWhile (\<lambda>c. c \<noteq> CHR '':'') (rev port @ CHR '':'' # rev host) = rev port"
    using assms(2) by (subst takeWhile_append2) auto
  moreover have "hd (host @ CHR '':'' # port) \<noteq> CHR ''[''"
    using assms(3) by (cases host) auto
  ultimately show ?thesis using assms by (simp add: split_host_port_def Let_def)
qed

section \<open>Durations\<close>

definition duration_unit :: "string \<Rightarrow> int option" where
  "duration_unit u = map_of [(''ns'', 1), (''us'', 1000), ([CHR 0xC2, CHR 0xB5, CHR ''s''], 1000),
     ([CHR 0xCE, CHR 0xBC, CHR ''s''], 1000), (''ms'', 1000000), (''s'', 1000000000),
     (''m'', 60000000000), (''h'', 3600000000000)] u"

text \<open>The digits of a fraction, as long as the number fits, and how many of them were used.\<close>

fun leading_fraction :: "int \<Rightarrow> nat \<Rightarrow> string \<Rightarrow> int \<times> nat" where
  "leading_fraction x k [] = (x, k)"
| "leading_fraction x k (c # cs) =
     (if x > (2 ^ 63 - 1) div 10 \<or> x * 10 + int (digit_value c) > 2 ^ 63 then (x, k)
      else leading_fraction (x * 10 + int (digit_value c)) (Suc k) cs)"

text \<open>One number with its unit: the nanoseconds it adds, and the rest of the text.\<close>

definition duration_part :: "(int \<Rightarrow> int \<Rightarrow> int \<Rightarrow> int) \<Rightarrow> string \<Rightarrow> (int \<times> string) option" where
  "duration_part frac s =
     (let whole = takeWhile is_digit s; s1 = dropWhile is_digit s;
          point = s1 \<noteq> [] \<and> hd s1 = CHR ''.'';
          digits = (if point then takeWhile is_digit (tl s1) else []);
          s2 = (if point then dropWhile is_digit (tl s1) else s1);
          u = takeWhile (\<lambda>c. c \<noteq> CHR ''.'' \<and> \<not> is_digit c) s2;
          rest = dropWhile (\<lambda>c. c \<noteq> CHR ''.'' \<and> \<not> is_digit c) s2;
          (f, k) = leading_fraction 0 0 digits in
      if int (digits_value whole) > 2 ^ 63 \<or> (whole = [] \<and> digits = []) then None
      else case duration_unit u of
        None \<Rightarrow> None
      | Some unit \<Rightarrow>
          (if int (digits_value whole) > 2 ^ 63 div unit then None
           else (let v = int (digits_value whole) * unit; v' = (if f > 0 then (v + frac f unit (10 ^ k)) mod 2 ^ 64 else v) in
             if v' > 2 ^ 63 then None else Some (v', rest))))"

lemma duration_part_shorter:
  "duration_part frac s = Some (v, rest) \<Longrightarrow> length rest < length s"
proof -
  assume part: "duration_part frac s = Some (v, rest)"
  let ?s1 = "dropWhile is_digit s"
  let ?s2 = "if ?s1 \<noteq> [] \<and> hd ?s1 = CHR ''.'' then dropWhile is_digit (tl ?s1) else ?s1"
  let ?P = "\<lambda>c. c \<noteq> CHR ''.'' \<and> \<not> is_digit c"
  have 1: "length ?s1 \<le> length s" by (rule length_dropWhile_le)
  have "length (dropWhile is_digit (tl ?s1)) \<le> length (tl ?s1)" by (rule length_dropWhile_le)
  with 1 have 2: "length ?s2 \<le> length s" by auto
  from part have r: "rest = dropWhile ?P ?s2" and u: "takeWhile ?P ?s2 \<noteq> []"
    by (auto simp: duration_part_def Let_def duration_unit_def split: if_splits option.splits prod.splits)
  have "length (takeWhile ?P ?s2) + length rest = length ?s2"
    unfolding r by (simp only: takeWhile_dropWhile_id flip: length_append)
  moreover have "0 < length (takeWhile ?P ?s2)" using u by blast
  ultimately show ?thesis using 2 by linarith
qed

function duration_sum :: "(int \<Rightarrow> int \<Rightarrow> int \<Rightarrow> int) \<Rightarrow> int \<Rightarrow> string \<Rightarrow> int option" where
  "duration_sum frac d s =
     (if s = [] then Some d
      else case duration_part frac s of
        None \<Rightarrow> None
      | Some (v, rest) \<Rightarrow>
          (if (d + v) mod 2 ^ 64 > 2 ^ 63 then None else duration_sum frac ((d + v) mod 2 ^ 64) rest))"
  by pat_completeness auto
termination
  by (relation "measure (\<lambda>(frac, d, s). length s)") (auto dest: duration_part_shorter)

declare duration_sum.simps [simp del]

definition parse_duration :: "(int \<Rightarrow> int \<Rightarrow> int \<Rightarrow> int) \<Rightarrow> string \<Rightarrow> int64 option" where
  "parse_duration frac s =
     (let neg = s \<noteq> [] \<and> hd s = CHR ''-'';
          s' = (if s \<noteq> [] \<and> (hd s = CHR ''-'' \<or> hd s = CHR ''+'') then tl s else s) in
      if s' = ''0'' then Some 0
      else if s' = [] then None
      else case duration_sum frac 0 s' of
        None \<Rightarrow> None
      | Some d \<Rightarrow>
          (if neg then Some (- word_of_int d)
           else if d > 2 ^ 63 - 1 then None else Some (word_of_int d)))"

text \<open>A whole number of one unit, as an operator writes it.\<close>

lemma duration_sum_single:
  assumes "list_all is_digit n" and "n \<noteq> []" and "duration_unit u = Some unit"
    and u: "list_all (\<lambda>c. c \<noteq> CHR ''.'' \<and> \<not> is_digit c) u" and fits: "int (digits_value n) * unit \<le> 2 ^ 63"
  shows "duration_sum frac 0 (n @ u) = Some (int (digits_value n) * unit)"
proof -
  have unit: "0 < unit" using assms(3) by (auto simp: duration_unit_def split: if_splits)
  obtain a u' where cons: "u = a # u'" using assms(3) by (cases u) (auto simp: duration_unit_def)
  with u have head: "a \<noteq> CHR ''.''" "\<not> is_digit a" by simp_all
  with cons have hd_u: "hd u \<noteq> CHR ''.''" by simp
  have tw: "takeWhile is_digit (n @ u) = n" "dropWhile is_digit (n @ u) = u"
    using assms(1) cons head by (simp_all add: takeWhile_append2 dropWhile_append2 list_all_iff)
  have tu: "takeWhile (\<lambda>c. c \<noteq> CHR ''.'' \<and> \<not> is_digit c) u = u" "dropWhile (\<lambda>c. c \<noteq> CHR ''.'' \<and> \<not> is_digit c) u = []"
    using u by (auto simp: takeWhile_eq_all_conv dropWhile_eq_Nil_conv list_all_iff)
  have "int (digits_value n) \<le> 2 ^ 63 div unit"
    using fits unit by (metis nonzero_mult_div_cancel_right order_less_irrefl zdiv_mono1)
  moreover have "int (digits_value n) \<le> 2 ^ 63"
    using fits unit by (smt (verit) mult_le_cancel_left1 of_nat_0_le_iff)
  ultimately have "duration_part frac (n @ u) = Some (int (digits_value n) * unit, [])"
    using assms(2,3) fits hd_u by (simp add: duration_part_def tw tu Let_def)
  moreover have "int (digits_value n) * unit mod 2 ^ 64 = int (digits_value n) * unit"
    using fits unit by (intro mod_pos_pos_trivial) simp_all
  ultimately show ?thesis
    using fits assms(2) by (simp add: duration_sum.simps)
qed

end
