(* ===== verification/Service_Config.thy ===== *)
theory Service_Config
  imports Http_Api Go_Parse
begin

text \<open>
  \<open>cmd/usage-billing/config.go\<close>: the configuration read from the environment, \<open>getenv\<close>, with
  every check and its error text, and what a loaded configuration satisfies.
\<close>

section \<open>Configuration\<close>

record config =
  cfg_databaseURL :: string
  cfg_token :: string
  cfg_httpAddr :: string
  cfg_rateMicros :: int64
  cfg_workerInterval :: int64
  cfg_workerBatch :: int64
  cfg_maxPendingEvents :: int64

text \<open>An optional setting: unset keeps the default, otherwise it must parse and be in range.\<close>

definition setting ::
  "string \<Rightarrow> (string \<Rightarrow> int64 option) \<Rightarrow> (int64 \<Rightarrow> bool) \<Rightarrow> string \<Rightarrow> int64 \<Rightarrow> go_error + int64" where
  "setting value parse ok msg dflt =
     (if value = [] then Inr dflt
      else case parse value of
        None \<Rightarrow> Inl (New msg)
      | Some n \<Rightarrow> (if ok n then Inr n else Inl (New msg)))"

definition loadConfig :: "(int \<Rightarrow> int \<Rightarrow> int \<Rightarrow> int) \<Rightarrow> (string \<Rightarrow> string) \<Rightarrow> go_error + config" where
  "loadConfig frac getenv =
     (let databaseURL = getenv ''DATABASE_URL''; token = getenv ''BILLING_API_TOKEN'';
          httpAddr = (if getenv ''HTTP_ADDR'' = [] then ''127.0.0.1:8080'' else getenv ''HTTP_ADDR'') in
      if trims_to_nothing databaseURL then Inl (New ''database_url is required'')
      else if length token < 32 \<or> length token > 4096
      then Inl (New ''billing_api_token must contain 32 to 4096 bytes'')
      else if list_ex token_byte_bad token
      then Inl (New ''billing_api_token must contain printable ascii without whitespace'')
      else if split_host_port httpAddr = None then Inl (New ''http_addr must contain a host and port'')
      else
     (case setting (getenv ''BILLING_RATE_MICROS'') parse_int64 (\<lambda>n. 0 < sint n)
            ''billing_rate_micros must be a positive int64'' 1000 of
        Inl e \<Rightarrow> Inl e
      | Inr rate \<Rightarrow>
     (case setting (getenv ''WORKER_INTERVAL'') (parse_duration frac)
            (\<lambda>n. 10000000 \<le> sint n \<and> sint n \<le> 60000000000)
            ''worker_interval must be between 10ms and 1m'' 100000000 of
        Inl e \<Rightarrow> Inl e
      | Inr interval \<Rightarrow>
     (case setting (getenv ''WORKER_BATCH'') parse_int64 (\<lambda>n. 1 \<le> sint n \<and> sint n \<le> 1000)
            ''worker_batch must be between 1 and 1000'' 100 of
        Inl e \<Rightarrow> Inl e
      | Inr batch \<Rightarrow>
     (case setting (getenv ''BILLING_MAX_PENDING_EVENTS'') parse_int64 (\<lambda>n. 1 \<le> sint n \<and> sint n \<le> 1000000)
            ''billing_max_pending_events must be between 1 and 1000000'' 10000 of
        Inl e \<Rightarrow> Inl e
      | Inr pending \<Rightarrow>
          Inr \<lparr>cfg_databaseURL = databaseURL, cfg_token = token, cfg_httpAddr = httpAddr,
               cfg_rateMicros = rate, cfg_workerInterval = interval, cfg_workerBatch = batch,
               cfg_maxPendingEvents = pending\<rparr>)))))"

definition config_ok :: "config \<Rightarrow> bool" where
  "config_ok cfg \<longleftrightarrow> 32 \<le> length (cfg_token cfg) \<and> length (cfg_token cfg) \<le> 4096 \<and>
     \<not> list_ex token_byte_bad (cfg_token cfg) \<and> 0 < sint (cfg_rateMicros cfg) \<and>
     10000000 \<le> sint (cfg_workerInterval cfg) \<and> sint (cfg_workerInterval cfg) \<le> 60000000000 \<and>
     1 \<le> sint (cfg_workerBatch cfg) \<and> sint (cfg_workerBatch cfg) \<le> 1000 \<and>
     1 \<le> sint (cfg_maxPendingEvents cfg) \<and> sint (cfg_maxPendingEvents cfg) \<le> 1000000"

lemma setting_ok: "setting value parse ok msg dflt = Inr n \<Longrightarrow> ok dflt \<Longrightarrow> ok n"
  by (auto simp: setting_def split: if_splits option.splits)

lemma loadConfig_ok: "loadConfig frac getenv = Inr cfg \<Longrightarrow> config_ok cfg"
proof -
  assume load: "loadConfig frac getenv = Inr cfg"
  from load have token: "cfg_token cfg = getenv ''BILLING_API_TOKEN''"
    "32 \<le> length (cfg_token cfg)" "length (cfg_token cfg) \<le> 4096" "\<not> list_ex token_byte_bad (cfg_token cfg)"
    by (auto simp: loadConfig_def Let_def split: if_splits sum.splits)
  have s: "setting (getenv ''BILLING_RATE_MICROS'') parse_int64 (\<lambda>n. 0 < sint n)
        ''billing_rate_micros must be a positive int64'' 1000 = Inr (cfg_rateMicros cfg)"
    "setting (getenv ''WORKER_INTERVAL'') (parse_duration frac) (\<lambda>n. 10000000 \<le> sint n \<and> sint n \<le> 60000000000)
        ''worker_interval must be between 10ms and 1m'' 100000000 = Inr (cfg_workerInterval cfg)"
    "setting (getenv ''WORKER_BATCH'') parse_int64 (\<lambda>n. 1 \<le> sint n \<and> sint n \<le> 1000)
        ''worker_batch must be between 1 and 1000'' 100 = Inr (cfg_workerBatch cfg)"
    "setting (getenv ''BILLING_MAX_PENDING_EVENTS'') parse_int64 (\<lambda>n. 1 \<le> sint n \<and> sint n \<le> 1000000)
        ''billing_max_pending_events must be between 1 and 1000000'' 10000 = Inr (cfg_maxPendingEvents cfg)"
    using load by (auto simp: loadConfig_def Let_def split: if_splits sum.splits)
  from setting_ok [OF s(1)] setting_ok [OF s(2)] setting_ok [OF s(3)] setting_ok [OF s(4)] token
  show ?thesis by (simp add: config_ok_def)
qed

end
