(* ===== verification/Service_Main.thy ===== *)
theory Service_Main
  imports System Service_Config
begin

text \<open>
  \<open>cmd/usage-billing/main.go\<close>: what \<open>run\<close> constructs, and \<open>serve\<close> as a step relation of the
  main goroutine with the two it starts. What the pool, the listener, the HTTP server and the
  worker answer is open: arguments of \<open>run_setup\<close>, any result in a step of \<open>serve\<close>.
\<close>

section \<open>Construction\<close>

text \<open>The running service: what \<open>run\<close> builds before it serves.\<close>

record running =
  rn_store :: store
  rn_handler :: "(pg_env, system) handler"
  rn_worker :: "(pg_env, db) worker"

text \<open>The pool's configuration, as far as \<open>run\<close> sets it; durations are nanoseconds.\<close>

record pool_config =
  pc_MaxConns :: int
  pc_MinConns :: int
  pc_MaxConnLifetime :: int64
  pc_MaxConnIdleTime :: int64
  pc_ConnectTimeout :: int64
  pc_RuntimeParams :: "string \<rightharpoonup> string"

definition pool_settings :: "pool_config \<Rightarrow> pool_config" where
  "pool_settings pc = pc\<lparr>pc_MaxConns := 8, pc_MinConns := 0, pc_MaxConnLifetime := 30 * 60000000000,
     pc_MaxConnIdleTime := 5 * 60000000000, pc_ConnectTimeout := 5 * 1000000000,
     pc_RuntimeParams := (pc_RuntimeParams pc)(''statement_timeout'' \<mapsto> ''5000'',
       ''idle_in_transaction_session_timeout'' \<mapsto> ''10000'')\<rparr>"

text \<open>
  What \<open>run\<close> meets outside: \<open>pgxpool.ParseConfig\<close> of the database URL, \<open>NewWithConfig\<close> with the
  configuration it is given, the ping, and the listener for the address it is given.
\<close>

record startup =
  su_parse_config :: "string \<Rightarrow> pool_config option"
  su_new_pool :: "pool_config \<Rightarrow> bool"
  su_ping_ok :: bool
  su_listen :: "string \<Rightarrow> bool"
  su_readiness :: "pg_env ctx \<Rightarrow> system \<Rightarrow> go_error option"
  su_rand :: "byte list option"
  su_float_text :: "int \<Rightarrow> string"

text \<open>
  \<open>run\<close> up to the call of \<open>serve\<close>, with its error texts. The parsed pool configuration, the
  connection, the ping and the listener succeed or fail by the arguments.
\<close>

definition run_setup :: "http_lib \<Rightarrow> startup \<Rightarrow> config \<Rightarrow> go_error + running" where
  "run_setup lib su cfg =
     (case su_parse_config su (cfg_databaseURL cfg) of
        None \<Rightarrow> Inl (New ''invalid database connection configuration'')
      | Some pc \<Rightarrow>
     (if \<not> su_new_pool su (pool_settings pc) then Inl (New ''database pool setup failed'')
      else if \<not> su_ping_ok su then Inl (New ''database is unavailable during startup'')
      else case NewWithQueueLimit False (cfg_maxPendingEvents cfg) of
        Inl e \<Rightarrow> Inl (New ''billing store setup failed'')
      | Inr st \<Rightarrow>
     (case service_New (Some (pg_repository st)) (cfg_rateMicros cfg) of
        Inl e \<Rightarrow> Inl (New ''billing service setup failed'')
      | Inr sv \<Rightarrow>
     (let w = worker_New (Some pg_processor) (cfg_workerInterval cfg) (sint (cfg_workerBatch cfg)) True in
      case telemetry_New (Some (col_queueStats pg_collector)) (Some (col_workerStats pg_collector)) of
        Inl e \<Rightarrow> Inl (New ''telemetry setup failed'')
      | Inr metrics \<Rightarrow>
     (case http_New lib (Some (api_of sv (su_rand su))) (Some (su_readiness su)) (cfg_token cfg) True
            [Some (metrics_source (su_float_text su))] of
        Inl e \<Rightarrow> Inl (New ''http handler setup failed'')
      | Inr h \<Rightarrow>
          (if \<not> su_listen su (cfg_httpAddr cfg) then Inl (New ''http listener setup failed'')
           else Inr \<lparr>rn_store = st, rn_handler = h, rn_worker = w\<rparr>))))))"

text \<open>\<open>run\<close>: the error of the construction, or what \<open>serve\<close> returns.\<close>

definition service_run :: "http_lib \<Rightarrow> startup \<Rightarrow> (running \<Rightarrow> go_error option) \<Rightarrow> config \<Rightarrow> go_error option" where
  "service_run lib su serve cfg =
     (case run_setup lib su cfg of Inl e \<Rightarrow> Some e | Inr rn \<Rightarrow> serve rn)"

text \<open>What the outside must grant for a configuration: it can be parsed, reached and listened on.\<close>

definition outside_ready :: "startup \<Rightarrow> config \<Rightarrow> bool" where
  "outside_ready su cfg \<longleftrightarrow>
     (\<exists>pc. su_parse_config su (cfg_databaseURL cfg) = Some pc \<and> su_new_pool su (pool_settings pc)) \<and>
     su_ping_ok su \<and> su_listen su (cfg_httpAddr cfg)"

lemma http_New_ok:
  assumes "32 \<le> length token" and "length token \<le> 4096" and "\<not> list_ex token_byte_bad token"
  shows "http_New lib (Some sv) (Some rd) token True [Some m] =
    Inr \<lparr>h_service = sv, h_readiness = rd, h_token_hash = lib_sha256 lib token,
         h_requests = replicate 8 (replicate 6 0), h_metrics_source = Some m\<rparr>"
  using assms by (simp add: http_New_def)

text \<open>A loaded configuration never fails in a constructor: only the outside can.\<close>

lemma run_setup_ok:
  assumes "config_ok cfg" and "outside_ready su cfg"
  shows "run_setup lib su cfg = Inr
    \<lparr>rn_store = \<lparr>maxPending = cfg_maxPendingEvents cfg\<rparr>,
     rn_handler = \<lparr>h_service = api_of (billing_service \<lparr>maxPending = cfg_maxPendingEvents cfg\<rparr> (cfg_rateMicros cfg)) (su_rand su),
       h_readiness = su_readiness su, h_token_hash = lib_sha256 lib (cfg_token cfg),
       h_requests = replicate 8 (replicate 6 0), h_metrics_source = Some (metrics_source (su_float_text su))\<rparr>,
     rn_worker = worker_New (Some pg_processor) (cfg_workerInterval cfg) (sint (cfg_workerBatch cfg)) True\<rparr>"
proof -
  have "NewWithQueueLimit False (cfg_maxPendingEvents cfg) = Inr \<lparr>maxPending = cfg_maxPendingEvents cfg\<rparr>"
    using assms(1) by (simp add: NewWithQueueLimit_def config_ok_def)
  moreover have "service_New (Some (pg_repository st)) (cfg_rateMicros cfg) =
      Inr (billing_service st (cfg_rateMicros cfg))" for st
    using assms(1) by (simp add: service_New_def billing_service_def config_ok_def)
  ultimately show ?thesis
    using assms by (auto simp: run_setup_def telemetry_New_def http_New_ok config_ok_def outside_ready_def Let_def)
qed

lemma run_setup_ready: "run_setup lib su cfg = Inr rn \<Longrightarrow> outside_ready su cfg"
  by (auto simp: run_setup_def outside_ready_def Let_def split: if_splits sum.splits option.splits)

section \<open>Serving and shutting down\<close>

text \<open>
  A goroutine and the channel of capacity one its result goes to: running, its result sent, its
  result received. \<open>http.ErrServerClosed\<close> is a sentinel of the library, the argument \<open>closed\<close>.
\<close>

datatype goroutine = Running | Sent "go_error option" | Joined "go_error option"

datatype serve_pc = Selecting | Stopping | Draining | AwaitHttp | AwaitWorker | Ended

record serving =
  sv_pc :: serve_pc
  sv_ctx_done :: bool
  sv_http :: goroutine
  sv_worker :: goroutine
  sv_worker_cancelled :: bool
  sv_shutdown :: bool
  sv_requests_cancelled :: bool
  sv_result :: "go_error option"

definition serve_start :: "bool \<Rightarrow> serving" where
  "serve_start ctx_done =
     \<lparr>sv_pc = Selecting, sv_ctx_done = ctx_done, sv_http = Running, sv_worker = Running,
      sv_worker_cancelled = False, sv_shutdown = False, sv_requests_cancelled = False, sv_result = None\<rparr>"

definition is_closed :: "go_error \<Rightarrow> go_error option \<Rightarrow> bool" where
  "is_closed closed err = (case err of None \<Rightarrow> False | Some e \<Rightarrow> errors_is e closed)"

definition worker_failed :: "go_error option \<Rightarrow> bool" where
  "worker_failed err = (case err of None \<Rightarrow> False | Some e \<Rightarrow> \<not> errors_is e (Driver Canceled))"

inductive serve_step :: "go_error \<Rightarrow> serving \<Rightarrow> serving \<Rightarrow> bool" for closed :: go_error where
  signal: "\<not> sv_ctx_done s \<Longrightarrow> serve_step closed s (s\<lparr>sv_ctx_done := True\<rparr>)"
| http_returns: "sv_http s = Running \<Longrightarrow> serve_step closed s (s\<lparr>sv_http := Sent err\<rparr>)"
| worker_returns: "sv_worker s = Running \<Longrightarrow> serve_step closed s (s\<lparr>sv_worker := Sent err\<rparr>)"
| select_ctx: "sv_pc s = Selecting \<Longrightarrow> sv_ctx_done s \<Longrightarrow>
     serve_step closed s (s\<lparr>sv_pc := Stopping, sv_worker_cancelled := True\<rparr>)"
| select_http: "sv_pc s = Selecting \<Longrightarrow> sv_http s = Sent err \<Longrightarrow>
     serve_step closed s (s\<lparr>sv_pc := Stopping, sv_http := Joined err, sv_worker_cancelled := True,
       sv_result := (if is_closed closed err then None else Some (New ''http server stopped unexpectedly''))\<rparr>)"
| select_worker: "sv_pc s = Selecting \<Longrightarrow> sv_worker s = Sent err \<Longrightarrow>
     serve_step closed s (s\<lparr>sv_pc := Stopping, sv_worker := Joined err, sv_worker_cancelled := True,
       sv_result := (if sv_ctx_done s then None else Some (New ''worker stopped unexpectedly''))\<rparr>)"
| shutdown: "sv_pc s = Stopping \<Longrightarrow> serve_step closed s (s\<lparr>sv_pc := Draining, sv_shutdown := True\<rparr>)"
| drained: "sv_pc s = Draining \<Longrightarrow> serve_step closed s (s\<lparr>sv_pc := AwaitHttp\<rparr>)"
| deadline: "sv_pc s = Draining \<Longrightarrow>
     serve_step closed s (s\<lparr>sv_pc := AwaitHttp, sv_requests_cancelled := True,
       sv_result := errors_join [sv_result s, Some (New ''http shutdown deadline exceeded''), close_err]\<rparr>)"
| http_is_done: "sv_pc s = AwaitHttp \<Longrightarrow> sv_http s = Joined err \<Longrightarrow>
     serve_step closed s (s\<lparr>sv_pc := AwaitWorker\<rparr>)"
| await_http: "sv_pc s = AwaitHttp \<Longrightarrow> sv_http s = Sent err \<Longrightarrow>
     serve_step closed s (s\<lparr>sv_pc := AwaitWorker, sv_http := Joined err,
       sv_result := (if is_closed closed err then sv_result s
                     else errors_join [sv_result s, Some (New ''http server stopped unexpectedly'')])\<rparr>)"
| worker_is_done: "sv_pc s = AwaitWorker \<Longrightarrow> sv_worker s = Joined err \<Longrightarrow>
     serve_step closed s (s\<lparr>sv_pc := Ended\<rparr>)"
| await_worker: "sv_pc s = AwaitWorker \<Longrightarrow> sv_worker s = Sent err \<Longrightarrow>
     serve_step closed s (s\<lparr>sv_pc := Ended, sv_worker := Joined err,
       sv_result := (if worker_failed err then errors_join [sv_result s, Some (New ''worker shutdown failed'')]
                     else sv_result s)\<rparr>)"

inductive_cases serve_stepE: "serve_step closed s t"

lemma errors_join_None_iff [simp]: "errors_join es = None \<longleftrightarrow> (\<forall>e\<in>set es. e = None)"
  by (induction es) (auto simp: errors_join_def List.map_filter_def split: list.splits)

text \<open>\<open>main\<close>: the exit code, and what is logged with which error.\<close>

definition service_main ::
  "go_error + config \<Rightarrow> (config \<Rightarrow> go_error option) \<Rightarrow> int \<times> (string \<times> go_error) list" where
  "service_main loaded run =
     (case loaded of
        Inl err \<Rightarrow> (1, [(''invalid configuration'', err)])
      | Inr cfg \<Rightarrow>
          (case run cfg of
             Some err \<Rightarrow> (1, [(''service stopped'', err)])
           | None \<Rightarrow> (0, [])))"

text \<open>What holds at every point of \<open>serve\<close>: whom it told to stop, whom it joined, what success means.\<close>

definition joined :: "goroutine \<Rightarrow> bool" where
  "joined g = (case g of Joined e \<Rightarrow> True | _ \<Rightarrow> False)"

definition joined_clean :: "go_error \<Rightarrow> serving \<Rightarrow> bool" where
  "joined_clean closed s \<longleftrightarrow> \<not> sv_requests_cancelled s \<and>
     (case sv_http s of Joined e \<Rightarrow> is_closed closed e | _ \<Rightarrow> True) \<and>
     (case sv_worker s of Joined e \<Rightarrow> \<not> worker_failed e \<or> sv_ctx_done s | _ \<Rightarrow> True)"

definition serving_ok :: "go_error \<Rightarrow> serving \<Rightarrow> bool" where
  "serving_ok closed s \<longleftrightarrow>
     (sv_pc s \<noteq> Selecting \<longrightarrow> sv_worker_cancelled s) \<and>
     (sv_pc s \<notin> {Selecting, Stopping} \<longrightarrow> sv_shutdown s) \<and>
     (sv_pc s = Selecting \<longrightarrow> \<not> joined (sv_http s) \<and> \<not> joined (sv_worker s) \<and>
       \<not> sv_requests_cancelled s \<and> sv_result s = None) \<and>
     (sv_pc s \<in> {AwaitWorker, Ended} \<longrightarrow> joined (sv_http s)) \<and>
     (sv_pc s = Ended \<longrightarrow> joined (sv_worker s)) \<and>
     (sv_result s = None \<longrightarrow> joined_clean closed s)"

lemma serve_step_ok: "serving_ok closed s \<Longrightarrow> serve_step closed s t \<Longrightarrow> serving_ok closed t"
  by (erule serve_stepE)
    (auto simp: serving_ok_def joined_def joined_clean_def simp del: not_None_eq split: goroutine.splits if_splits)

interpretation serving: step_invariant "serve_step closed" "serving_ok closed" for closed
  by unfold_locales (rule serve_step_ok)

text \<open>Every step uses something up, so a run has at most ten steps.\<close>

fun pc_rank :: "serve_pc \<Rightarrow> nat" where
  "pc_rank Selecting = 5" | "pc_rank Stopping = 4" | "pc_rank Draining = 3"
| "pc_rank AwaitHttp = 2" | "pc_rank AwaitWorker = 1" | "pc_rank Ended = 0"

text \<open>The points of \<open>serve\<close> in the order the main goroutine passes them.\<close>

instantiation serve_pc :: linorder
begin

definition less_eq_serve_pc :: "serve_pc \<Rightarrow> serve_pc \<Rightarrow> bool" where
  "a \<le> b \<longleftrightarrow> pc_rank b \<le> pc_rank a"

definition less_serve_pc :: "serve_pc \<Rightarrow> serve_pc \<Rightarrow> bool" where
  "a < b \<longleftrightarrow> pc_rank b < pc_rank a"

instance
proof
  fix a b c :: serve_pc
  show "a \<le> b \<Longrightarrow> b \<le> a \<Longrightarrow> a = b"
    by (cases a; cases b) (simp_all add: less_eq_serve_pc_def)
qed (auto simp: less_eq_serve_pc_def less_serve_pc_def)

end

lemmas serve_pc_order [simp] = less_eq_serve_pc_def less_serve_pc_def

lemma serve_step_forward: "serve_step closed s t \<Longrightarrow> sv_pc s \<le> sv_pc t"
  by (erule serve_stepE) simp_all

fun goroutine_rank :: "goroutine \<Rightarrow> nat" where
  "goroutine_rank Running = 2" | "goroutine_rank (Sent e) = 1" | "goroutine_rank (Joined e) = 0"

definition serve_measure :: "serving \<Rightarrow> nat" where
  "serve_measure s = pc_rank (sv_pc s) + goroutine_rank (sv_http s) + goroutine_rank (sv_worker s) +
     (if sv_ctx_done s then 0 else 1)"

lemma serve_step_measure: "serve_step closed s t \<Longrightarrow> serve_measure t < serve_measure s"
  by (erule serve_stepE) (simp_all add: serve_measure_def)

lemma serve_steps_bound: "(serve_step closed ^^ n) s t \<Longrightarrow> n + serve_measure t \<le> serve_measure s"
proof (induction n arbitrary: t)
  case (Suc n)
  then obtain u where "(serve_step closed ^^ n) s u" "serve_step closed u t" by auto
  with Suc.IH serve_step_measure show ?case by fastforce
qed simp

text \<open>The main goroutine can move, or it waits for one that still runs and was told to stop.\<close>

lemma serve_progress:
  assumes "serving_ok closed s" and "sv_pc s \<noteq> Ended"
  shows "(\<exists>t. serve_step closed s t \<and> sv_pc s < sv_pc t) \<or>
    (sv_pc s = Selecting \<and> \<not> sv_ctx_done s \<and> sv_http s = Running \<and> sv_worker s = Running) \<or>
    (sv_pc s = AwaitHttp \<and> sv_http s = Running \<and> sv_shutdown s) \<or>
    (sv_pc s = AwaitWorker \<and> sv_worker s = Running \<and> sv_worker_cancelled s)"
proof (cases "sv_pc s")
  case Selecting
  with assms(1) have run: "\<not> joined (sv_http s)" "\<not> joined (sv_worker s)" by (simp_all add: serving_ok_def)
  consider "sv_ctx_done s" | err where "sv_http s = Sent err" | err where "sv_worker s = Sent err"
    | "\<not> sv_ctx_done s" "sv_http s = Running" "sv_worker s = Running"
    using run by (cases "sv_http s"; cases "sv_worker s") (auto simp: joined_def)
  then show ?thesis
  proof cases
    case 1
    from select_ctx [OF Selecting this] Selecting show ?thesis by fastforce
  next
    case 2
    from select_http [OF Selecting this, of closed] Selecting show ?thesis by fastforce
  next
    case 3
    from select_worker [OF Selecting this, of closed] Selecting show ?thesis by fastforce
  qed (use Selecting in simp)
next
  case Stopping
  from shutdown [OF this, of closed] Stopping show ?thesis by fastforce
next
  case Draining
  from drained [OF this, of closed] Draining show ?thesis by fastforce
next
  case AwaitHttp
  show ?thesis
  proof (cases "sv_http s")
    case Running
    with AwaitHttp assms(1) show ?thesis by (simp add: serving_ok_def)
  next
    case (Sent err)
    from await_http [OF AwaitHttp this, of closed] AwaitHttp show ?thesis by fastforce
  next
    case (Joined err)
    from http_is_done [OF AwaitHttp this, of closed] AwaitHttp show ?thesis by fastforce
  qed
next
  case AwaitWorker
  show ?thesis
  proof (cases "sv_worker s")
    case Running
    with AwaitWorker assms(1) show ?thesis by (simp add: serving_ok_def)
  next
    case (Sent err)
    from await_worker [OF AwaitWorker this, of closed] AwaitWorker show ?thesis by fastforce
  next
    case (Joined err)
    from worker_is_done [OF AwaitWorker this, of closed] AwaitWorker show ?thesis by fastforce
  qed
qed (use assms(2) in simp)

end
