(* ===== verification/Service_Properties.thy ===== *)
theory Service_Properties
  imports Samples Service_Main
begin

text \<open>
  The properties of the worker over the store, of the metrics text, of the configuration and of
  the shutdown protocol, each with a witness where it has hypotheses. The lemmas are in
  \<open>Worker\<close>, \<open>System\<close>, \<open>Telemetry\<close>, \<open>Service_Config\<close> and \<open>Service_Main\<close>.
\<close>

section \<open>The worker\<close>

definition sample_tick :: "pg_env \<Rightarrow> pg_env tick" where
  "sample_tick env = \<lparr>tk_done_before = False, tk_env = env, tk_attempt_expired = False, tk_done_after = False\<rparr>"

lemma worker_Run_pg:
  assumes "0 < sint interval" and "1 \<le> batch" and "batch \<le> 1000"
  shows "worker_Run (worker_New (Some p) interval batch True) ws s =
    (case worker_loop p interval batch ws \<lparr>lp_delay = interval, lp_stats = zero_stats\<lparr>ws_Running := True\<rparr>,
            lp_log = [], lp_timers = [0], lp_store = s\<rparr> of
       (False, lp) \<Rightarrow> (run_result.Waiting, (worker_New (Some p) interval batch True)\<lparr>wk_stats := lp_stats lp\<rparr>, lp)
     | (True, lp) \<Rightarrow> (run_result.Returned None, (worker_New (Some p) interval batch True)\<lparr>wk_stats := worker_stop (lp_stats lp)\<rparr>,
                    lp\<lparr>lp_stats := worker_stop (lp_stats lp)\<rparr>))"
  using assms
  by (simp add: worker_Run_def worker_New_def worker_start_def zero_stats_def Let_def split: prod.split bool.split)

text \<open>
  C23. After the first attempt, which is immediate, the worker waits before each attempt for the
  interval times two to the number of failures in a row, cut at the larger of the interval and
  30 seconds, without overflow; a success resets it. So it never waits less than the interval.
\<close>

theorem worker_waits:
  assumes "0 < sint interval" and "1 \<le> batch" and "batch \<le> 1000"
    and "\<forall>t\<in>set ts. \<not> tk_done_before t \<and> \<not> tk_done_after t"
  shows "map sint (lp_timers (snd (snd (worker_Run (worker_New (Some p) interval batch True) (map TimerFired ts) s)))) =
      0 # expected_delays interval 0 (outcomes p batch ts s) \<and>
    (\<forall>d\<in>set (expected_delays interval 0 (outcomes p batch ts s)).
       sint interval \<le> d \<and> d \<le> max 30000000000 (sint interval))"
proof -
  let ?lp = "\<lparr>lp_delay = interval, lp_stats = zero_stats\<lparr>ws_Running := True\<rparr>, lp_log = [], lp_timers = [0], lp_store = s\<rparr>"
  have "map sint (lp_timers (snd (worker_loop p interval batch (map TimerFired ts) ?lp))) =
      0 # expected_delays interval 0 (outcomes p batch ts s)"
    using worker_loop_delays [OF assms(1,4), of ?lp 0 p batch] backoff_0 [OF assms(1)] by simp
  moreover have "max 30000000000 (sint interval) = sint (max_delay interval)" by (simp add: max_delay_def)
  ultimately show ?thesis
    using expected_delays_bounds [OF assms(1)]
    by (auto simp: worker_Run_pg [OF assms(1-3)] split: prod.splits bool.splits)
qed

theorem worker_waits_witness:
  "map sint (lp_timers (snd (snd (worker_Run (worker_New (Some pg_processor) 100 10 True)
     (map TimerFired [sample_tick (lost_commit_env 0), sample_tick (lost_commit_env 0), sample_tick sample_env]) two_accepted)))) =
   [0, 200, 400, 100]"
proof -
  let ?ts = "[sample_tick (lost_commit_env 0), sample_tick (lost_commit_env 0), sample_tick sample_env]"
  have "outcomes pg_processor 10 ?ts two_accepted = [True, True, False]" by code_simp
  with worker_waits [of 100 10 ?ts pg_processor two_accepted] show ?thesis
    by (simp add: sample_tick_def backoff_def max_delay_def)
qed



text \<open>
  C11. Liveness of the worker: when the database answers, no row is locked by others and the ledger
  reports integrity violations only, as many attempts as there are left in the queue leave no
  accepted event waiting, each is posted or quarantined.
\<close>

theorem worker_drains_queue:
  assumes "0 < sint interval" and "1 \<le> batch" and "batch \<le> 1000" and "store_inv d"
    and "\<forall>t\<in>set ts. \<not> tk_done_before t \<and> \<not> tk_done_after t \<and> good_env (tk_env t)" and "work d \<le> length ts"
    and "stored (lp_store (snd (snd (worker_Run (worker_New (Some pg_processor) interval batch True) (map TimerFired ts) d)))) i = Some e"
  shows "\<not> waiting e"
proof -
  let ?lp = "\<lparr>lp_delay = interval, lp_stats = zero_stats\<lparr>ws_Running := True\<rparr>, lp_log = [], lp_timers = [0], lp_store = d\<rparr>"
  have "lp_store (snd (snd (worker_Run (worker_New (Some pg_processor) interval batch True) (map TimerFired ts) d))) =
      lp_store (snd (worker_loop pg_processor interval batch (map TimerFired ts) ?lp))"
    by (simp add: worker_Run_pg [OF assms(1-3)] split: prod.splits bool.splits)
  also have "\<dots> = run_batches batch (map tk_env ts) d"
    using worker_loop_store [of ts interval batch ?lp] assms(5) by simp
  finally have store: "stored (run_batches batch (map tk_env ts) d) i = Some e" using assms(7) by simp
  have "drained (run_batches batch (map tk_env ts) d)"
    using assms by (intro run_batches_drains) auto
  then show ?thesis using run_batches_inv [OF assms(4)] store by (rule drained_stored)
qed

theorem worker_drains_queue_witness:
  "map_option waiting (stored (lp_store (snd (snd (worker_Run (worker_New (Some pg_processor) 100 1 True)
     (map TimerFired (replicate 6 (sample_tick sample_env))) two_accepted)))) ''e2'') = Some False"
proof -
  let ?d = "lp_store (snd (snd (worker_Run (worker_New (Some pg_processor) 100 1 True)
     (map TimerFired (replicate 6 (sample_tick sample_env))) two_accepted)))"
  have "work two_accepted \<le> length (replicate 6 (sample_tick sample_env))" by code_simp
  note drains = worker_drains_queue [OF _ _ _ two_accepted_inv _ this, of 100 1]
  have "stored ?d ''e2'' \<noteq> None" by code_simp
  then obtain e where "stored ?d ''e2'' = Some e" by blast
  with drains [of "''e2''" e] show ?thesis by (simp add: sample_tick_def)
qed

text \<open>
  The worker's log never carries anything of an error or an event but re-encoded request
  identifiers, the two failure outcomes and numbers.
\<close>

lemma worker_log_clean:
  "list_all log_ok (lp_log (snd (snd (worker_Run w ws s))))"
proof -
  have "list_all log_ok (lp_log (snd (worker_loop p interval batch ws
      \<lparr>lp_delay = interval, lp_stats = st, lp_log = [], lp_timers = [0], lp_store = s\<rparr>)))" for p interval batch st
    by (rule worker_loop_log) simp
  then show ?thesis
    by (auto simp: worker_Run_def Let_def split: option.splits prod.splits bool.splits) (metis snd_conv)+
qed

section \<open>Metrics\<close>

text \<open>
  C35. Reading the metrics text back gives what was measured: the queue's two counts and the
  success flag, or the flag 0 and no count when the query failed, and the worker's counters. The
  counter of failed queries goes up exactly then.
\<close>

theorem metrics_read_back:
  assumes "\<And>v. CHR 0x0A \<notin> set (float_text v)" and "metrics_source float_text c s = (out, s')"
  shows "sample_of ''usage_billing_queue_scrape_success'' out =
      Some (case store_QueueStats (ctx_env c) (sys_db s) of Inl e \<Rightarrow> ''0'' | Inr q \<Rightarrow> ''1'') \<and>
    sample_of ''usage_billing_queue_pending_events'' out =
      (case store_QueueStats (ctx_env c) (sys_db s) of Inl e \<Rightarrow> None | Inr (pending, failed, age) \<Rightarrow> Some (show_int pending)) \<and>
    sample_of ''usage_billing_queue_failed_events'' out =
      (case store_QueueStats (ctx_env c) (sys_db s) of Inl e \<Rightarrow> None | Inr (pending, failed, age) \<Rightarrow> Some (show_int failed)) \<and>
    sample_of ''usage_billing_worker_events_processed_total'' out =
      Some (show_nat (unat (ws_EventsProcessed (sys_worker s)))) \<and>
    sample_of ''usage_billing_queue_scrape_errors_total'' out = Some (show_nat (unat (sys_queue_errors s'))) \<and>
    sys_queue_errors s' = sys_queue_errors s +
      (case store_QueueStats (ctx_env c) (sys_db s) of Inl e \<Rightarrow> 1 | Inr q \<Rightarrow> 0) \<and>
    sys_db s' = sys_db s \<and> sys_worker s' = sys_worker s"
proof -
  let ?q = "store_QueueStats (ctx_env c) (sys_db s)"
  from assms(2) have s': "s' = s\<lparr>sys_queue_errors := sys_queue_errors s + (case ?q of Inl e \<Rightarrow> 1 | Inr q \<Rightarrow> 0)\<rparr>"
    and out: "out = concat (map (\<lambda>l. l @ [CHR 0x0A]) (queue_lines float_text ?q @ worker_lines (sys_queue_errors s') (sys_worker s)))"
    by (auto simp: metrics_source_def collector_Metrics_def pg_collector_def Let_def split: sum.splits)
  note lines = sample_of_lines [OF lines_clean [OF assms(1)]]
  note defs = queue_lines_def worker_lines_def writeInt_def writeUint_def writeBool_def writeFloat_def
  show ?thesis
  proof (cases ?q)
    case (Inl e)
    then show ?thesis unfolding out lines by (simp add: s' defs)
  next
    case (Inr q)
    then show ?thesis unfolding out lines by (cases q) (simp add: s' defs)
  qed
qed

theorem metrics_read_back_witness:
  "sample_of ''usage_billing_queue_pending_events'' (fst (metrics_source show_int (sample_ctx sample_env)
     \<lparr>sys_db = two_accepted, sys_queue_errors = 0, sys_worker = zero_stats\<rparr>)) = Some (show_int 2)"
proof -
  obtain out s' where run: "metrics_source show_int (sample_ctx sample_env)
     \<lparr>sys_db = two_accepted, sys_queue_errors = 0, sys_worker = zero_stats\<rparr> = (out, s')" by fastforce
  have "\<exists>age. store_QueueStats sample_env two_accepted = Inr (2, 0, age)" by (rule exI [of _ 0]) code_simp
  with metrics_read_back [OF no_newline_show_int run] run show ?thesis by (auto simp: sample_ctx_def)
qed

section \<open>Configuration and construction\<close>

text \<open>
  C29. A configuration that loads is within the documented bounds and no constructor of the service
  refuses it: the start succeeds exactly when the database URL can be parsed, the pool opens with
  the settings of \<open>run\<close>, the database is reached and the address can be listened on; and the
  worker built from it runs: told to stop, it returns without an error.
\<close>

theorem loaded_config_runs:
  assumes "loadConfig frac getenv = Inr cfg"
  shows "config_ok cfg \<and> ((\<exists>rn. run_setup lib su cfg = Inr rn) \<longleftrightarrow> outside_ready su cfg) \<and>
    (\<forall>rn. run_setup lib su cfg = Inr rn \<longrightarrow> maxPending (rn_store rn) = cfg_maxPendingEvents cfg \<and>
      fst (worker_Run (rn_worker rn) [CtxDone] d) = run_result.Returned None)"
proof -
  have ok: "config_ok cfg" using assms(1) by (rule loadConfig_ok)
  then have "0 < sint (cfg_workerInterval cfg)" "1 \<le> sint (cfg_workerBatch cfg)" "sint (cfg_workerBatch cfg) \<le> 1000"
    by (simp_all add: config_ok_def)
  note worker = worker_Run_pg [OF this, of pg_processor "[CtxDone]" d]
  show ?thesis
  proof (cases "outside_ready su cfg")
    case True
    from run_setup_ok [OF ok this, of lib] worker ok True show ?thesis by simp
  next
    case False
    then show ?thesis using ok run_setup_ready by blast
  qed
qed

definition sample_getenv :: "string \<Rightarrow> string" where
  "sample_getenv name =
     (if name = ''DATABASE_URL'' then ''postgres://localhost/usage''
      else if name = ''BILLING_API_TOKEN'' then replicate 32 CHR ''k''
      else if name = ''HTTP_ADDR'' then ''[::1]:8080''
      else if name = ''WORKER_INTERVAL'' then ''1s250ms''
      else if name = ''WORKER_BATCH'' then ''7'' else [])"

definition sample_startup :: startup where
  "sample_startup = \<lparr>su_parse_config = \<lambda>url. Some \<lparr>pc_MaxConns = 4, pc_MinConns = 0, pc_MaxConnLifetime = 0,
       pc_MaxConnIdleTime = 0, pc_ConnectTimeout = 0, pc_RuntimeParams = Map.empty\<rparr>,
     su_new_pool = \<lambda>pc. pc_MaxConns pc = 8, su_ping_ok = True, su_listen = \<lambda>addr. addr = ''[::1]:8080'',
     su_readiness = \<lambda>c s. None, su_rand = None, su_float_text = show_int\<rparr>"

theorem loaded_config_runs_witness:
  "\<exists>cfg rn. loadConfig (\<lambda>f unit scale. 0) sample_getenv = Inr cfg \<and> cfg_workerInterval cfg = 1250000000 \<and>
     run_setup \<lparr>lib_sha256 = map of_char, lib_media_type = Some\<rparr> sample_startup cfg = Inr rn"
proof -
  have "case loadConfig (\<lambda>f unit scale. 0) sample_getenv of Inl e \<Rightarrow> False
      | Inr cfg \<Rightarrow> cfg_workerInterval cfg = 1250000000 \<and> cfg_httpAddr cfg = ''[::1]:8080''"
    by code_simp
  then obtain cfg where cfg: "loadConfig (\<lambda>f unit scale. 0) sample_getenv = Inr cfg" "cfg_workerInterval cfg = 1250000000"
      "cfg_httpAddr cfg = ''[::1]:8080''"
    by (auto split: sum.splits)
  have "outside_ready sample_startup cfg" by (simp add: outside_ready_def sample_startup_def pool_settings_def cfg(3))
  with loaded_config_runs [OF cfg(1)] cfg show ?thesis by blast
qed

section \<open>Shutdown\<close>

text \<open>
  C24. \<open>serve\<close> joins what it started: when it returns, both goroutines have ended and their results
  were received, the server was shut down and the worker's context cancelled; and it returns
  success only when no request had to be cut off, the server ended with \<open>http.ErrServerClosed\<close>
  and the worker without a failure of its own.
\<close>

theorem serve_joins:
  assumes "(serve_step closed)\<^sup>*\<^sup>* (serve_start ctx_done) s" and "sv_pc s = Ended"
  shows "sv_shutdown s \<and> sv_worker_cancelled s \<and>
    (\<exists>http work. sv_http s = Joined http \<and> sv_worker s = Joined work \<and>
       (sv_result s = None \<longrightarrow> \<not> sv_requests_cancelled s \<and> is_closed closed http \<and>
          (\<not> worker_failed work \<or> sv_ctx_done s)))"
proof -
  have "serving_ok closed (serve_start ctx_done)"
    by (simp add: serving_ok_def serve_start_def joined_def joined_clean_def)
  from serving.reachable_inv [OF assms(1) this] assms(2) show ?thesis
    by (auto simp: serving_ok_def joined_def joined_clean_def split: goroutine.splits)
qed

text \<open>The signal, the worker's end, the shutdown and the server's end, in the usual order.\<close>

definition clean_end :: "go_error \<Rightarrow> serving" where
  "clean_end closed = \<lparr>sv_pc = Ended, sv_ctx_done = True, sv_http = Joined (Some closed), sv_worker = Joined None,
     sv_worker_cancelled = True, sv_shutdown = True, sv_requests_cancelled = False, sv_result = None\<rparr>"

lemma clean_end_steps: "(serve_step closed ^^ 7) (serve_start True) (clean_end closed)"
proof -
  let ?s = "\<lambda>pc http wk cancelled down. \<lparr>sv_pc = pc, sv_ctx_done = True, sv_http = http, sv_worker = wk,
    sv_worker_cancelled = cancelled, sv_shutdown = down, sv_requests_cancelled = False, sv_result = None\<rparr>"
  have s1: "serve_step closed (?s Selecting Running Running False False) (?s Stopping Running Running True False)"
    using select_ctx [of "?s Selecting Running Running False False" closed] by simp
  have s2: "serve_step closed (?s Stopping Running Running True False) (?s Stopping Running (Sent None) True False)"
    using worker_returns [of "?s Stopping Running Running True False" closed None] by simp
  have s3: "serve_step closed (?s Stopping Running (Sent None) True False) (?s Draining Running (Sent None) True True)"
    using shutdown [of "?s Stopping Running (Sent None) True False" closed] by simp
  have s4: "serve_step closed (?s Draining Running (Sent None) True True) (?s Draining (Sent (Some closed)) (Sent None) True True)"
    using http_returns [of "?s Draining Running (Sent None) True True" closed "Some closed"] by simp
  have s5: "serve_step closed (?s Draining (Sent (Some closed)) (Sent None) True True) (?s AwaitHttp (Sent (Some closed)) (Sent None) True True)"
    using drained [of "?s Draining (Sent (Some closed)) (Sent None) True True" closed] by simp
  have s6: "serve_step closed (?s AwaitHttp (Sent (Some closed)) (Sent None) True True) (?s AwaitWorker (Joined (Some closed)) (Sent None) True True)"
    using await_http [of "?s AwaitHttp (Sent (Some closed)) (Sent None) True True" "Some closed" closed] by (simp add: is_closed_def)
  have s7: "serve_step closed (?s AwaitWorker (Joined (Some closed)) (Sent None) True True) (?s Ended (Joined (Some closed)) (Joined None) True True)"
    using await_worker [of "?s AwaitWorker (Joined (Some closed)) (Sent None) True True" None closed] by (simp add: worker_failed_def)
  have seven: "7 = Suc (Suc (Suc (Suc (Suc (Suc (Suc 0))))))" by simp
  show ?thesis unfolding seven serve_start_def clean_end_def
    by (rule relpowp_Suc_I2, rule s1, rule relpowp_Suc_I2, rule s2, rule relpowp_Suc_I2, rule s3, rule relpowp_Suc_I2, rule s4, rule relpowp_Suc_I2, rule s5, rule relpowp_Suc_I2, rule s6, rule relpowp_Suc_I2, rule s7, rule relpowp_0_I)
qed

lemma clean_end_reached: "(serve_step closed)\<^sup>*\<^sup>* (serve_start True) (clean_end closed)"
  using clean_end_steps by (rule relpowp_imp_rtranclp)

theorem serve_joins_witness: "\<not> sv_requests_cancelled (clean_end ErrTxClosed) \<and> sv_shutdown (clean_end ErrTxClosed)"
  using serve_joins [OF clean_end_reached, of ErrTxClosed] by (simp add: clean_end_def)



text \<open>
  C36. \<open>serve\<close> never blocks for good: until it returns, the main goroutine can move on, or nothing
  has happened yet, or it waits for one goroutine that still runs and has been told to stop.
\<close>

theorem serve_never_stuck:
  assumes "(serve_step closed)\<^sup>*\<^sup>* (serve_start ctx_done) s" and "sv_pc s \<noteq> Ended"
  shows "(\<exists>t. serve_step closed s t \<and> sv_pc s < sv_pc t) \<or>
    (sv_pc s = Selecting \<and> \<not> sv_ctx_done s \<and> sv_http s = Running \<and> sv_worker s = Running) \<or>
    (sv_pc s = AwaitHttp \<and> sv_http s = Running \<and> sv_shutdown s) \<or>
    (sv_pc s = AwaitWorker \<and> sv_worker s = Running \<and> sv_worker_cancelled s)"
proof -
  have "serving_ok closed (serve_start ctx_done)"
    by (simp add: serving_ok_def serve_start_def joined_def joined_clean_def)
  from serve_progress [OF serving.reachable_inv [OF assms(1) this] assms(2)] show ?thesis .
qed

theorem serve_never_stuck_witness: "\<exists>t. serve_step ErrTxClosed (serve_start True) t \<and> Selecting < sv_pc t"
  using serve_never_stuck [of ErrTxClosed True "serve_start True"] by (simp add: serve_start_def)

end
