(* ===== verification/Admission.thy ===== *)
theory Admission
  imports Store_Repository
begin

text \<open>
  \<open>Store.Accept\<close> run by any number of sessions at once, statement by statement, under READ
  COMMITTED: each statement sees the tables as committed when it starts, a session's own rows
  stay invisible to the others until its COMMIT, \<open>ON CONFLICT DO NOTHING\<close> waits for a session
  that holds an uncommitted row of the same key, and the advisory lock is held until the
  transaction ends. Batches and retries, whose row locks no admission asks for, are single
  steps at their COMMIT. The history is the committed operations in the order of their commits.
\<close>

section \<open>Sessions\<close>

datatype outcome = Accepted event | Replayed event | Conflicted | Refused | Errored

datatype admission_pc =
    Begun                     \<comment> \<open>before the insert into \<open>usage_events\<close>\<close>
  | Duplicate                 \<comment> \<open>the insert affected no row\<close>
  | Inserted int              \<comment> \<open>the row is inserted, at this time\<close>
  | Locked int                \<comment> \<open>the advisory lock is held\<close>
  | Counted int               \<comment> \<open>the queue had room\<close>
  | Enqueued int int          \<comment> \<open>the queue row is inserted\<close>
  | Finished outcome

record shared =
  sh_db :: db
  sh_lock :: "nat option"
  sh_session :: "nat \<Rightarrow> (event \<times> admission_pc) option"
  sh_history :: "store_op list"

fun admission_phase :: "admission_pc \<Rightarrow> nat" where
  "admission_phase Begun = 0" | "admission_phase Duplicate = 0" | "admission_phase (Inserted t) = 1"
| "admission_phase (Locked t) = 2" | "admission_phase (Counted t) = 3" | "admission_phase (Enqueued t t') = 3"
| "admission_phase (Finished r) = 0"

text \<open>A session in phase 1 and up holds an uncommitted usage row.\<close>

definition phase_of :: "shared \<Rightarrow> nat \<Rightarrow> nat" where
  "phase_of s i = (case sh_session s i of None \<Rightarrow> 0 | Some (ev, pc) \<Rightarrow> admission_phase pc)"

definition key_of :: "shared \<Rightarrow> nat \<Rightarrow> string" where
  "key_of s i = (case sh_session s i of None \<Rightarrow> [] | Some (ev, pc) \<Rightarrow> EventID (Input ev))"

definition holds_key :: "shared \<Rightarrow> nat \<Rightarrow> string \<Rightarrow> bool" where
  "holds_key s i k \<longleftrightarrow> 0 < phase_of s i \<and> key_of s i = k"

definition moves :: "nat \<Rightarrow> event \<Rightarrow> admission_pc \<Rightarrow> shared \<Rightarrow> shared" where
  "moves i ev pc s = s\<lparr>sh_session := (sh_session s)(i \<mapsto> (ev, pc))\<rparr>"

definition unlocks :: "nat \<Rightarrow> shared \<Rightarrow> shared" where
  "unlocks i s = s\<lparr>sh_lock := (if sh_lock s = Some i then None else sh_lock s)\<rparr>"

text \<open>The environment of a sequential \<open>Accept\<close> with the times of a concurrent one.\<close>

definition commit_env :: "int \<Rightarrow> int \<Rightarrow> pg_env" where
  "commit_env now1 now2 = \<lparr>env_fault = \<lambda>k. None, env_clock = \<lambda>k. if k = 1 then now1 else now2,
     env_locked = \<lambda>i. False, env_collate = map of_char, env_violation = \<lambda>i. None, env_scan_fault = \<lambda>k. None,
     env_rows_break = None, env_commit_applied = False, env_rollback_fault = None\<rparr>"

definition commits_admission :: "nat \<Rightarrow> event \<Rightarrow> int \<Rightarrow> int \<Rightarrow> outcome \<Rightarrow> shared \<Rightarrow> shared" where
  "commits_admission i ev now1 now2 out s =
     (unlocks i (moves i ev (Finished out) s))
       \<lparr>sh_db := admitted ev now1 now2 (sh_db s),
        sh_history := sh_history s @ [OpAccept (commit_env now1 now2) ev]\<rparr>"

fun is_accept :: "store_op \<Rightarrow> bool" where
  "is_accept (OpAccept env ev) = True" | "is_accept (OpProcess env limit) = False" | "is_accept (OpRetry env i g) = False"

inductive admission_step :: "store \<Rightarrow> shared \<Rightarrow> shared \<Rightarrow> bool" for st :: store where
  begins: "sh_session s i = None \<Longrightarrow> admission_step st s (moves i ev Begun s)"
| rejected: "sh_session s i = Some (ev, Begun) \<Longrightarrow> \<not> usage_check (usage_row_of ev 0) \<Longrightarrow>
     admission_step st s (moves i ev (Finished Errored) s)"
| inserts: "sh_session s i = Some (ev, Begun) \<Longrightarrow> usage_check (usage_row_of ev 0) \<Longrightarrow>
     EventID (Input ev) \<notin> set (usage_ids (sh_db s)) \<Longrightarrow> \<forall>j. \<not> holds_key s j (EventID (Input ev)) \<Longrightarrow>
     admission_step st s (moves i ev (Inserted now1) s)"
| finds: "sh_session s i = Some (ev, Begun) \<Longrightarrow> usage_check (usage_row_of ev 0) \<Longrightarrow>
     EventID (Input ev) \<in> set (usage_ids (sh_db s)) \<Longrightarrow> admission_step st s (moves i ev Duplicate s)"
| reads: "sh_session s i = Some (ev, Duplicate) \<Longrightarrow> stored (sh_db s) (EventID (Input ev)) = Some e \<Longrightarrow>
     admission_step st s (moves i ev (Finished (if Input e = Input ev then Replayed e else Conflicted)) s)"
| locks: "sh_session s i = Some (ev, Inserted now1) \<Longrightarrow> sh_lock s = None \<Longrightarrow>
     admission_step st s ((moves i ev (Locked now1) s)\<lparr>sh_lock := Some i\<rparr>)"
| counts: "sh_session s i = Some (ev, Locked now1) \<Longrightarrow> \<not> queue_full st (sh_db s) \<Longrightarrow>
     admission_step st s (moves i ev (Counted now1) s)"
| refuses: "sh_session s i = Some (ev, Locked now1) \<Longrightarrow> queue_full st (sh_db s) \<Longrightarrow>
     admission_step st s (unlocks i (moves i ev (Finished Refused) s))"
| enqueues: "sh_session s i = Some (ev, Counted now1) \<Longrightarrow>
     admission_step st s (moves i ev (Enqueued now1 now2) s)"
| commits: "sh_session s i = Some (ev, Enqueued now1 now2) \<Longrightarrow>
     admission_step st s (commits_admission i ev now1 now2 (Accepted (fresh_event ev now1)) s)"
| commit_unanswered: "sh_session s i = Some (ev, Enqueued now1 now2) \<Longrightarrow>
     admission_step st s (commits_admission i ev now1 now2 Errored s)"
| fails: "sh_session s i = Some (ev, pc) \<Longrightarrow> \<forall>r. pc \<noteq> Finished r \<Longrightarrow>
     admission_step st s (unlocks i (moves i ev (Finished Errored) s))"
| other: "\<not> is_accept x \<Longrightarrow>
     admission_step st s (s\<lparr>sh_db := apply_op st x (sh_db s), sh_history := sh_history s @ [x]\<rparr>)"

inductive_cases admission_stepE: "admission_step st s t"

definition admission_start :: shared where
  "admission_start = \<lparr>sh_db = empty_db, sh_lock = None, sh_session = \<lambda>i. None, sh_history = []\<rparr>"

section \<open>The invariant\<close>

text \<open>
  What is committed is what the history does in sequence; an uncommitted row's key is unused and
  held once; the lock's holder is the one session past it; whoever counted still has room; what
  was acknowledged is stored, and no two sessions created the same event.
\<close>

definition acknowledged :: "shared \<Rightarrow> nat \<Rightarrow> bool" where
  "acknowledged s i \<longleftrightarrow> (\<forall>ev e. sh_session s i = Some (ev, Finished (Accepted e)) \<longrightarrow>
     (\<exists>e'. stored (sh_db s) (EventID (Input ev)) = Some e' \<and> frozen e' = frozen e)) \<and>
   (\<forall>ev. sh_session s i = Some (ev, Duplicate) \<longrightarrow> (\<exists>e. stored (sh_db s) (EventID (Input ev)) = Some e))"

definition created :: "shared \<Rightarrow> nat \<Rightarrow> bool" where
  "created s i \<longleftrightarrow> (\<exists>ev e. sh_session s i = Some (ev, Finished (Accepted e)))"

definition checked :: "shared \<Rightarrow> nat \<Rightarrow> bool" where
  "checked s i = (case sh_session s i of Some (ev, pc) \<Rightarrow> usage_check (usage_row_of ev 0) | None \<Rightarrow> True)"

definition admission_ok :: "store \<Rightarrow> shared \<Rightarrow> bool" where
  "admission_ok st s \<longleftrightarrow> sh_db s = run_ops st (sh_history s) empty_db \<and> within_limit st (sh_db s) \<and>
     (\<forall>i. 0 < phase_of s i \<longrightarrow> checked s i \<and> key_of s i \<notin> set (usage_ids (sh_db s))) \<and>
     (\<forall>i j. 0 < phase_of s i \<and> 0 < phase_of s j \<and> key_of s i = key_of s j \<longrightarrow> i = j) \<and>
     (\<forall>i. sh_lock s = Some i \<longleftrightarrow> 2 \<le> phase_of s i) \<and>
     (\<forall>i. phase_of s i = 3 \<longrightarrow> \<not> queue_full st (sh_db s)) \<and>
     (\<forall>i. acknowledged s i) \<and>
     (\<forall>i j. created s i \<and> created s j \<and> key_of s i = key_of s j \<longrightarrow> i = j)"

lemma moves_simps [simp]:
  "sh_db (moves i ev pc s) = sh_db s" "sh_lock (moves i ev pc s) = sh_lock s" "sh_history (moves i ev pc s) = sh_history s"
  "sh_db (unlocks i s) = sh_db s" "sh_history (unlocks i s) = sh_history s" "sh_session (unlocks i s) = sh_session s"
  "sh_session (moves i ev pc s) = (sh_session s)(i \<mapsto> (ev, pc))"
  "sh_lock (unlocks i s) = (if sh_lock s = Some i then None else sh_lock s)"
  by (simp_all add: moves_def unlocks_def)

lemma moves_lock [simp]: "(moves i ev pc s)\<lparr>sh_lock := sh_lock s\<rparr> = moves i ev pc s"
  by (cases s) (simp add: moves_def)

lemma of_session [simp]:
  "phase_of (s\<lparr>sh_db := d\<rparr>) i = phase_of s i" "phase_of (s\<lparr>sh_history := h\<rparr>) i = phase_of s i"
  "phase_of (s\<lparr>sh_lock := l\<rparr>) i = phase_of s i" "phase_of (unlocks j s) i = phase_of s i"
  "key_of (s\<lparr>sh_db := d\<rparr>) i = key_of s i" "key_of (s\<lparr>sh_history := h\<rparr>) i = key_of s i"
  "key_of (s\<lparr>sh_lock := l\<rparr>) i = key_of s i" "key_of (unlocks j s) i = key_of s i"
  "checked (s\<lparr>sh_db := d\<rparr>) i = checked s i" "checked (s\<lparr>sh_history := h\<rparr>) i = checked s i"
  "checked (s\<lparr>sh_lock := l\<rparr>) i = checked s i" "checked (unlocks j s) i = checked s i"
  "acknowledged (s\<lparr>sh_lock := l\<rparr>) i = acknowledged s i" "acknowledged (unlocks j s) i = acknowledged s i"
  "acknowledged (s\<lparr>sh_history := h\<rparr>) i = acknowledged s i"
  by (simp_all add: phase_of_def key_of_def checked_def acknowledged_def)

lemma phase_of_moves [simp]:
  "phase_of (moves i ev pc s) j = (if j = i then admission_phase pc else phase_of s j)"
  "key_of (moves i ev pc s) j = (if j = i then EventID (Input ev) else key_of s j)"
  "checked (moves i ev pc s) j = (if j = i then usage_check (usage_row_of ev 0) else checked s j)"
  by (simp_all add: phase_of_def key_of_def checked_def)

lemma session_of:
  "sh_session s i = Some (ev, pc) \<Longrightarrow> phase_of s i = admission_phase pc \<and> key_of s i = EventID (Input ev) \<and>
    checked s i = usage_check (usage_row_of ev 0)"
  by (simp add: phase_of_def key_of_def checked_def)

lemma acknowledged_moves:
  "(\<And>e. pc \<noteq> Finished (Accepted e)) \<Longrightarrow>
   (pc = Duplicate \<Longrightarrow> \<exists>e. stored (sh_db s) (EventID (Input ev)) = Some e) \<Longrightarrow>
   acknowledged s j \<Longrightarrow> acknowledged (moves i ev pc s) j"
  by (simp add: acknowledged_def)

lemma admission_okD:
  assumes "admission_ok st s"
  shows "sh_db s = run_ops st (sh_history s) empty_db" "within_limit st (sh_db s)" "store_inv (sh_db s)"
    "\<And>i. 0 < phase_of s i \<Longrightarrow> checked s i \<and> key_of s i \<notin> set (usage_ids (sh_db s))"
    "\<And>i j. 0 < phase_of s i \<Longrightarrow> 0 < phase_of s j \<Longrightarrow> key_of s i = key_of s j \<Longrightarrow> i = j"
    "\<And>i. sh_lock s = Some i \<longleftrightarrow> 2 \<le> phase_of s i"
    "\<And>i. phase_of s i = 3 \<Longrightarrow> \<not> queue_full st (sh_db s)" "\<And>i. acknowledged s i"
    "\<And>i j. created s i \<Longrightarrow> created s j \<Longrightarrow> key_of s i = key_of s j \<Longrightarrow> i = j"
proof -
  note p = assms [unfolded admission_ok_def]
  note key = p [THEN conjunct2, THEN conjunct2]
  note once = key [THEN conjunct2]
  note lock = once [THEN conjunct2]
  note room = lock [THEN conjunct2]
  note ack = room [THEN conjunct2]
  note c = p [THEN conjunct1] p [THEN conjunct2, THEN conjunct1]
  show "sh_db s = run_ops st (sh_history s) empty_db" "within_limit st (sh_db s)" by (fact c)+
  show "store_inv (sh_db s)" using c(2) unfolding within_limit_def by (rule conjunct1)
  show "\<And>i. 0 < phase_of s i \<Longrightarrow> checked s i \<and> key_of s i \<notin> set (usage_ids (sh_db s))" using key [THEN conjunct1] by blast
  show "\<And>i j. 0 < phase_of s i \<Longrightarrow> 0 < phase_of s j \<Longrightarrow> key_of s i = key_of s j \<Longrightarrow> i = j" using once [THEN conjunct1] by blast
  show "\<And>i. sh_lock s = Some i \<longleftrightarrow> 2 \<le> phase_of s i" using lock [THEN conjunct1] by blast
  show "\<And>i. phase_of s i = 3 \<Longrightarrow> \<not> queue_full st (sh_db s)" using room [THEN conjunct1] by blast
  show "\<And>i. acknowledged s i" using ack [THEN conjunct1] by blast
  show "\<And>i j. created s i \<Longrightarrow> created s j \<Longrightarrow> key_of s i = key_of s j \<Longrightarrow> i = j" using ack [THEN conjunct2] by blast
qed

lemma admission_okI:
  assumes "sh_db s = run_ops st (sh_history s) empty_db" and "within_limit st (sh_db s)"
    and "\<And>i. 0 < phase_of s i \<Longrightarrow> checked s i \<and> key_of s i \<notin> set (usage_ids (sh_db s))"
    and "\<And>i j. 0 < phase_of s i \<Longrightarrow> 0 < phase_of s j \<Longrightarrow> key_of s i = key_of s j \<Longrightarrow> i = j"
    and "\<And>i. sh_lock s = Some i \<longleftrightarrow> 2 \<le> phase_of s i"
    and "\<And>i. phase_of s i = 3 \<Longrightarrow> \<not> queue_full st (sh_db s)" and "\<And>i. acknowledged s i"
    and "\<And>i j. created s i \<Longrightarrow> created s j \<Longrightarrow> key_of s i = key_of s j \<Longrightarrow> i = j"
  shows "admission_ok st s"
proof -
  have key: "\<forall>i. 0 < phase_of s i \<longrightarrow> checked s i \<and> key_of s i \<notin> set (usage_ids (sh_db s))"
    using assms(3) by blast
  have once: "\<forall>i j. 0 < phase_of s i \<and> 0 < phase_of s j \<and> key_of s i = key_of s j \<longrightarrow> i = j"
    using assms(4) by blast
  have lock: "\<forall>i. sh_lock s = Some i \<longleftrightarrow> 2 \<le> phase_of s i" using assms(5) by blast
  have room: "\<forall>i. phase_of s i = 3 \<longrightarrow> \<not> queue_full st (sh_db s)" using assms(6) by blast
  have ack: "\<forall>i. acknowledged s i" using assms(7) by blast
  have made: "\<forall>i j. created s i \<and> created s j \<and> key_of s i = key_of s j \<longrightarrow> i = j" using assms(8) by blast
  show ?thesis unfolding admission_ok_def
    by (rule conjI [OF assms(1) conjI [OF assms(2) conjI [OF key conjI [OF once conjI [OF lock conjI [OF room conjI [OF ack made]]]]]]])
qed

text \<open>A step that commits nothing.\<close>

lemma admission_ok_move:
  assumes ok: "admission_ok st s" and plain: "\<And>e. pc \<noteq> Finished (Accepted e)"
    and seen: "pc = Duplicate \<Longrightarrow> \<exists>e. stored (sh_db s) (EventID (Input ev)) = Some e"
    and key: "0 < admission_phase pc \<Longrightarrow> usage_check (usage_row_of ev 0) \<and> EventID (Input ev) \<notin> set (usage_ids (sh_db s)) \<and>
      (\<forall>j. j \<noteq> i \<longrightarrow> 0 < phase_of s j \<longrightarrow> key_of s j \<noteq> EventID (Input ev))"
    and lock: "\<And>j. l = Some j \<longleftrightarrow> 2 \<le> (if j = i then admission_phase pc else phase_of s j)"
    and room: "admission_phase pc = 3 \<Longrightarrow> \<not> queue_full st (sh_db s)"
  shows "admission_ok st ((moves i ev pc s)\<lparr>sh_lock := l\<rparr>)"
proof -
  let ?t = "(moves i ev pc s)\<lparr>sh_lock := l\<rparr>"
  note D = admission_okD [OF ok]
  show ?thesis
  proof (rule admission_okI)
    show "checked ?t j \<and> key_of ?t j \<notin> set (usage_ids (sh_db ?t))" if "0 < phase_of ?t j" for j
      using that key D(4) [of j] by (auto split: if_splits)
    show "j = k" if "0 < phase_of ?t j" "0 < phase_of ?t k" "key_of ?t j = key_of ?t k" for j k
      using that key D(5) [of j k] by (auto split: if_splits)
    show "sh_lock ?t = Some j \<longleftrightarrow> 2 \<le> phase_of ?t j" for j using lock [of j] by simp
    show "\<not> queue_full st (sh_db ?t)" if "phase_of ?t j = 3" for j
      using that room D(7) [of j] by (auto split: if_splits)
    show "acknowledged ?t j" for j
      using acknowledged_moves [OF plain seen D(8)] by simp
    have made: "created ?t j \<longleftrightarrow> j \<noteq> i \<and> created s j" for j using plain by (auto simp: created_def)
    show "j = k" if "created ?t j" "created ?t k" "key_of ?t j = key_of ?t k" for j k
      using that D(9) [of j k] made by simp
  qed (use D(1,2) in simp_all)
qed

lemma commit_env_healthy [simp]: "healthy (commit_env now1 now2)"
  by (simp add: healthy_def commit_env_def)

lemma apply_op_admits:
  assumes "store_inv d" and "EventID (Input ev) \<notin> set (usage_ids d)" and "\<not> queue_full st d" and "usage_check (usage_row_of ev 0)"
  shows "apply_op st (OpAccept (commit_env now1 now2) ev) d = admitted ev now1 now2 d"
proof -
  have "stored d (EventID (Input ev)) = None" using assms(2) by (simp add: stored_None)
  with store_Accept_healthy [OF commit_env_healthy assms(1,4), of st now1 now2] assms(3) show ?thesis
    by (simp add: commit_env_def)
qed

lemma run_ops_snoc: "run_ops st (ops @ [x]) d = apply_op st x (run_ops st ops d)"
  by (simp add: run_ops_def)

text \<open>The COMMIT of an admission is a sequential \<open>Accept\<close> of the committed tables.\<close>

lemma admission_ok_commit:
  assumes ok: "admission_ok st s" and pc: "sh_session s i = Some (ev, Enqueued now1 now2)"
    and out: "out = Accepted (fresh_event ev now1) \<or> out = Errored"
  shows "admission_ok st (commits_admission i ev now1 now2 out s)"
proof -
  let ?t = "commits_admission i ev now1 now2 out s"
  let ?d = "sh_db s" and ?k = "EventID (Input ev)" and ?x = "OpAccept (commit_env now1 now2) ev"
  note D = admission_okD [OF ok]
  have i: "phase_of s i = 3" "key_of s i = ?k" "usage_check (usage_row_of ev 0)"
    using session_of [OF pc] D(4) [of i] by auto
  then have new: "?k \<notin> set (usage_ids ?d)" and room: "\<not> queue_full st ?d" using D(4,7) [of i] by auto
  have app: "apply_op st ?x ?d = admitted ev now1 now2 ?d"
    by (rule apply_op_admits [OF D(3) new room i(3)])
  have t: "sh_db ?t = admitted ev now1 now2 ?d" "sh_history ?t = sh_history s @ [?x]"
    "sh_lock ?t = (if sh_lock s = Some i then None else sh_lock s)"
    "\<And>j. phase_of ?t j = (if j = i then 0 else phase_of s j)" "\<And>j. key_of ?t j = key_of s j"
    "\<And>j. checked ?t j = checked s j"
    using session_of [OF pc] by (simp_all add: commits_admission_def)
  have lock: "sh_lock s = Some i" using D(6) [of i] i(1) by simp
  then have only: "phase_of s j < 2" if "j \<noteq> i" for j using D(6) [of j] that by force
  have usage: "usage_ids (admitted ev now1 now2 ?d) = usage_ids ?d @ [?k]" by (simp add: admitted_def)
  note stored = stored_admitted [OF D(3) new, of now1 now2]
  have none: "stored ?d ?k = None" using new by (simp add: stored_None)
  show ?thesis
  proof (rule admission_okI)
    show "acknowledged ?t j" for j
    proof (cases "j = i")
      case True
      with out stored show ?thesis by (auto simp: commits_admission_def acknowledged_def)
    next
      case False
      have sess: "sh_session ?t j = sh_session s j" using False by (simp add: commits_admission_def)
      have "\<exists>e'. stored (sh_db ?t) k = Some e' \<and> frozen e' = frozen e"
        if "\<exists>e'. stored ?d k = Some e' \<and> frozen e' = frozen e" for k e
        using that stored none t(1) by auto
      moreover have "\<exists>e. stored (sh_db ?t) k = Some e" if "\<exists>e. stored ?d k = Some e" for k
        using that stored t(1) by auto
      ultimately show ?thesis using D(8) [of j] unfolding acknowledged_def sess by blast
    qed
    show "sh_db ?t = run_ops st (sh_history ?t) empty_db" by (simp only: t(1,2) run_ops_snoc D(1) [symmetric] app)
    show "within_limit st (sh_db ?t)" unfolding t(1) app [symmetric] by (rule apply_op_within_limit [OF D(2)])
    show "checked ?t j \<and> key_of ?t j \<notin> set (usage_ids (sh_db ?t))" if "0 < phase_of ?t j" for j
    proof -
      from that have j: "j \<noteq> i" "0 < phase_of s j" by (simp_all add: t(4) split: if_splits)
      with D(5) [of i j] i(1,2) have "key_of s j \<noteq> ?k" by auto
      then show ?thesis using D(4) [OF j(2)] by (simp only: t(1,5,6) usage set_append) simp
    qed
    show "j = k" if "0 < phase_of ?t j" "0 < phase_of ?t k" "key_of ?t j = key_of ?t k" for j k
      using that D(5) [of j k] unfolding t by (auto split: if_splits)
    show "sh_lock ?t = Some j \<longleftrightarrow> 2 \<le> phase_of ?t j" for j
      using lock only [of j] unfolding t by auto
    show "\<not> queue_full st (sh_db ?t)" if "phase_of ?t j = 3" for j
      using that only [of j] unfolding t by (auto split: if_splits)
    have other: "created s j \<and> key_of s j \<noteq> ?k" if "created ?t j" "j \<noteq> i" for j
    proof -
      from that have c: "created s j" by (simp add: created_def commits_admission_def)
      then obtain ev' e' where sess: "sh_session s j = Some (ev', Finished (Accepted e'))" by (auto simp: created_def)
      with D(8) [of j] have "stored ?d (EventID (Input ev')) \<noteq> None" unfolding acknowledged_def by auto
      then have "key_of s j \<noteq> ?k" using none session_of [OF sess] by auto
      with c show ?thesis by simp
    qed
    show "j = k" if "created ?t j" "created ?t k" "key_of ?t j = key_of ?t k" for j k
      using that(3) other [OF that(1)] other [OF that(2)] D(9) [of j k] i(2) unfolding t(5) by metis
  qed
qed

text \<open>A batch or a retry: no usage row appears, the queue does not grow.\<close>

lemma other_op:
  assumes inv: "store_inv d" and x: "\<not> is_accept x"
  shows "usage_events (apply_op st x d) = usage_events d \<and>
    length (pending_events (apply_op st x d)) \<le> length (pending_events d)"
proof (cases x)
  case (OpProcess env limit)
  obtain err res d' where run: "ProcessBatchWithResults env limit d = (err, res, d')" by (metis prod_cases3)
  have settled: "usage_events d' = usage_events d \<and> length (pending_events d') \<le> length (pending_events d)"
    if "batch_done env limit d viol n evs d'" for viol n evs
  proof -
    from that have ids: "pending_ids d' = filter (\<lambda>i. \<not> (i \<in> set (claimed_ids env limit d) \<and> viol i = None)) (pending_ids d)"
      and usage: "usage_events d' = usage_events d" by (simp_all add: batch_done_def batch_inv_def)
    have "length (pending_ids d') \<le> length (pending_ids d)" unfolding ids by (rule length_filter_le)
    with usage show ?thesis by simp
  qed
  from run inv have "usage_events d' = usage_events d \<and> length (pending_events d') \<le> length (pending_events d)"
    by (cases rule: ProcessBatch_cases) (use settled in auto)
  with OpProcess run show ?thesis by simp
next
  case (OpRetry env i g)
  obtain r d' where run: "store_Retry env i g d = (r, d')" by fastforce
  from run inv have "usage_events d' = usage_events d \<and> length (pending_events d') \<le> length (pending_events d)"
    by (cases rule: store_Retry_cases) (auto simp: reactivated_def)
  with OpRetry run show ?thesis by simp
qed (use x in simp)

lemma admission_ok_other:
  assumes ok: "admission_ok st s" and x: "\<not> is_accept x"
  shows "admission_ok st (s\<lparr>sh_db := apply_op st x (sh_db s), sh_history := sh_history s @ [x]\<rparr>)"
proof -
  let ?t = "s\<lparr>sh_db := apply_op st x (sh_db s), sh_history := sh_history s @ [x]\<rparr>"
  note D = admission_okD [OF ok]
  from other_op [OF D(3) x, of st] have usage: "usage_ids (sh_db ?t) = usage_ids (sh_db s)"
    and room: "\<not> queue_full st (sh_db s) \<Longrightarrow> \<not> queue_full st (sh_db ?t)" by (auto simp: queue_full_def)
  have kept: "\<exists>e'. stored (sh_db ?t) k = Some e' \<and> frozen e' = frozen e"
    if old: "stored (sh_db s) k = Some e0" "frozen e0 = frozen e" for k e0 e
  proof -
    from apply_op_refines [OF D(3), of st x] old(1) obtain e1 where
      "stored (sh_db ?t) k = Some e1" "event_step\<^sup>=\<^sup>= e0 e1" by (auto simp: refines_def)
    with event_step_frozen old(2) show ?thesis by auto
  qed
  show ?thesis
  proof (rule admission_okI)
    show "acknowledged ?t j" for j
    proof -
      have sess: "sh_session ?t j = sh_session s j" by simp
      show ?thesis using D(8) [of j] kept unfolding acknowledged_def sess by blast
    qed
    show "sh_db ?t = run_ops st (sh_history ?t) empty_db" using D(1) by (simp add: run_ops_snoc)
    show "within_limit st (sh_db ?t)" using apply_op_within_limit [OF D(2), of x] by simp
    show "checked ?t j \<and> key_of ?t j \<notin> set (usage_ids (sh_db ?t))" if "0 < phase_of ?t j" for j
      using that D(4) [of j] usage by simp
    show "j = k" if "0 < phase_of ?t j" "0 < phase_of ?t k" "key_of ?t j = key_of ?t k" for j k
      using that D(5) [of j k] by simp
    show "sh_lock ?t = Some j \<longleftrightarrow> 2 \<le> phase_of ?t j" for j using D(6) [of j] by simp
    show "\<not> queue_full st (sh_db ?t)" if "phase_of ?t j = 3" for j using that D(7) [of j] room by simp
    show "j = k" if "created ?t j" "created ?t k" "key_of ?t j = key_of ?t k" for j k
      using that D(9) [of j k] by (simp add: created_def)
  qed
qed

lemma admission_step_ok:
  assumes ok: "admission_ok st s" and "admission_step st s t"
  shows "admission_ok st t"
proof -
  note D = admission_okD [OF ok]
  have same: "admission_ok st (moves i ev pc s)"
    if "sh_session s i = Some (ev0, old)" "\<And>e. pc \<noteq> Finished (Accepted e)"
      "pc = Duplicate \<Longrightarrow> \<exists>e. stored (sh_db s) (EventID (Input ev)) = Some e" "2 \<le> admission_phase pc \<longleftrightarrow> 2 \<le> admission_phase old"
      "0 < admission_phase pc \<Longrightarrow> usage_check (usage_row_of ev 0) \<and> EventID (Input ev) \<notin> set (usage_ids (sh_db s)) \<and>
        (\<forall>j. j \<noteq> i \<longrightarrow> 0 < phase_of s j \<longrightarrow> key_of s j \<noteq> EventID (Input ev))"
      "admission_phase pc = 3 \<Longrightarrow> \<not> queue_full st (sh_db s)" for i ev ev0 pc old
  proof -
    have "admission_ok st ((moves i ev pc s)\<lparr>sh_lock := sh_lock s\<rparr>)"
    proof (rule admission_ok_move [OF ok that(2,3,5)])
      show "sh_lock s = Some j \<longleftrightarrow> 2 \<le> (if j = i then admission_phase pc else phase_of s j)" for j
        using D(6) [of j] session_of [OF that(1)] that(4) by simp
    qed (assumption | rule that(6))+
    then show ?thesis by simp
  qed
  have held: "usage_check (usage_row_of ev 0) \<and> EventID (Input ev) \<notin> set (usage_ids (sh_db s)) \<and>
      (\<forall>j. j \<noteq> i \<longrightarrow> 0 < phase_of s j \<longrightarrow> key_of s j \<noteq> EventID (Input ev))"
    if "sh_session s i = Some (ev, pc)" "0 < admission_phase pc" for i ev pc
    using session_of [OF that(1)] that(2) D(4) [of i] D(5) [of _ i] by auto
  have ends: "admission_ok st (unlocks i (moves i ev (Finished r) s))"
    if "sh_session s i = Some (ev, pc)" "\<And>e. r \<noteq> Accepted e" for i ev pc r
  proof -
    have "unlocks i (moves i ev (Finished r) s) =
        (moves i ev (Finished r) s)\<lparr>sh_lock := (if sh_lock s = Some i then None else sh_lock s)\<rparr>"
      by (simp add: unlocks_def)
    also have "admission_ok st \<dots>"
    proof (rule admission_ok_move [OF ok])
      show "(if sh_lock s = Some i then None else sh_lock s) = Some j \<longleftrightarrow>
          2 \<le> (if j = i then admission_phase (Finished r) else phase_of s j)" for j
        using D(6) [of i] D(6) [of j] by auto
    qed (use that(2) in auto)
    finally show ?thesis .
  qed
  from assms(2) show ?thesis
  proof cases
    case (begins i ev)
    have "admission_ok st ((moves i ev Begun s)\<lparr>sh_lock := sh_lock s\<rparr>)"
      by (rule admission_ok_move [OF ok]) (use D(6) begins(2) in \<open>auto simp: phase_of_def\<close>)
    with begins show ?thesis by simp
  next
    case (rejected i ev)
    from same [OF rejected(2), of "Finished Errored"] rejected(1) show ?thesis by simp
  next
    case (inserts i ev now1)
    have "\<forall>j. j \<noteq> i \<longrightarrow> 0 < phase_of s j \<longrightarrow> key_of s j \<noteq> EventID (Input ev)"
      using inserts(5) unfolding holds_key_def by blast
    with same [OF inserts(2), of "Inserted now1" ev] inserts show ?thesis by simp
  next
    case (finds i ev)
    have "\<exists>e. stored (sh_db s) (EventID (Input ev)) = Some e"
      using finds(4) by (metis not_Some_eq stored_None)
    with same [OF finds(2), of Duplicate ev] finds(1) show ?thesis by simp
  next
    case (reads i ev e)
    from same [OF reads(2), of "Finished (if Input e = Input ev then Replayed e else Conflicted)"] reads(1) show ?thesis by simp
  next
    case (locks i ev now1)
    have "admission_ok st ((moves i ev (Locked now1) s)\<lparr>sh_lock := Some i\<rparr>)"
    proof (rule admission_ok_move [OF ok])
      show "Some i = Some j \<longleftrightarrow> 2 \<le> (if j = i then admission_phase (Locked now1) else phase_of s j)" for j
        using D(6) [of j] locks(3) by auto
    qed (use held [OF locks(2)] in auto)
    with locks(1) show ?thesis by simp
  next
    case (counts i ev now1)
    from same [OF counts(2), of "Counted now1"] held [OF counts(2)] counts show ?thesis by simp
  next
    case (refuses i ev now1)
    from ends [OF refuses(2), of Refused] refuses(1) show ?thesis by simp
  next
    case (enqueues i ev now1 now2)
    from same [OF enqueues(2), of "Enqueued now1 now2"] held [OF enqueues(2)] D(7) [of i] session_of [OF enqueues(2)]
      enqueues(1) show ?thesis by simp
  next
    case (commits i ev now1 now2)
    with admission_ok_commit [OF ok commits(2)] show ?thesis by simp
  next
    case (commit_unanswered i ev now1 now2)
    with admission_ok_commit [OF ok commit_unanswered(2)] show ?thesis by simp
  next
    case (fails i ev pc)
    from ends [OF fails(2), of Errored] fails(1) show ?thesis by simp
  next
    case (other x)
    with admission_ok_other [OF ok other(2)] show ?thesis by simp
  qed
qed

interpretation admission: step_invariant "admission_step st" "admission_ok st" for st
  by unfold_locales (rule admission_step_ok)

lemma admission_start_ok: "0 \<le> sint (maxPending st) \<Longrightarrow> admission_ok st admission_start"
proof -
  assume limit: "0 \<le> sint (maxPending st)"
  have "length (pending_events empty_db) = 0" by (simp add: empty_db_def)
  with limit have "within_limit st empty_db" by (simp add: within_limit_def)
  then show ?thesis
    by (simp add: admission_ok_def admission_start_def phase_of_def acknowledged_def created_def run_ops_def)
qed

section \<open>No deadlock\<close>

text \<open>While a session is under way, one of them can take its next statement, and not by failing.\<close>

definition under_way :: "shared \<Rightarrow> nat \<Rightarrow> bool" where
  "under_way s i \<longleftrightarrow> (\<exists>ev pc. sh_session s i = Some (ev, pc) \<and> (\<forall>r. pc \<noteq> Finished r))"

definition proceeds :: "store \<Rightarrow> shared \<Rightarrow> nat \<Rightarrow> bool" where
  "proceeds st s i \<longleftrightarrow> (\<exists>ev pc t pc'. sh_session s i = Some (ev, pc) \<and> admission_step st s t \<and>
     sh_session t i = Some (ev, pc') \<and> pc' \<noteq> pc \<and> (pc' = Finished Errored \<longrightarrow> \<not> usage_check (usage_row_of ev 0)))"

lemma proceedsI:
  "sh_session s i = Some (ev, pc) \<Longrightarrow> admission_step st s t \<Longrightarrow> sh_session t i = Some (ev, pc') \<Longrightarrow> pc' \<noteq> pc \<Longrightarrow>
   pc' \<noteq> Finished Errored \<or> \<not> usage_check (usage_row_of ev 0) \<Longrightarrow> proceeds st s i"
  unfolding proceeds_def by blast

lemma holder_proceeds:
  assumes "2 \<le> phase_of s j"
  shows "proceeds st s j"
proof -
  from assms obtain ev pc where j: "sh_session s j = Some (ev, pc)" and ph: "2 \<le> admission_phase pc"
    by (auto simp: phase_of_def split: option.splits)
  show ?thesis
  proof (cases pc)
    case (Locked now1)
    show ?thesis
    proof (cases "queue_full st (sh_db s)")
      case True
      from proceedsI [OF j refuses [OF j [unfolded Locked] True]] Locked show ?thesis by simp
    next
      case False
      from proceedsI [OF j counts [OF j [unfolded Locked] False]] Locked show ?thesis by simp
    qed
  next
    case (Counted now1)
    from proceedsI [OF j enqueues [OF j [unfolded Counted], of st now1]] Counted show ?thesis by simp
  next
    case (Enqueued now1 now2)
    from proceedsI [OF j commits [OF j [unfolded Enqueued], of st]] Enqueued show ?thesis by (simp add: commits_admission_def)
  qed (use ph in simp_all)
qed

lemma admission_proceeds:
  assumes ok: "admission_ok st s" and i: "under_way s i"
  shows "\<exists>j. proceeds st s j"
proof (cases "\<exists>j. 2 \<le> phase_of s j")
  case True
  with holder_proceeds show ?thesis by blast
next
  case free: False
  note D = admission_okD [OF ok]
  have lock: "sh_lock s = None" using D(6) free by (metis not_Some_eq)
  show ?thesis
  proof (cases "\<exists>j. 0 < phase_of s j")
    case True
    then obtain j where j: "phase_of s j = 1" using free by (metis One_nat_def Suc_leI le_neq_implies_less not_less_eq_eq numeral_2_eq_2)
    then obtain ev pc where sess: "sh_session s j = Some (ev, pc)" and "admission_phase pc = 1"
      by (auto simp: phase_of_def split: option.splits)
    then obtain now1 where pc: "pc = Inserted now1" by (cases pc) simp_all
    from proceedsI [OF sess locks [OF sess [unfolded pc] lock]] pc show ?thesis by auto
  next
    case none: False
    from i obtain ev pc where sess: "sh_session s i = Some (ev, pc)" and active: "\<forall>r. pc \<noteq> Finished r"
      by (auto simp: under_way_def)
    with none have "admission_phase pc = 0" by (metis gr0I session_of)
    with active consider (begun) "pc = Begun" | (dup) "pc = Duplicate" by (cases pc) auto
    then show ?thesis
    proof cases
      case begun
      note b = sess [unfolded begun]
      consider "\<not> usage_check (usage_row_of ev 0)"
        | "usage_check (usage_row_of ev 0)" "EventID (Input ev) \<in> set (usage_ids (sh_db s))"
        | "usage_check (usage_row_of ev 0)" "EventID (Input ev) \<notin> set (usage_ids (sh_db s))" by blast
      then show ?thesis
      proof cases
        case 1
        from proceedsI [OF sess rejected [OF b 1, of st]] begun 1 show ?thesis by auto
      next
        case 2
        from proceedsI [OF sess finds [OF b 2, of st]] begun show ?thesis by auto
      next
        case 3
        have "\<forall>j. \<not> holds_key s j (EventID (Input ev))" using none by (simp add: holds_key_def)
        from proceedsI [OF sess inserts [OF b 3 this, of st 0]] begun show ?thesis by auto
      qed
    next
      case dup
      note b = sess [unfolded dup]
      from D(8) [of i] b obtain e where e: "stored (sh_db s) (EventID (Input ev)) = Some e"
        unfolding acknowledged_def by blast
      from proceedsI [OF sess reads [OF b e, of st]] dup show ?thesis by (cases "Input e = Input ev") auto
    qed
  qed
qed

end
