(* ===== verification/Admission_Properties.thy ===== *)
theory Admission_Properties
  imports Admission Samples
begin

text \<open>
  The properties of concurrent admissions, with a run of two sessions that post the same event.
\<close>

section \<open>A run\<close>

text \<open>
  Session 0 inserts the event, session 1 begins with the same one and has to wait; session 0 is
  admitted and commits; session 1 then finds the row.
\<close>

definition sample_store :: store where
  "sample_store = \<lparr>maxPending = 1\<rparr>"

definition first_inserted :: shared where
  "first_inserted = moves 1 (sample_event ''e1'') Begun (moves 0 (sample_event ''e1'') (Inserted 5)
     (moves 0 (sample_event ''e1'') Begun admission_start))"

definition first_enqueued :: shared where
  "first_enqueued = moves 0 (sample_event ''e1'') (Enqueued 5 6) (moves 0 (sample_event ''e1'') (Counted 5)
     ((moves 0 (sample_event ''e1'') (Locked 5) first_inserted)\<lparr>sh_lock := Some 0\<rparr>))"

definition first_committed :: shared where
  "first_committed = commits_admission 0 (sample_event ''e1'') 5 6 (Accepted (fresh_event (sample_event ''e1'') 5)) first_enqueued"

lemma sample_check: "usage_check (usage_row_of (sample_event ''e1'') 0)"
  by code_simp

lemma first_inserted_reached: "(admission_step sample_store)\<^sup>*\<^sup>* admission_start first_inserted"
proof -
  let ?ev = "sample_event ''e1''"
  let ?s1 = "moves 0 ?ev Begun admission_start"
  let ?s2 = "moves 0 ?ev (Inserted 5) ?s1"
  have "admission_step sample_store admission_start ?s1" by (rule begins) (simp add: admission_start_def)
  moreover have "admission_step sample_store ?s1 ?s2"
    by (rule inserts) (simp_all add: sample_check admission_start_def empty_db_def holds_key_def phase_of_def)
  moreover have "admission_step sample_store ?s2 first_inserted"
    unfolding first_inserted_def by (rule begins) (simp add: admission_start_def)
  ultimately show ?thesis by (meson rtranclp.rtrancl_into_rtrancl rtranclp.rtrancl_refl)
qed

lemma first_enqueued_reached: "(admission_step sample_store)\<^sup>*\<^sup>* admission_start first_enqueued"
proof -
  let ?ev = "sample_event ''e1''"
  let ?s4 = "(moves 0 ?ev (Locked 5) first_inserted)\<lparr>sh_lock := Some 0\<rparr>"
  let ?s5 = "moves 0 ?ev (Counted 5) ?s4"
  have "admission_step sample_store first_inserted ?s4"
    by (rule locks) (simp_all add: first_inserted_def admission_start_def)
  moreover have "admission_step sample_store ?s4 ?s5"
    by (rule counts) (simp_all add: first_inserted_def admission_start_def empty_db_def queue_full_def sample_store_def)
  moreover have "admission_step sample_store ?s5 first_enqueued" unfolding first_enqueued_def by (rule enqueues) simp
  ultimately have "(admission_step sample_store)\<^sup>*\<^sup>* first_inserted first_enqueued"
    by (meson rtranclp.rtrancl_into_rtrancl rtranclp.rtrancl_refl)
  with first_inserted_reached show ?thesis by (rule rtranclp_trans)
qed

lemma first_commits: "admission_step sample_store first_enqueued first_committed"
  unfolding first_committed_def by (rule commits) (simp add: first_enqueued_def)

lemma first_committed_reached: "(admission_step sample_store)\<^sup>*\<^sup>* admission_start first_committed"
  using first_enqueued_reached first_commits by (rule rtranclp.rtrancl_into_rtrancl)

section \<open>Properties\<close>

text \<open>
  Concurrent admissions serialize: with any number of sessions interleaved statement by
  statement, and batches and retries between them, the committed tables are those of the
  committed operations one after another in the order of their commits; so the store's invariant
  holds, the queue never exceeds the limit, whatever an \<open>Accept\<close> acknowledged is stored with its
  frozen part, and no event is created by two sessions.
\<close>

lemma admissions_serialize:
  assumes "NewWithQueueLimit False limit = Inr st" and "(admission_step st)\<^sup>*\<^sup>* admission_start s"
  shows "sh_db s = run_ops st (sh_history s) empty_db \<and> store_inv (sh_db s) \<and>
    int (length (pending_events (sh_db s))) \<le> sint limit \<and>
    (\<forall>i ev e. sh_session s i = Some (ev, Finished (Accepted e)) \<longrightarrow>
       (\<exists>e'. stored (sh_db s) (EventID (Input ev)) = Some e' \<and> frozen e' = frozen e)) \<and>
    (\<forall>i j. created s i \<and> created s j \<and> key_of s i = key_of s j \<longrightarrow> i = j)"
proof -
  from assms(1) have limit: "maxPending st = limit" "1 \<le> sint limit"
    by (auto simp: NewWithQueueLimit_def split: if_splits)
  then have "admission_ok st admission_start" by (intro admission_start_ok) simp
  note D = admission_okD [OF admission.reachable_inv [OF assms(2) this]]
  have "int (length (pending_events (sh_db s))) \<le> sint limit"
    using D(2) limit(1) by (simp add: within_limit_def)
  with D(1,3,8,9) show ?thesis unfolding acknowledged_def by blast
qed

text \<open>
  C27. Concurrent admissions do not deadlock: whenever a session is under way, some session can
  take its next statement, and other than by failing. Nobody waits for a row and the advisory
  lock in a circle.
\<close>

theorem admissions_never_deadlock:
  assumes "NewWithQueueLimit False limit = Inr st" and "(admission_step st)\<^sup>*\<^sup>* admission_start s"
    and "under_way s i"
  shows "\<exists>j. proceeds st s j"
proof -
  from assms(1) have "0 \<le> sint (maxPending st)" by (auto simp: NewWithQueueLimit_def split: if_splits)
  then have "admission_ok st admission_start" by (rule admission_start_ok)
  from admission_proceeds [OF admission.reachable_inv [OF assms(2) this] assms(3)] show ?thesis .
qed

theorem admissions_never_deadlock_witness: "\<exists>j. proceeds sample_store first_inserted j"
proof -
  have "NewWithQueueLimit False 1 = Inr sample_store" by (simp add: NewWithQueueLimit_def sample_store_def)
  moreover have "under_way first_inserted 1" by (simp add: under_way_def first_inserted_def)
  ultimately show ?thesis using admissions_never_deadlock [OF _ first_inserted_reached] by blast
qed

end
