(* ===== verification/Store_Settle.thy ===== *)
theory Store_Settle
  imports Store_Run
begin

text \<open>
  The tables after a batch, row by row: a batch settles each event it claimed, posting it at a
  time or recording its failure, and its effect is that of the settlements one after another.
  \<open>Store_Batch\<close> says what this means for the events; here the rows and their times are exact,
  which is what the interleaving of batches in \<open>Claims\<close> is compared with.
\<close>

section \<open>Settlements\<close>

datatype settlement = PostedAt int | FailedWith string

definition record_row :: "string \<Rightarrow> pending_row \<Rightarrow> pending_row" where
  "record_row code p = p\<lparr>p_processing_failures := p_processing_failures p + 1, p_failure_code := code\<rparr>"

fun settle :: "string \<times> settlement \<Rightarrow> db \<Rightarrow> db" where
  "settle (i, PostedAt now) d = d\<lparr>ledger_entries := ledger_entries d @ ledger_rows now [i],
     pending_events := filter (\<lambda>p. p_event_id p \<noteq> i) (pending_events d)\<rparr>"
| "settle (i, FailedWith code) d = d\<lparr>pending_events :=
     map (\<lambda>p. if p_event_id p = i then record_row code p else p) (pending_events d)\<rparr>"

definition settles :: "(string \<times> settlement) list \<Rightarrow> db \<Rightarrow> db" where
  "settles = fold settle"

lemma settles_simps [simp]:
  "settles [] d = d" "settles (x # xs) d = settles xs (settle x d)" "settles (xs @ ys) d = settles ys (settles xs d)"
  by (simp_all add: settles_def)

definition posted_count :: "(string \<times> settlement) list \<Rightarrow> nat" where
  "posted_count ss = length (filter (\<lambda>(i, o1). case o1 of PostedAt now \<Rightarrow> True | FailedWith c \<Rightarrow> False) ss)"

lemma posted_count_simps [simp]:
  "posted_count [] = 0" "posted_count ((i, PostedAt now) # ss) = Suc (posted_count ss)"
  "posted_count ((i, FailedWith c) # ss) = posted_count ss"
  "posted_count (xs @ ys) = posted_count xs + posted_count ys"
  by (simp_all add: posted_count_def)

text \<open>What a settlement leaves alone: inputs, and the queue rows of other events.\<close>

lemma settle_usage [simp]: "usage_events (settle x d) = usage_events d"
  by (cases "(x, d)" rule: settle.cases) auto

lemma settles_usage [simp]: "usage_events (settles ss d) = usage_events d"
  by (induction ss arbitrary: d) auto

lemma settle_ledger: "length (ledger_entries (settle x d)) = length (ledger_entries d) + posted_count [x]"
  by (cases "(x, d)" rule: settle.cases) (auto simp: ledger_rows_def)

lemma settles_ledger: "length (ledger_entries (settles ss d)) = length (ledger_entries d) + posted_count ss"
proof (induction ss arbitrary: d)
  case (Cons x ss)
  have "posted_count (x # ss) = posted_count [x] + posted_count ss"
    using posted_count_simps(4) [of "[x]" ss] by simp
  with Cons [of "settle x d"] show ?case by (simp add: settle_ledger)
qed simp

definition rows_of :: "string set \<Rightarrow> db \<Rightarrow> pending_row list" where
  "rows_of S d = filter (\<lambda>p. p_event_id p \<in> S) (pending_events d)"

lemma settle_rows_of: "fst x \<notin> S \<Longrightarrow> rows_of S (settle x d) = rows_of S d"
proof (cases "(x, d)" rule: settle.cases)
  case (1 i now d')
  moreover assume "fst x \<notin> S"
  ultimately show ?thesis by (auto simp: rows_of_def intro!: filter_cong)
next
  case (2 i code d')
  moreover assume "fst x \<notin> S"
  moreover have "i \<notin> S \<Longrightarrow> filter (\<lambda>p. p_event_id p \<in> S) (map (\<lambda>p. if p_event_id p = i then record_row code p else p) ps) =
      filter (\<lambda>p. p_event_id p \<in> S) ps" for ps
    by (induction ps) (auto simp: record_row_def)
  ultimately show ?thesis by (simp add: rows_of_def)
qed

lemma settles_rows_of: "fst ` set ss \<inter> S = {} \<Longrightarrow> rows_of S (settles ss d) = rows_of S d"
  by (induction ss arbitrary: d) (auto simp: settle_rows_of)

text \<open>A row looked up by its identifier, and the claim, depend on their own rows only.\<close>

lemma pending_of_rows: "i \<in> S \<Longrightarrow> pending_of d i = find (\<lambda>p. p_event_id p = i) (rows_of S d)"
proof -
  assume i: "i \<in> S"
  have "find (\<lambda>p. p_event_id p = i) ps = find (\<lambda>p. p_event_id p = i) (filter (\<lambda>p. p_event_id p \<in> S) ps)" for ps
    using i by (induction ps) auto
  then show ?thesis by (simp add: pending_of_def rows_of_def)
qed

lemma pending_of_cong: "rows_of S d = rows_of S d' \<Longrightarrow> i \<in> S \<Longrightarrow> pending_of d i = pending_of d' i"
  by (simp add: pending_of_rows)

lemma claim_order_rows:
  assumes "\<And>i. env_locked env i \<longleftrightarrow> i \<notin> S"
  shows "claim_order env d = sort_key (\<lambda>p. (p_enqueued_at p, env_collate env (p_event_id p)))
     (filter (\<lambda>p. p_processing_failures p < 3) (rows_of S d))"
  using assms by (simp add: claim_order_def rows_of_def filter_sort conj_commute)

lemma claimed_ids_rows:
  assumes "\<And>i. env_locked env i \<longleftrightarrow> i \<notin> S" and "\<And>i. env_locked env' i \<longleftrightarrow> i \<notin> S"
    and "env_collate env = env_collate env'" and "rows_of S d = rows_of S d'"
  shows "claimed_ids env limit d = claimed_ids env' limit d'"
  unfolding claimed_ids_def claimed_rows_def claim_order_rows [OF assms(1)] claim_order_rows [OF assms(2)] assms(3,4) by simp


text \<open>A claim takes the same rows again when everything else is locked.\<close>

lemma filter_keys_take:
  "distinct (map k xs) \<Longrightarrow> filter (\<lambda>x. k x \<in> k ` set (take n (filter Q xs))) xs = take n (filter Q xs)"
proof (induction xs arbitrary: n)
  case (Cons x xs)
  have sub: "set (take m (filter Q xs)) \<subseteq> set xs" for m using set_take_subset [of m "filter Q xs"] by auto
  have new: "k x \<notin> k ` set xs" using Cons.prems by simp
  show ?case
  proof (cases "Q x \<and> 0 < n")
    case True
    then obtain m where m: "n = Suc m" by (cases n) auto
    have "filter (\<lambda>y. k y \<in> insert (k x) (k ` set (take m (filter Q xs)))) xs =
        filter (\<lambda>y. k y \<in> k ` set (take m (filter Q xs))) xs"
    proof (intro filter_cong refl)
      fix y assume "y \<in> set xs"
      then have "k y \<noteq> k x" using new by (metis imageI)
      then show "(k y \<in> insert (k x) (k ` set (take m (filter Q xs)))) = (k y \<in> k ` set (take m (filter Q xs)))" by simp
    qed
    with True m Cons show ?thesis by simp
  next
    case False
    then have "take n (filter Q (x # xs)) = take n (filter Q xs)" by auto
    moreover have "k x \<notin> k ` set (take n (filter Q xs))" using new sub by blast
    ultimately show ?thesis using Cons by simp
  qed
qed simp

lemma claimed_ids_again:
  assumes inv: "store_inv d" and locked: "\<And>i. env_locked env' i \<longleftrightarrow> i \<notin> set (claimed_ids env limit d)"
    and coll: "env_collate env' = env_collate env"
  shows "claimed_ids env' limit d = claimed_ids env limit d"
proof -
  define xs where "xs = sort_key (\<lambda>p. (p_enqueued_at p, env_collate env (p_event_id p)))
     (filter (\<lambda>p. p_processing_failures p < 3) (pending_events d))"
  have "distinct (map p_event_id (filter (\<lambda>p. p_processing_failures p < 3) (pending_events d)))"
    by (intro distinct_map_filter store_invD(2) [OF inv])
  then have dist: "distinct (map p_event_id xs)" by (simp add: xs_def distinct_map)
  have rows: "claimed_rows env limit d = take (nat limit) (filter (\<lambda>p. \<not> env_locked env (p_event_id p)) xs)"
    by (simp add: claimed_rows_def claim_order_def xs_def)
  have "claimed_rows env' limit d =
      take (nat limit) (filter (\<lambda>p. p_event_id p \<in> p_event_id ` set (claimed_rows env limit d)) xs)"
    by (simp add: claimed_rows_def claim_order_def xs_def coll locked claimed_ids_def)
  also have "\<dots> = take (nat limit) (claimed_rows env limit d)"
    unfolding rows filter_keys_take [OF dist] ..
  finally show ?thesis by (simp add: claimed_ids_def rows)
qed

section \<open>The isolated path, settled\<close>

definition outcome_at :: "pg_env \<Rightarrow> nat \<Rightarrow> string \<Rightarrow> settlement" where
  "outcome_at env k i = (case env_violation env i of None \<Rightarrow> PostedAt (env_clock env k) | Some c \<Rightarrow> FailedWith c)"

text \<open>The driver calls an event takes: savepoint, insert, then delete, or rollback and update, then release.\<close>

definition event_calls :: "pg_env \<Rightarrow> string \<Rightarrow> nat" where
  "event_calls env i = (if env_violation env i = None then 4 else 5)"

fun isolated :: "pg_env \<Rightarrow> nat \<Rightarrow> string list \<Rightarrow> (string \<times> settlement) list" where
  "isolated env k [] = []"
| "isolated env k (i # is) = (i, outcome_at env (k + 1) i) # isolated env (k + event_calls env i) is"

text \<open>An event in the queue that has not used up its attempts.\<close>

definition eligible :: "db \<Rightarrow> string \<Rightarrow> bool" where
  "eligible d i \<longleftrightarrow> (\<exists>p. pending_of d i = Some p \<and> p_processing_failures p < 3)"

lemma eligibleD:
  assumes "store_inv d" and "eligible d i"
  shows "i \<in> set (pending_ids d)" "i \<notin> set (ledger_ids d)" "i \<in> set (usage_ids d)"
proof -
  show p: "i \<in> set (pending_ids d)" using assms(2) pending_of_None [of d i] by (auto simp: eligible_def)
  with store_invD(4,5) [OF assms(1)] show "i \<notin> set (ledger_ids d)" "i \<in> set (usage_ids d)" by blast+
qed

lemma sql_record_failure_settle:
  assumes inv: "store_inv d" and i: "eligible d i" and code: "code \<in> integrity_codes"
  shows "sql_record_failure i code now d = Inr (1, settle (i, FailedWith code) d)"
proof -
  have "\<exists>d'. sql_record_failure i code now d = Inr (1, d')"
    using inv eligibleD(1) [OF inv i] code i by (intro record_failure_ok) (auto simp: eligible_def)
  then show ?thesis
    by (auto simp: sql_record_failure_def sql_update_pending_def record_row_def [abs_def] split: if_splits)
qed

lemma settle_inv:
  assumes inv: "store_inv d" and i: "eligible d i" and oc: "\<And>c. oc = FailedWith c \<Longrightarrow> c \<in> integrity_codes"
  shows "store_inv (settle (i, oc) d)"
proof (cases oc)
  case (PostedAt now)
  have "settle (i, oc) d = d\<lparr>ledger_entries := ledger_entries d @ map (\<lambda>i. \<lparr>l_event_id = i, l_processed_at = now\<rparr>) [i],
       pending_events := filter (\<lambda>p. p_event_id p \<notin> set [i]) (pending_events d)\<rparr>"
    by (simp add: PostedAt ledger_rows_def)
  with store_inv_post [OF inv, of "[i]" now] eligibleD(1) [OF inv i] show ?thesis by simp
next
  case (FailedWith code)
  have run: "sql_record_failure i code 0 d = Inr (1, settle (i, FailedWith code) d)"
    by (rule sql_record_failure_settle [OF inv i oc [OF FailedWith]])
  define f where "f = record_row code"
  have key: "\<And>p. p_event_id (f p) = p_event_id p" by (simp add: f_def record_row_def)
  have chk: "\<forall>p\<in>set (pending_events d). p_event_id p = i \<longrightarrow> pending_check (f p)"
    using run by (auto simp: sql_record_failure_def sql_update_pending_def f_def record_row_def split: if_splits)
  have "settle (i, oc) d = d\<lparr>pending_events := map (\<lambda>p. if p_event_id p = i then f p else p) (pending_events d)\<rparr>"
    unfolding FailedWith f_def by (rule settle.simps(2))
  then show ?thesis using store_inv_update [OF inv key chk] by (simp only:)
qed

lemma settle_eligible:
  assumes "i \<noteq> j" and "eligible d j"
  shows "eligible (settle (i, oc) d) j"
proof -
  have "rows_of {j} (settle (i, oc) d) = rows_of {j} d" using assms(1) by (intro settle_rows_of) simp
  from pending_of_cong [OF this, of j] assms(2) show ?thesis by (simp add: eligible_def)
qed

lemma process_one_settles:
  assumes env: "healthy env" and na: "\<not> tx_aborted tx" and inv: "store_inv (tx_db tx)"
    and i: "eligible (tx_db tx) i" and viol: "\<And>c. env_violation env i = Some c \<Longrightarrow> c \<in> integrity_codes"
  shows "\<exists>n ev'. process_one env i ev tx = (None, n, ev', tx\<lparr>tx_calls := tx_calls tx + event_calls env i,
     tx_db := settle (i, outcome_at env (tx_calls tx + 1) i) (tx_db tx)\<rparr>)"
proof -
  let ?d = "tx_db tx" and ?v = "env_violation env"
  note q = eligibleD [OF inv i]
  let ?tx1 = "tx\<lparr>tx_calls := Suc (tx_calls tx), tx_saves := (''ledger_event'', ?d) # tx_saves tx\<rparr>"
  have t1: "tx_savepoint env ''ledger_event'' tx = (Inr (), ?tx1)"
    using env na by (simp add: tx_savepoint_healthy)
  have post: "sql_post_ledger ?v [i] now ?d = (case ?v i of
      Some c \<Rightarrow> Inl c | None \<Rightarrow> Inr (1, ?d\<lparr>ledger_entries := ledger_entries ?d @ ledger_rows now [i]\<rparr>))" for now
    using sql_post_ledger_eq [of "[i]" ?d ?v now] q by (auto split: option.splits)
  show ?thesis
  proof (cases "?v i")
    case None
    with t1 post env na show ?thesis
      by (simp add: process_one_def tx_exec_healthy sql_delete_pending_def tx_release_healthy outcome_at_def event_calls_def
          del: sql_post_ledger.simps)
  next
    case (Some code)
    then have code: "code \<in> integrity_codes" using viol by simp
    with Some t1 post env na sql_record_failure_settle [OF inv i code] show ?thesis
      by (simp add: process_one_def tx_exec_healthy tx_rollback_to_healthy tx_release_healthy integrityCode_pg
          outcome_at_def event_calls_def del: sql_post_ledger.simps)
  qed
qed

lemma processIndividually_settles:
  assumes "healthy env" and "\<not> tx_aborted tx" and "store_inv (tx_db tx)" and "distinct (map fst xs)"
    and "\<forall>i\<in>set (map fst xs). eligible (tx_db tx) i"
    and "\<forall>i\<in>set (map fst xs). \<forall>c. env_violation env i = Some c \<longrightarrow> c \<in> integrity_codes"
  shows "\<exists>n evs tx'. processIndividually env xs tx = (None, n, evs, tx') \<and> \<not> tx_aborted tx' \<and>
     tx_db tx' = settles (isolated env (tx_calls tx) (map fst xs)) (tx_db tx)"
  using assms
proof (induction xs arbitrary: tx)
  case (Cons x xs)
  obtain i ev where x: "x = (i, ev)" by fastforce
  have i: "eligible (tx_db tx) i" and viol: "\<And>c. env_violation env i = Some c \<Longrightarrow> c \<in> integrity_codes"
    using Cons.prems by (auto simp: x)
  let ?o = "outcome_at env (tx_calls tx + 1) i"
  let ?tx1 = "tx\<lparr>tx_calls := tx_calls tx + event_calls env i, tx_db := settle (i, ?o) (tx_db tx)\<rparr>"
  from process_one_settles [OF Cons.prems(1-3) i viol] obtain k ev' where
    one: "process_one env i ev tx = (None, k, ev', ?tx1)" by blast
  have "store_inv (tx_db ?tx1)"
    using settle_inv [OF Cons.prems(3) i, of ?o] viol by (auto simp: outcome_at_def split: option.splits)
  moreover have "\<forall>j\<in>set (map fst xs). eligible (tx_db ?tx1) j"
  proof
    fix j assume j: "j \<in> set (map fst xs)"
    have "i \<notin> set (map fst xs)" using Cons.prems(4) by (simp add: x)
    with j have ne: "i \<noteq> j" by blast
    have "eligible (tx_db tx) j" using bspec [OF Cons.prems(5), of j] j by simp
    from settle_eligible [OF ne this] show "eligible (tx_db ?tx1) j" by simp
  qed
  ultimately have "\<exists>n evs tx'. processIndividually env xs ?tx1 = (None, n, evs, tx') \<and> \<not> tx_aborted tx' \<and>
     tx_db tx' = settles (isolated env (tx_calls ?tx1) (map fst xs)) (tx_db ?tx1)"
    using Cons.prems by (intro Cons.IH) auto
  then obtain n evs tx' where
    "processIndividually env xs ?tx1 = (None, n, evs, tx')" "\<not> tx_aborted tx'"
    "tx_db tx' = settles (isolated env (tx_calls ?tx1) (map fst xs)) (tx_db ?tx1)" by blast
  with one show ?case by (simp add: x del: split_paired_Ex)
qed simp


section \<open>The whole batch, settled\<close>

definition claim_outcomes :: "pg_env \<Rightarrow> string list \<Rightarrow> (string \<times> settlement) list" where
  "claim_outcomes env is =
     (if \<forall>i\<in>set is. env_violation env i = None then map (\<lambda>i. (i, PostedAt (env_clock env 3))) is else isolated env 5 is)"

lemma bulk_post_settles:
  "distinct is \<Longrightarrow> settles (map (\<lambda>i. (i, PostedAt now)) is) d =
     d\<lparr>ledger_entries := ledger_entries d @ ledger_rows now is,
       pending_events := filter (\<lambda>p. p_event_id p \<notin> set is) (pending_events d)\<rparr>"
proof (induction "is" arbitrary: d)
  case (Cons i xs)
  then show ?case by (simp add: ledger_rows_def conj_commute)
qed (simp add: ledger_rows_def)

lemma claimed_eligible: "store_inv d \<Longrightarrow> i \<in> set (claimed_ids env limit d) \<Longrightarrow> eligible d i"
  using claimed_row_of claimed_rows_props(2) by (fastforce simp: claimed_ids_def eligible_def)

lemma batch_settles:
  assumes env: "healthy env" and inv: "store_inv d" and lim: "1 \<le> limit" "limit \<le> 1000"
    and viol: "\<forall>i\<in>set (claimed_ids env limit d). \<forall>c. env_violation env i = Some c \<longrightarrow> c \<in> integrity_codes"
  shows "apply_op st (OpProcess env limit) d = settles (claim_outcomes env (claimed_ids env limit d)) d"
proof -
  let ?is = "claimed_ids env limit d" and ?v = "env_violation env"
  have t1: "tx_exec env (sql_claim (env_locked env) (env_collate env) limit) (begin_tx d) =
      (Inr (map (claim_of d) (claimed_rows env limit d)), (begin_tx d)\<lparr>tx_calls := 2\<rparr>)"
    using env by (simp add: tx_exec_healthy sql_claim_eq [OF inv] begin_tx_def)
  have rc: "read_claims env 0 (map (claim_of d) (claimed_rows env limit d)) [] [] =
      (None, ?is, claimed_events env limit d)"
    using env by (simp add: read_claims_healthy)
  let ?tx2 = "\<lparr>tx_db = d, tx_saves = [(''ledger_batch'', d)], tx_aborted = False, tx_calls = 3\<rparr>"
  have t2: "tx_savepoint env ''ledger_batch'' ((begin_tx d)\<lparr>tx_calls := 2\<rparr>) = (Inr (), ?tx2)"
    using env by (simp add: tx_savepoint_healthy begin_tx_def)
  note dist = distinct_claimed_ids [OF inv, of env limit] and sub = claimed_ids_pending [of env limit d]
  have post: "sql_post_ledger ?v ?is now d = (case find (\<lambda>i. ?v i \<noteq> None) ?is of
      Some i \<Rightarrow> Inl (the (?v i))
    | None \<Rightarrow> Inr (length ?is, d\<lparr>ledger_entries := ledger_entries d @ ledger_rows now ?is\<rparr>))" for now
    using dist sub store_invD(4,5) [OF inv] by (intro sql_post_ledger_eq) auto
  have "\<exists>v tx. batch_tx env limit (begin_tx d) = (None, v, tx) \<and> \<not> tx_aborted tx \<and>
      tx_db tx = settles (claim_outcomes env ?is) d"
  proof (cases "\<forall>i\<in>set ?is. ?v i = None")
    case True
    then have none: "find (\<lambda>i. ?v i \<noteq> None) ?is = None" by (auto simp: find_None_iff)
    have out: "settles (claim_outcomes env ?is) d = d\<lparr>ledger_entries := ledger_entries d @ ledger_rows (env_clock env 3) ?is,
       pending_events := filter (\<lambda>p. p_event_id p \<notin> set ?is) (pending_events d)\<rparr>"
      using True bulk_post_settles [OF dist] by (simp add: claim_outcomes_def)
    show ?thesis
    proof (cases "?is = []")
      case True
      with t1 rc out show ?thesis by (simp add: batch_tx_def ledger_rows_def del: split_paired_Ex)
    next
      case False
      with t1 rc t2 post none env out show ?thesis
        by (simp add: batch_tx_def tx_exec_healthy sql_delete_pending_def del: split_paired_Ex)
    qed
  next
    case False
    then obtain i where i: "find (\<lambda>i. ?v i \<noteq> None) ?is = Some i" by (fastforce simp: find_None_iff)
    then have "i \<in> set ?is" "?v i \<noteq> None" by (auto simp: find_Some_iff)
    then obtain code where code: "?v i = Some code" "code \<in> integrity_codes" using viol by blast
    let ?tx4 = "?tx2\<lparr>tx_calls := 5\<rparr>"
    have t3: "tx_exec env (sql_post_ledger ?v ?is) ?tx2 =
        (Inl (Driver (PgErr code)), ?tx2\<lparr>tx_calls := 4, tx_aborted := True\<rparr>)"
      using env post i code by (simp add: tx_exec_healthy)
    have t4: "tx_rollback_to env ''ledger_batch'' (?tx2\<lparr>tx_calls := 4, tx_aborted := True\<rparr>) = (Inr (), ?tx4)"
      using env by (simp add: tx_rollback_to_healthy)
    have fz: "map fst (zip ?is (claimed_events env limit d)) = ?is" by (simp add: length_claimed_events)
    have "\<exists>n evs tx'. processIndividually env (zip ?is (claimed_events env limit d)) ?tx4 = (None, n, evs, tx') \<and>
        \<not> tx_aborted tx' \<and> tx_db tx' = settles (isolated env (tx_calls ?tx4) (map fst (zip ?is (claimed_events env limit d)))) (tx_db ?tx4)"
      by (rule processIndividually_settles [OF env], unfold fz)
        (use inv dist viol claimed_eligible [OF inv] in simp_all)
    then obtain n evs tx' where
      ind: "processIndividually env (zip ?is (claimed_events env limit d)) ?tx4 = (None, n, evs, tx')"
      and tx': "\<not> tx_aborted tx'" "tx_db tx' = settles (isolated env 5 ?is) d"
      unfolding fz by auto
    have "?is \<noteq> []" using \<open>i \<in> set ?is\<close> by auto
    with t1 rc t2 t3 t4 ind code have "batch_tx env limit (begin_tx d) = (None, (n, evs), tx')"
      by (simp add: batch_tx_def integrityCode_pg)
    with tx' False show ?thesis by (auto simp: claim_outcomes_def)
  qed
  then obtain n evs tx where run: "batch_tx env limit (begin_tx d) = (None, (n, evs), tx)" "\<not> tx_aborted tx"
    "tx_db tx = settles (claim_outcomes env ?is) d" by auto
  from transaction_healthy [where fn = "batch_tx env limit" and ?v0.0 = "(0, [])", OF env run(1)] run(2,3) lim
  show ?thesis by (simp add: ProcessBatchWithResults_def)
qed

text \<open>Any settlement of the claimed rows is that of a batch with a suitable clock.\<close>

fun clock_for :: "nat \<Rightarrow> (string \<times> settlement) list \<Rightarrow> nat \<Rightarrow> int" where
  "clock_for k [] = (\<lambda>j. 0)"
| "clock_for k ((i, PostedAt now) # ss) = (clock_for (k + 4) ss)(k + 1 := now)"
| "clock_for k ((i, FailedWith c) # ss) = clock_for (k + 5) ss"

definition outcome_ok :: "(string \<Rightarrow> string option) \<Rightarrow> string \<times> settlement \<Rightarrow> bool" where
  "outcome_ok viol x \<longleftrightarrow> (case snd x of
     PostedAt now \<Rightarrow> viol (fst x) = None
   | FailedWith c \<Rightarrow> viol (fst x) = Some c \<and> c \<in> integrity_codes)"

lemma isolated_clock_cong:
  "(\<And>j. k < j \<Longrightarrow> c j = c' j) \<Longrightarrow> isolated (env\<lparr>env_clock := c\<rparr>) k is = isolated (env\<lparr>env_clock := c'\<rparr>) k is"
  by (induction "is" arbitrary: k) (auto simp: outcome_at_def event_calls_def split: option.splits)

lemma isolated_clock_for:
  "list_all (outcome_ok (env_violation env)) ss \<Longrightarrow> isolated (env\<lparr>env_clock := clock_for k ss\<rparr>) k (map fst ss) = ss"
proof (induction k ss rule: clock_for.induct)
  case (2 k i now ss)
  have "isolated (env\<lparr>env_clock := (clock_for (k + 4) ss)(Suc k := now)\<rparr>) (k + 4) (map fst ss) =
      isolated (env\<lparr>env_clock := clock_for (k + 4) ss\<rparr>) (k + 4) (map fst ss)"
    by (rule isolated_clock_cong) simp
  from this [unfolded fun_upd_def] 2 show ?case by (simp add: outcome_ok_def outcome_at_def event_calls_def)
qed (auto simp: outcome_ok_def outcome_at_def event_calls_def)

end
