(* ===== verification/Claims.thy ===== *)
theory Claims
  imports Store_Settle Admission
begin

text \<open>
  \<open>ProcessBatchWithResults\<close> and \<open>Retry\<close> run by any number of sessions at once, statement by
  statement, under READ COMMITTED: a claim locks its rows and skips those locked elsewhere
  (\<open>FOR UPDATE OF p SKIP LOCKED\<close>), a retry waits for its row (\<open>FOR UPDATE\<close>), the locks are held
  until the transaction ends, and what a session has written is seen by itself alone until its
  COMMIT. Admissions, which lock no existing row, are single steps at their COMMIT; \<open>Admission\<close>
  has them in detail. The history is the committed operations in the order of their commits.
\<close>

section \<open>Sessions\<close>

text \<open>
  A batch after its claim: the bulk insert has been done at a time; the rows are deleted too,
  with the number affected; or the bulk insert was rolled back and the events are settled one by
  one. A retry holds its row, and has reactivated it at a time. An ended session keeps the count
  it reported, if it did, and the identifiers it posted.
\<close>

datatype batch_pc =
    Claimed
  | Posted int
  | Removed int nat
  | Settling "string list" "(string \<times> settlement) list"

datatype db_work =
    Batch pg_env int "string list" batch_pc
  | Retrying string int64 "int option"
  | WorkEnded "nat option" "string list"

record claims =
  cl_db :: db
  cl_work :: "nat \<Rightarrow> db_work option"
  cl_history :: "store_op list"

fun locks_of :: "db_work \<Rightarrow> string set" where
  "locks_of (Batch env limit is pc) = set is"
| "locks_of (Retrying i g r) = {i}"
| "locks_of (WorkEnded r ps) = {}"

definition locked_by :: "claims \<Rightarrow> nat \<Rightarrow> string set" where
  "locked_by s j = (case cl_work s j of None \<Rightarrow> {} | Some w \<Rightarrow> locks_of w)"

definition row_locked :: "claims \<Rightarrow> string \<Rightarrow> bool" where
  "row_locked s i \<longleftrightarrow> (\<exists>j. i \<in> locked_by s j)"

definition works :: "nat \<Rightarrow> db_work \<Rightarrow> claims \<Rightarrow> claims" where
  "works j w s = s\<lparr>cl_work := (cl_work s)(j \<mapsto> w)\<rparr>"

definition commits_work :: "nat \<Rightarrow> db_work \<Rightarrow> store_op \<Rightarrow> db \<Rightarrow> claims \<Rightarrow> claims" where
  "commits_work j w x d s = s\<lparr>cl_work := (cl_work s)(j \<mapsto> w), cl_db := d, cl_history := cl_history s @ [x]\<rparr>"

text \<open>
  The environment in which an operation alone does what the session did: everything the session
  did not claim is locked, and the clock reads the session's times.
\<close>

definition serial_env :: "pg_env \<Rightarrow> string list \<Rightarrow> (nat \<Rightarrow> int) \<Rightarrow> pg_env" where
  "serial_env env is clock = \<lparr>env_fault = \<lambda>k. None, env_clock = clock, env_locked = \<lambda>i. i \<notin> set is,
     env_collate = env_collate env, env_violation = env_violation env, env_scan_fault = \<lambda>k. None,
     env_rows_break = None, env_commit_applied = False, env_rollback_fault = None\<rparr>"

text \<open>A batch ready to commit: its settlements, the count it will report, and the clock of its serial run.\<close>

fun ready_batch :: "string list \<Rightarrow> batch_pc \<Rightarrow> ((string \<times> settlement) list \<times> nat \<times> (nat \<Rightarrow> int)) option" where
  "ready_batch is (Removed now n) = Some (map (\<lambda>i. (i, PostedAt now)) is, n, \<lambda>k. now)"
| "ready_batch is (Settling [] ss) = Some (ss, posted_count ss, clock_for 5 ss)"
| "ready_batch is pc = None"

fun_cases ready_batchE: "ready_batch is pc = Some r"

definition posted_keys :: "(string \<times> settlement) list \<Rightarrow> string list" where
  "posted_keys ss = map fst (filter (\<lambda>(i, o1). case o1 of PostedAt now \<Rightarrow> True | FailedWith c \<Rightarrow> False) ss)"

inductive claims_step :: "store \<Rightarrow> claims \<Rightarrow> claims \<Rightarrow> bool" for st :: store where
  claims_rows: "cl_work s j = None \<Longrightarrow> 1 \<le> limit \<Longrightarrow> limit \<le> 1000 \<Longrightarrow>
     sql_claim (row_locked s) (env_collate env) limit now (cl_db s) = Inr (rows, d) \<Longrightarrow> rows \<noteq> [] \<Longrightarrow>
     claims_step st s (works j (Batch env limit (map fst rows) Claimed) s)"
| claims_nothing: "cl_work s j = None \<Longrightarrow> 1 \<le> limit \<Longrightarrow> limit \<le> 1000 \<Longrightarrow>
     sql_claim (row_locked s) collate limit now (cl_db s) = Inr ([], d) \<Longrightarrow>
     claims_step st s (works j (WorkEnded (Some 0) []) s)"
| posts_all: "cl_work s j = Some (Batch env limit is Claimed) \<Longrightarrow>
     sql_post_ledger (env_violation env) is now (cl_db s) = Inr (n, d) \<Longrightarrow>
     claims_step st s (works j (Batch env limit is (Posted now)) s)"
| removes_all: "cl_work s j = Some (Batch env limit is (Posted now)) \<Longrightarrow>
     sql_delete_pending is now' (cl_db s) = Inr (n, d) \<Longrightarrow>
     claims_step st s (works j (Batch env limit is (Removed now n)) s)"
| violated: "cl_work s j = Some (Batch env limit is Claimed) \<Longrightarrow>
     sql_post_ledger (env_violation env) is now (cl_db s) = Inl code \<Longrightarrow> code \<in> integrity_codes \<Longrightarrow>
     claims_step st s (works j (Batch env limit is (Settling is [])) s)"
| posts_one: "cl_work s j = Some (Batch env limit is (Settling (i # todo) ss)) \<Longrightarrow>
     sql_post_ledger (env_violation env) [i] now (settles ss (cl_db s)) = Inr (n, d) \<Longrightarrow>
     claims_step st s (works j (Batch env limit is (Settling todo (ss @ [(i, PostedAt now)]))) s)"
| fails_one: "cl_work s j = Some (Batch env limit is (Settling (i # todo) ss)) \<Longrightarrow>
     sql_post_ledger (env_violation env) [i] now (settles ss (cl_db s)) = Inl code \<Longrightarrow> code \<in> integrity_codes \<Longrightarrow>
     claims_step st s (works j (Batch env limit is (Settling todo (ss @ [(i, FailedWith code)]))) s)"
| batch_commits: "cl_work s j = Some (Batch env limit is pc) \<Longrightarrow> ready_batch is pc = Some (ss, n, clock) \<Longrightarrow>
     r = Some n \<or> r = None \<Longrightarrow>
     claims_step st s (commits_work j (WorkEnded r (posted_keys ss)) (OpProcess (serial_env env is clock) limit)
       (settles ss (cl_db s)) s)"
| locks_retry: "cl_work s j = None \<Longrightarrow> retry_args_ok i g \<Longrightarrow> \<not> row_locked s i \<Longrightarrow>
     pending_of (cl_db s) i = Some p \<Longrightarrow> retryable p g \<Longrightarrow> claims_step st s (works j (Retrying i g None) s)"
| nothing_to_retry: "cl_work s j = None \<Longrightarrow> \<not> row_locked s i \<Longrightarrow>
     \<forall>p. pending_of (cl_db s) i = Some p \<longrightarrow> \<not> retryable p g \<Longrightarrow> claims_step st s (works j (WorkEnded None []) s)"
| reactivates: "cl_work s j = Some (Retrying i g None) \<Longrightarrow> claims_step st s (works j (Retrying i g (Some now)) s)"
| retry_commits: "cl_work s j = Some (Retrying i g (Some now)) \<Longrightarrow>
     claims_step st s (commits_work j (WorkEnded None []) (OpRetry (commit_env now now) i g) (reactivated i now (cl_db s)) s)"
| aborts: "cl_work s j = Some w \<Longrightarrow> claims_step st s (works j (WorkEnded None []) s)"
| admits: "is_accept x \<Longrightarrow>
     claims_step st s (s\<lparr>cl_db := apply_op st x (cl_db s), cl_history := cl_history s @ [x]\<rparr>)"

inductive_cases claims_stepE: "claims_step st s t"

definition claims_start :: "db \<Rightarrow> claims" where
  "claims_start d = \<lparr>cl_db = d, cl_work = \<lambda>j. None, cl_history = []\<rparr>"

section \<open>Serial runs\<close>

lemma serial_env_simps [simp]:
  "healthy (serial_env env is clock)" "env_violation (serial_env env is clock) = env_violation env"
  "env_locked (serial_env env is clock) i \<longleftrightarrow> i \<notin> set is" "env_collate (serial_env env is clock) = env_collate env"
  "env_clock (serial_env env is clock) = clock" "(serial_env env is clock)\<lparr>env_clock := c\<rparr> = serial_env env is c"
  by (simp_all add: healthy_def serial_env_def)

lemma serial_claim_clock: "claimed_ids (serial_env env is c) limit d = claimed_ids (serial_env env is c') limit d"
  by (rule claimed_ids_rows) simp_all

definition serial_claim :: "pg_env \<Rightarrow> string list \<Rightarrow> int \<Rightarrow> db \<Rightarrow> bool" where
  "serial_claim env is limit d \<longleftrightarrow> 1 \<le> limit \<and> limit \<le> 1000 \<and> claimed_ids (serial_env env is (\<lambda>k. 0)) limit d = is"

lemma serial_claimD:
  assumes "serial_claim env is limit d"
  shows "claimed_ids (serial_env env is clock) limit d = is" "1 \<le> limit" "limit \<le> 1000"
  using assms serial_claim_clock [of env "is" clock limit d "\<lambda>k. 0"] by (simp_all add: serial_claim_def)

lemma serial_bulk:
  assumes "store_inv d" and c: "serial_claim env is limit d" and "\<forall>i\<in>set is. env_violation env i = None"
  shows "apply_op st (OpProcess (serial_env env is (\<lambda>k. now)) limit) d = settles (map (\<lambda>i. (i, PostedAt now)) is) d"
  using batch_settles [of "serial_env env is (\<lambda>k. now)" d limit st] assms(1,3) serial_claimD [OF c]
  by (simp add: claim_outcomes_def)

lemma serial_isolated:
  assumes "store_inv d" and c: "serial_claim env is limit d" and "\<exists>i\<in>set is. env_violation env i \<noteq> None"
    and ss: "map fst ss = is" "list_all (outcome_ok (env_violation env)) ss"
  shows "apply_op st (OpProcess (serial_env env is (clock_for 5 ss)) limit) d = settles ss d"
proof -
  let ?e = "serial_env env is (clock_for 5 ss)"
  have codes: "c \<in> integrity_codes" if "i \<in> set is" "env_violation env i = Some c" for i c
  proof -
    from that(1) ss(1) obtain x where x: "x \<in> set ss" "fst x = i" by auto
    with ss(2) have "outcome_ok (env_violation env) x" by (simp add: list_all_iff)
    with x(2) that(2) show ?thesis by (cases "snd x") (simp_all add: outcome_ok_def)
  qed
  have "isolated ?e 5 (map fst ss) = ss"
    using isolated_clock_for [of ?e ss 5] ss(2) by simp
  then have "claim_outcomes ?e is = ss" using assms(3) ss(1) by (auto simp: claim_outcomes_def)
  with batch_settles [of ?e d limit st] codes assms(1) serial_claimD [OF c] show ?thesis by simp
qed

lemma serial_retry:
  assumes "store_inv d" and "retry_args_ok i g" and "pending_of d i = Some p" and "retryable p g"
  shows "apply_op st (OpRetry (commit_env now now) i g) d = reactivated i now d"
proof -
  have "store_Retry (commit_env now now) i g d =
      (Inr (reactivate_event (the (stored d i)), True), reactivated i (env_clock (commit_env now now) 2) d)"
    unfolding store_Retry_healthy [OF commit_env_healthy assms(1)] using assms(2-4) by simp
  then show ?thesis by (simp add: commit_env_def)
qed


section \<open>The invariant\<close>

text \<open>
  What is committed is what the history does in sequence; no row is locked twice; a batch would
  still claim exactly its rows if everything else were locked, and what it wrote are outcomes of
  those rows; a retry's row is still retryable; whatever an ended session posted is in the
  ledger, was posted by no other session, and is what it reported.
\<close>

fun pc_ok :: "(string \<Rightarrow> string option) \<Rightarrow> string list \<Rightarrow> batch_pc \<Rightarrow> bool" where
  "pc_ok viol is Claimed = True"
| "pc_ok viol is (Posted now) = (\<forall>i\<in>set is. viol i = None)"
| "pc_ok viol is (Removed now n) = ((\<forall>i\<in>set is. viol i = None) \<and> n = length is)"
| "pc_ok viol is (Settling todo ss) =
     (map fst ss @ todo = is \<and> list_all (outcome_ok viol) ss \<and> (\<exists>i\<in>set is. viol i \<noteq> None))"

fun work_ok :: "db \<Rightarrow> db_work \<Rightarrow> bool" where
  "work_ok d (Batch env limit is pc) = (serial_claim env is limit d \<and> pc_ok (env_violation env) is pc)"
| "work_ok d (Retrying i g r) = (retry_args_ok i g \<and> (\<exists>p. pending_of d i = Some p \<and> retryable p g))"
| "work_ok d (WorkEnded r ps) = (distinct ps \<and> set ps \<subseteq> set (ledger_ids d) \<and> (r = None \<or> r = Some (length ps)))"

fun posts_of :: "db_work \<Rightarrow> string set" where
  "posts_of (WorkEnded r ps) = set ps"
| "posts_of w = {}"

definition posted_by :: "claims \<Rightarrow> nat \<Rightarrow> string set" where
  "posted_by s j = (case cl_work s j of None \<Rightarrow> {} | Some w \<Rightarrow> posts_of w)"

definition claims_ok :: "store \<Rightarrow> db \<Rightarrow> claims \<Rightarrow> bool" where
  "claims_ok st d0 s \<longleftrightarrow> cl_db s = run_ops st (cl_history s) d0 \<and> store_inv (cl_db s) \<and>
     (\<forall>j w. cl_work s j = Some w \<longrightarrow> work_ok (cl_db s) w) \<and>
     (\<forall>j k. j \<noteq> k \<longrightarrow> locked_by s j \<inter> locked_by s k = {} \<and> posted_by s j \<inter> posted_by s k = {})"

lemma claims_okD:
  assumes "claims_ok st d0 s"
  shows "cl_db s = run_ops st (cl_history s) d0" "store_inv (cl_db s)"
    "\<And>j w. cl_work s j = Some w \<Longrightarrow> work_ok (cl_db s) w"
    "\<And>j k. j \<noteq> k \<Longrightarrow> locked_by s j \<inter> locked_by s k = {}" "\<And>j k. j \<noteq> k \<Longrightarrow> posted_by s j \<inter> posted_by s k = {}"
  using assms unfolding claims_ok_def by blast+

lemma works_simps [simp]:
  "cl_db (works j w s) = cl_db s" "cl_history (works j w s) = cl_history s"
  "cl_work (works j w s) = (cl_work s)(j \<mapsto> w)"
  "cl_db (commits_work j w x d s) = d" "cl_history (commits_work j w x d s) = cl_history s @ [x]"
  "cl_work (commits_work j w x d s) = (cl_work s)(j \<mapsto> w)"
  by (simp_all add: works_def commits_work_def)

lemma locked_by_session: "cl_work s j = Some w \<Longrightarrow> locked_by s j = locks_of w"
  by (simp add: locked_by_def)

text \<open>What a session relies on is kept by a commit that leaves its rows alone.\<close>

lemma locks_pending: "store_inv d \<Longrightarrow> work_ok d w \<Longrightarrow> locks_of w \<subseteq> set (pending_ids d)"
proof (cases w)
  case (Batch env limit "is" pc)
  assume "store_inv d" "work_ok d w"
  with Batch have "claimed_ids (serial_env env is (\<lambda>k. 0)) limit d = is" by (auto dest: serial_claimD(1))
  with claimed_ids_pending [of "serial_env env is (\<lambda>k. 0)" limit d] Batch show ?thesis by simp
next
  case (Retrying i g r)
  assume "work_ok d w"
  with Retrying pending_of_None [of d i] show ?thesis by auto
qed simp

lemma work_ok_kept:
  assumes "rows_of (locks_of w) d' = rows_of (locks_of w) d" and "set (ledger_ids d) \<subseteq> set (ledger_ids d')"
    and "work_ok d w"
  shows "work_ok d' w"
proof (cases w)
  case (Batch env limit "is" pc)
  with assms(1) have "claimed_ids (serial_env env is (\<lambda>k. 0)) limit d' = claimed_ids (serial_env env is (\<lambda>k. 0)) limit d"
    by (intro claimed_ids_rows) simp_all
  with assms(3) Batch show ?thesis by (simp add: serial_claim_def)
next
  case (Retrying i g r)
  with assms(1) have "rows_of {i} d' = rows_of {i} d" by simp
  from pending_of_cong [OF this] assms(3) Retrying show ?thesis by simp
next
  case (WorkEnded r ps)
  with assms(2,3) show ?thesis by auto
qed

text \<open>A step of session \<open>j\<close> to \<open>w\<close>, and the tables to those after the operations \<open>ops\<close>.\<close>

lemma claims_ok_update:
  assumes ok: "claims_ok st d0 s"
    and t: "cl_work t = (cl_work s)(j \<mapsto> w)" "cl_history t = cl_history s @ ops" "cl_db t = run_ops st ops (cl_db s)"
    and inv: "store_inv (cl_db t)" and w: "work_ok (cl_db t) w"
    and rows: "\<And>k. k \<noteq> j \<Longrightarrow> rows_of (locked_by s k) (cl_db t) = rows_of (locked_by s k) (cl_db s)"
    and ledger: "set (ledger_ids (cl_db s)) \<subseteq> set (ledger_ids (cl_db t))"
    and locks: "\<And>k. k \<noteq> j \<Longrightarrow> locks_of w \<inter> locked_by s k = {}"
    and posts: "\<And>k. k \<noteq> j \<Longrightarrow> posts_of w \<inter> posted_by s k = {}"
  shows "claims_ok st d0 t"
proof -
  note D = claims_okD [OF ok]
  have by': "locked_by t k = (if k = j then locks_of w else locked_by s k)"
    "posted_by t k = (if k = j then posts_of w else posted_by s k)" for k
    by (simp_all add: locked_by_def posted_by_def t(1))
  have "cl_db t = run_ops st (cl_history t) d0"
    unfolding t(2,3) D(1) by (simp add: run_ops_def)
  moreover have "work_ok (cl_db t) v" if "cl_work t k = Some v" for k v
  proof (cases "k = j")
    case False
    with that have k: "cl_work s k = Some v" by (simp add: t(1))
    from rows [OF False] locked_by_session [OF k] have "rows_of (locks_of v) (cl_db t) = rows_of (locks_of v) (cl_db s)" by simp
    from work_ok_kept [OF this ledger D(3) [OF k]] show ?thesis .
  qed (use that w in \<open>simp add: t(1)\<close>)
  moreover have "locked_by t k \<inter> locked_by t l = {}" if "k \<noteq> l" for k l
    using that D(4) [of k l] locks [of k] locks [of l] by (auto simp: by')
  moreover have "posted_by t k \<inter> posted_by t l = {}" if "k \<noteq> l" for k l
    using that D(5) [of k l] posts [of k] posts [of l] by (auto simp: by')
  ultimately show ?thesis using inv unfolding claims_ok_def by blast
qed

text \<open>A step that commits nothing and takes no further lock.\<close>

lemma claims_ok_works:
  assumes ok: "claims_ok st d0 s" and w: "work_ok (cl_db s) w"
    and locks: "\<And>k. k \<noteq> j \<Longrightarrow> locks_of w \<inter> locked_by s k = {}" and posts: "posts_of w = {}"
  shows "claims_ok st d0 (works j w s)"
  by (rule claims_ok_update [OF ok, where j = j and w = w and ops = "[]"])
    (use w locks posts claims_okD(2) [OF ok] in \<open>simp_all add: run_ops_def\<close>)

lemma claims_ok_continues:
  assumes ok: "claims_ok st d0 s" and old: "cl_work s j = Some v" and w: "work_ok (cl_db s) w"
    and "locks_of w \<subseteq> locks_of v" and "posts_of w = {}"
  shows "claims_ok st d0 (works j w s)"
proof (rule claims_ok_works [OF ok w])
  show "locks_of w \<inter> locked_by s k = {}" if "k \<noteq> j" for k
    using assms(4) claims_okD(4) [OF ok that] locked_by_session [OF old] by blast
qed (rule assms(5))


section \<open>Commits\<close>

lemma posted_keys_simps [simp]:
  "posted_keys [] = []" "posted_keys ((i, PostedAt now) # ss) = i # posted_keys ss"
  "posted_keys ((i, FailedWith c) # ss) = posted_keys ss"
  by (simp_all add: posted_keys_def)

lemma length_posted_keys [simp]: "length (posted_keys ss) = posted_count ss"
  by (simp add: posted_keys_def posted_count_def)

lemma settle_ledger_ids: "ledger_ids (settle x d) = ledger_ids d @ posted_keys [x]"
  by (cases "(x, d)" rule: settle.cases) (auto simp: ledger_rows_def)

lemma settles_ledger_ids: "ledger_ids (settles ss d) = ledger_ids d @ posted_keys ss"
proof (induction ss arbitrary: d)
  case (Cons x ss)
  have "posted_keys (x # ss) = posted_keys [x] @ posted_keys ss" by (simp add: posted_keys_def)
  with Cons [of "settle x d"] show ?case by (simp add: settle_ledger_ids)
qed simp

lemma posted_keys_subset: "set (posted_keys ss) \<subseteq> set (map fst ss)"
  by (auto simp: posted_keys_def)

lemma distinct_posted_keys: "distinct (map fst ss) \<Longrightarrow> distinct (posted_keys ss)"
  unfolding posted_keys_def by (rule distinct_map_filter)

lemma posted_keys_bulk [simp]: "posted_keys (map (\<lambda>i. (i, PostedAt now)) is) = is"
  by (induction "is") simp_all

lemma posted_count_bulk [simp]: "posted_count (map (\<lambda>i. (i, PostedAt now)) is) = length is"
  by (induction "is") simp_all

lemma settled_serial:
  assumes inv: "store_inv d" and w: "work_ok d (Batch env limit is pc)" and "ready_batch is pc = Some (ss, n, clock)"
  shows "apply_op st (OpProcess (serial_env env is clock) limit) d = settles ss d \<and> map fst ss = is \<and> n = posted_count ss"
  using assms(3)
proof (elim ready_batchE)
  fix now m
  assume "pc = Removed now m" and "(ss, n, clock) = (map (\<lambda>i. (i, PostedAt now)) is, m, \<lambda>k. now)"
  with w serial_bulk [OF inv, of env "is" limit st now] show ?thesis by (auto simp: comp_def)
next
  fix ss'
  assume "pc = Settling [] ss'" and "(ss, n, clock) = (ss', posted_count ss', clock_for 5 ss')"
  with w serial_isolated [OF inv, of env "is" limit ss st] show ?thesis by auto
qed

lemma claims_ok_batch:
  assumes ok: "claims_ok st d0 s" and pc: "cl_work s j = Some (Batch env limit is pc)"
    and fin: "ready_batch is pc = Some (ss, n, clock)" and r: "r = Some n \<or> r = None"
  shows "claims_ok st d0 (commits_work j (WorkEnded r (posted_keys ss)) (OpProcess (serial_env env is clock) limit)
     (settles ss (cl_db s)) s)"
proof -
  note D = claims_okD [OF ok]
  let ?x = "OpProcess (serial_env env is clock) limit" and ?d = "settles ss (cl_db s)"
  from settled_serial [OF D(2) D(3) [OF pc] fin, of st]
  have app: "apply_op st ?x (cl_db s) = ?d" and keys: "map fst ss = is" and n: "n = posted_count ss" by blast+
  have sub: "set is \<subseteq> set (pending_ids (cl_db s))"
    using locks_pending [OF D(2) D(3) [OF pc]] by simp
  have "serial_claim env is limit (cl_db s)" using D(3) [OF pc] by simp
  then have "distinct is" using distinct_claimed_ids [OF D(2)] serial_claimD(1) by metis
  then have dist: "distinct (posted_keys ss)" using distinct_posted_keys [of ss] keys by simp
  have posts: "set (posted_keys ss) \<subseteq> set is" using posted_keys_subset [of ss] keys by simp
  show ?thesis
  proof (rule claims_ok_update [OF ok, where j = j and w = "WorkEnded r (posted_keys ss)" and ops = "[?x]"], unfold works_simps)
    show "?d = run_ops st [?x] (cl_db s)" by (simp only: run_ops_def fold_simps app)
    show "store_inv ?d" using apply_op_inv [OF D(2), of st ?x] app by simp
    show "work_ok ?d (WorkEnded r (posted_keys ss))" using dist r n by (auto simp: settles_ledger_ids)
    show "rows_of (locked_by s k) ?d = rows_of (locked_by s k) (cl_db s)" if "k \<noteq> j" for k
    proof (rule settles_rows_of)
      have "fst ` set ss = set is" using keys by (metis set_map)
      then show "fst ` set ss \<inter> locked_by s k = {}" using D(4) [OF that] locked_by_session [OF pc] by auto
    qed
    show "set (ledger_ids (cl_db s)) \<subseteq> set (ledger_ids ?d)" by (simp only: settles_ledger_ids set_append Un_upper1)
    show "posts_of (WorkEnded r (posted_keys ss)) \<inter> posted_by s k = {}" if "k \<noteq> j" for k
    proof -
      have "posted_by s k \<subseteq> set (ledger_ids (cl_db s))"
        using D(3) [of k] by (cases "cl_work s k"; cases "the (cl_work s k)") (auto simp: posted_by_def)
      moreover have "set (posted_keys ss) \<inter> set (ledger_ids (cl_db s)) = {}"
        using posts sub store_invD(4) [OF D(2)] by blast
      ultimately show ?thesis by (simp only: posts_of.simps) blast
    qed
  qed simp_all
qed

lemma claims_ok_retry:
  assumes ok: "claims_ok st d0 s" and pc: "cl_work s j = Some (Retrying i g (Some now))"
  shows "claims_ok st d0 (commits_work j (WorkEnded None []) (OpRetry (commit_env now now) i g) (reactivated i now (cl_db s)) s)"
proof -
  note D = claims_okD [OF ok]
  let ?x = "OpRetry (commit_env now now) i g" and ?d = "reactivated i now (cl_db s)"
  from D(3) [OF pc] obtain p where p: "retry_args_ok i g" "pending_of (cl_db s) i = Some p" "retryable p g" by auto
  have app: "apply_op st ?x (cl_db s) = ?d" by (rule serial_retry [OF D(2) p])
  show ?thesis
  proof (rule claims_ok_update [OF ok, where j = j and w = "WorkEnded None []" and ops = "[?x]"], unfold works_simps)
    show "?d = run_ops st [?x] (cl_db s)" by (simp only: run_ops_def fold_simps app)
    show "store_inv ?d" using apply_op_inv [OF D(2), of st ?x] app by simp
    show "rows_of (locked_by s k) ?d = rows_of (locked_by s k) (cl_db s)" if "k \<noteq> j" for k
    proof -
      have "i \<notin> locked_by s k" using D(4) [OF that] locked_by_session [OF pc] by auto
      then have "filter (\<lambda>p. p_event_id p \<in> locked_by s k) (map (\<lambda>p. if p_event_id p = i then reactivate_row now p else p) ps) =
          filter (\<lambda>p. p_event_id p \<in> locked_by s k) ps" for ps
        by (induction ps) auto
      then show ?thesis by (simp add: rows_of_def reactivated_def)
    qed
    show "set (ledger_ids (cl_db s)) \<subseteq> set (ledger_ids ?d)" by (simp add: reactivated_def)
  qed simp_all
qed

lemma accept_rows:
  assumes inv: "store_inv d" and "is_accept x"
  shows "(\<forall>S. S \<subseteq> set (usage_ids d) \<longrightarrow> rows_of S (apply_op st x d) = rows_of S d) \<and>
    ledger_entries (apply_op st x d) = ledger_entries d"
proof -
  from assms(2) obtain env ev where x: "x = OpAccept env ev" by (cases x) auto
  obtain r d' where run: "store_Accept st env ev d = (r, d')" by fastforce
  from run inv show ?thesis
    by (cases rule: store_Accept_cases) (use x run in \<open>auto simp: admitted_def rows_of_def pending_row_of_def\<close>)
qed

lemma claims_ok_admits:
  assumes ok: "claims_ok st d0 s" and x: "is_accept x"
  shows "claims_ok st d0 (s\<lparr>cl_db := apply_op st x (cl_db s), cl_history := cl_history s @ [x]\<rparr>)"
proof -
  let ?t = "s\<lparr>cl_db := apply_op st x (cl_db s), cl_history := cl_history s @ [x]\<rparr>"
  note D = claims_okD [OF ok]
  note a = accept_rows [OF D(2) x, of st]
  have "cl_db ?t = run_ops st (cl_history ?t) d0" using D(1) by (simp add: run_ops_def)
  moreover have "store_inv (cl_db ?t)" using apply_op_inv [OF D(2)] by simp
  moreover have "work_ok (cl_db ?t) w" if w: "cl_work s j = Some w" for j w
  proof (rule work_ok_kept [OF _ _ D(3) [OF w]])
    have "locks_of w \<subseteq> set (usage_ids (cl_db s))"
      using locks_pending [OF D(2) D(3) [OF w]] store_invD(5) [OF D(2)] by blast
    then show "rows_of (locks_of w) (cl_db ?t) = rows_of (locks_of w) (cl_db s)" using a by simp
  qed (use a in simp)
  moreover have "locked_by ?t = locked_by s" "posted_by ?t = posted_by s"
    by (simp_all add: locked_by_def [abs_def] posted_by_def [abs_def])
  ultimately show ?thesis using D(4,5) unfolding claims_ok_def by simp
qed


section \<open>Every step\<close>

lemma claims_ok_claim:
  assumes ok: "claims_ok st d0 s" and lim: "1 \<le> limit" "limit \<le> 1000"
    and claim: "sql_claim (row_locked s) (env_collate env) limit now (cl_db s) = Inr (rows, d)"
  shows "claims_ok st d0 (works j (Batch env limit (map fst rows) Claimed) s)"
proof -
  note D = claims_okD [OF ok]
  let ?e = "(serial_env env [] (\<lambda>k. 0))\<lparr>env_locked := row_locked s\<rparr>"
  have e: "env_locked ?e = row_locked s" "env_collate ?e = env_collate env" by (simp_all add: serial_env_def)
  have "rows = map (claim_of (cl_db s)) (claimed_rows ?e limit (cl_db s))"
    using claim sql_claim_eq [OF D(2), of ?e limit now] by (simp add: e)
  then have ids: "map fst rows = claimed_ids ?e limit (cl_db s)" by simp
  have "serial_claim env (map fst rows) limit (cl_db s)"
    unfolding serial_claim_def ids using lim claimed_ids_again [OF D(2), of _ ?e limit] by (simp add: e)
  moreover have "locked_by s k \<inter> set (map fst rows) = {}" for k
  proof -
    have "\<not> row_locked s i" if "i \<in> set (claimed_ids ?e limit (cl_db s))" for i
      using that claimed_rows_props(3) [of _ ?e limit "cl_db s"] by (auto simp: claimed_ids_def e)
    then show ?thesis unfolding ids row_locked_def by blast
  qed
  ultimately show ?thesis by (intro claims_ok_works [OF ok]) auto
qed

text \<open>What the statements of a batch answer.\<close>

lemma batch_facts:
  assumes "store_inv d" and "work_ok d (Batch env limit is pc)"
  shows "distinct is" "set is \<subseteq> set (pending_ids d)" "set is \<inter> set (ledger_ids d) = {}" "set is \<subseteq> set (usage_ids d)"
proof -
  have c: "claimed_ids (serial_env env is (\<lambda>k. 0)) limit d = is" using assms(2) by (auto dest: serial_claimD(1))
  show "distinct is" using distinct_claimed_ids [OF assms(1), of "serial_env env is (\<lambda>k. 0)" limit] c by simp
  show p: "set is \<subseteq> set (pending_ids d)" using locks_pending [OF assms] by simp
  show "set is \<inter> set (ledger_ids d) = {}" "set is \<subseteq> set (usage_ids d)" using p store_invD(4,5) [OF assms(1)] by blast+
qed

lemma bulk_answer:
  assumes "store_inv d" and "work_ok d (Batch env limit is pc)"
  shows "(\<exists>x. sql_post_ledger (env_violation env) is now d = Inr x) \<longleftrightarrow> (\<forall>i\<in>set is. env_violation env i = None)"
proof -
  have "sql_post_ledger (env_violation env) is now d = (case find (\<lambda>i. env_violation env i \<noteq> None) is of
      Some i \<Rightarrow> Inl (the (env_violation env i))
    | None \<Rightarrow> Inr (length is, d\<lparr>ledger_entries := ledger_entries d @ ledger_rows now is\<rparr>))"
    by (rule sql_post_ledger_eq [OF batch_facts(1,3,4) [OF assms]])
  then have "(\<exists>x. sql_post_ledger (env_violation env) is now d = Inr x) \<longleftrightarrow>
      find (\<lambda>i. env_violation env i \<noteq> None) is = None" by (auto split: option.splits)
  then show ?thesis by (simp add: find_None_iff Ball_def)
qed

lemma delete_answer:
  assumes "store_inv d" and "work_ok d (Batch env limit is pc)" and "sql_delete_pending is now d = Inr (n, d')"
  shows "n = length is"
  using assms(3) length_filter_key_distinct [OF store_invD(2) [OF assms(1)] batch_facts(2,1) [OF assms(1,2)]]
  by (simp add: sql_delete_pending_def)

lemma isolated_answer:
  assumes inv: "store_inv d" and w: "work_ok d (Batch env limit is (Settling (i # todo) ss))"
  shows "(case sql_post_ledger (env_violation env) [i] now (settles ss d) of
     Inl code \<Rightarrow> env_violation env i = Some code | Inr x \<Rightarrow> env_violation env i = None)"
proof -
  have "i \<in> set (usage_ids d)" using batch_facts(4) [OF inv w] w by auto
  then show ?thesis by (auto split: option.splits)
qed

lemma claims_step_ok:
  assumes ok: "claims_ok st d0 s" and "claims_step st s t"
  shows "claims_ok st d0 t"
proof -
  note D = claims_okD [OF ok]
  from assms(2) show ?thesis
  proof (cases rule: claims_step.cases)
    case (claims_rows j limit env now rows d)
    with claims_ok_claim [OF ok] show ?thesis by blast
  next
    case (claims_nothing j limit collate now d)
    then show ?thesis by (intro claims_ok_update [OF ok, where t = t and j = j and w = "WorkEnded (Some 0) []" and ops = "[]"])
      (simp_all add: run_ops_def D(2))
  next
    case (posts_all j env limit "is" now n d)
    then have "\<forall>i\<in>set is. env_violation env i = None"
      using bulk_answer [OF D(2) D(3) [OF posts_all(2)], of now] by blast
    then show ?thesis using posts_all claims_ok_continues [OF ok posts_all(2)] D(3) [OF posts_all(2)] by auto
  next
    case (removes_all j env limit "is" now now' n d)
    then show ?thesis using claims_ok_continues [OF ok removes_all(2)] D(3) [OF removes_all(2)]
        delete_answer [OF D(2) D(3) [OF removes_all(2)] removes_all(3)] by auto
  next
    case (violated j env limit "is" now code)
    then have "\<not> (\<forall>i\<in>set is. env_violation env i = None)"
      using bulk_answer [OF D(2) D(3) [OF violated(2)], of now] by auto
    then show ?thesis using violated claims_ok_continues [OF ok violated(2)] D(3) [OF violated(2)] by auto
  next
    case (posts_one j env limit "is" i todo ss now n d)
    then show ?thesis using claims_ok_continues [OF ok posts_one(2)] D(3) [OF posts_one(2)]
        isolated_answer [OF D(2) D(3) [OF posts_one(2)], of now]
      by (auto simp: outcome_ok_def simp del: sql_post_ledger.simps)
  next
    case (fails_one j env limit "is" i todo ss now code)
    then show ?thesis using claims_ok_continues [OF ok fails_one(2)] D(3) [OF fails_one(2)]
        isolated_answer [OF D(2) D(3) [OF fails_one(2)], of now]
      by (auto simp: outcome_ok_def simp del: sql_post_ledger.simps)
  next
    case (batch_commits j env limit "is" pc ss n clock r)
    with claims_ok_batch [OF ok] show ?thesis by blast
  next
    case (locks_retry j i g p)
    then show ?thesis using claims_ok_works [OF ok, of "Retrying i g None" j] by (auto simp: row_locked_def)
  next
    case (nothing_to_retry j i g)
    then show ?thesis using claims_ok_works [OF ok, of "WorkEnded None []" j] by auto
  next
    case (reactivates j i g now)
    then show ?thesis using claims_ok_continues [OF ok reactivates(2)] D(3) [OF reactivates(2)] by auto
  next
    case (retry_commits j i g now)
    with claims_ok_retry [OF ok] show ?thesis by blast
  next
    case (aborts j w)
    then show ?thesis using claims_ok_works [OF ok, of "WorkEnded None []" j] by auto
  next
    case (admits x)
    with claims_ok_admits [OF ok] show ?thesis by blast
  qed
qed

interpretation claims: step_invariant "claims_step st" "claims_ok st d0" for st d0
  by unfold_locales (rule claims_step_ok)

lemma claims_ok_start: "store_inv d \<Longrightarrow> claims_ok st d (claims_start d)"
  by (simp add: claims_ok_def claims_start_def run_ops_def locked_by_def posted_by_def)

lemmas claims_reachable_ok = claims.reachable_inv [OF _ claims_ok_start]


section \<open>Progress\<close>

text \<open>The statements a session has left before its COMMIT is done.\<close>

fun work_left :: "db_work \<Rightarrow> nat" where
  "work_left (Batch env limit is Claimed) = length is + 3"
| "work_left (Batch env limit is (Posted now)) = 2"
| "work_left (Batch env limit is (Removed now n)) = 1"
| "work_left (Batch env limit is (Settling todo ss)) = length todo + 1"
| "work_left (Retrying i g None) = 2"
| "work_left (Retrying i g (Some now)) = 1"
| "work_left (WorkEnded r ps) = 0"

definition advances_work :: "store \<Rightarrow> nat \<Rightarrow> claims \<Rightarrow> claims \<Rightarrow> bool" where
  "advances_work st j s t \<longleftrightarrow> claims_step st s t \<and>
     (\<exists>v w. cl_work s j = Some v \<and> cl_work t j = Some w \<and> work_left w < work_left v \<and>
        (work_left w = 0 \<longrightarrow> (\<exists>x. cl_history t = cl_history s @ [x])))"

lemma advances_worksI:
  assumes "claims_step st s (works j w s)" and "cl_work s j = Some v" and "work_left w < work_left v" and "work_left w \<noteq> 0"
  shows "\<exists>t. advances_work st j s t"
  using assms by (auto simp: advances_work_def intro!: exI [of _ "works j w s"])

lemma advances_commitI:
  assumes "claims_step st s (commits_work j (WorkEnded r ps) x d s)" and "cl_work s j = Some v" and "work_left v \<noteq> 0"
  shows "\<exists>t. advances_work st j s t"
  using assms by (auto simp: advances_work_def intro!: exI [of _ "commits_work j (WorkEnded r ps) x d s"])

text \<open>A session that holds rows never waits for another one.\<close>

lemma batch_advances:
  assumes ok: "claims_ok st d0 s" and pc: "cl_work s j = Some (Batch env limit is pc)" and viol: "integrity_violations env"
  shows "\<exists>t. advances_work st j s t"
proof -
  note D = claims_okD [OF ok]
  note w = D(3) [OF pc]
  show ?thesis
  proof (cases pc)
    case Claimed
    note c = pc [unfolded Claimed]
    show ?thesis
    proof (cases "sql_post_ledger (env_violation env) is 0 (cl_db s)")
      case (Inr x)
      then obtain n d where "sql_post_ledger (env_violation env) is 0 (cl_db s) = Inr (n, d)" by (cases x) auto
      from advances_worksI [OF claims_step.posts_all [OF c this] c] show ?thesis by simp
    next
      case (Inl code)
      have "sql_post_ledger (env_violation env) is 0 (cl_db s) = (case find (\<lambda>i. env_violation env i \<noteq> None) is of
          Some i \<Rightarrow> Inl (the (env_violation env i))
        | None \<Rightarrow> Inr (length is, (cl_db s)\<lparr>ledger_entries := ledger_entries (cl_db s) @ ledger_rows 0 is\<rparr>))"
        by (rule sql_post_ledger_eq [OF batch_facts(1,3,4) [OF D(2) w]])
      with Inl obtain i where "find (\<lambda>i. env_violation env i \<noteq> None) is = Some i" "code = the (env_violation env i)"
        by (auto split: option.splits)
      with viol have "code \<in> integrity_codes" by (auto simp: find_Some_iff integrity_violations_def)
      from advances_worksI [OF claims_step.violated [OF c Inl this] c] show ?thesis by simp
    qed
  next
    case (Posted now)
    note c = pc [unfolded Posted]
    obtain n d where "sql_delete_pending is 0 (cl_db s) = Inr (n, d)" by (simp add: sql_delete_pending_def)
    from advances_worksI [OF claims_step.removes_all [OF c this] c] show ?thesis by simp
  next
    case (Removed now n)
    then have "ready_batch is pc = Some (map (\<lambda>i. (i, PostedAt now)) is, n, \<lambda>k. now)" by simp
    from advances_commitI [OF claims_step.batch_commits [OF pc this disjI1 [OF refl]] pc] Removed show ?thesis by simp
  next
    case (Settling todo ss)
    show ?thesis
    proof (cases todo)
      case Nil
      with Settling have "ready_batch is pc = Some (ss, posted_count ss, clock_for 5 ss)" by simp
      from advances_commitI [OF claims_step.batch_commits [OF pc this disjI1 [OF refl]] pc] Settling show ?thesis by simp
    next
      case (Cons i rest)
      note c = pc [unfolded Settling Cons] and ans = isolated_answer [OF D(2) w [unfolded Settling Cons], of 0]
      show ?thesis
      proof (cases "sql_post_ledger (env_violation env) [i] 0 (settles ss (cl_db s))")
        case (Inr x)
        then obtain n d where "sql_post_ledger (env_violation env) [i] 0 (settles ss (cl_db s)) = Inr (n, d)" by (cases x) auto
        from advances_worksI [OF claims_step.posts_one [OF c this] c] show ?thesis by simp
      next
        case (Inl code)
        with ans viol have "code \<in> integrity_codes" by (simp add: integrity_violations_def)
        from advances_worksI [OF claims_step.fails_one [OF c Inl this] c] show ?thesis by simp
      qed
    qed
  qed
qed

lemma retry_advances:
  assumes "cl_work s j = Some (Retrying i g r)"
  shows "\<exists>t. advances_work st j s t"
proof (cases r)
  case None
  note c = assms [unfolded None]
  from advances_worksI [OF claims_step.reactivates [OF c, of st 0] c] show ?thesis by simp
next
  case (Some now)
  note c = assms [unfolded Some]
  from advances_commitI [OF claims_step.retry_commits [OF c, of st] c] show ?thesis by simp
qed

end
