(* ===== verification/Sessions.thy ===== *)
theory Sessions
  imports Claims
begin

text \<open>
  Every operation of the store at once: admissions as in \<open>Admission\<close>, batches and retries as in
  \<open>Claims\<close>, over the same tables, each step one statement of one session. A COMMIT of one kind is
  seen by the other; no session of one kind ever asks for a lock of the other. Each half takes
  the other's COMMIT as one operation, and each proves that its own COMMITs are operations: so
  both sets of facts hold of the whole.
\<close>

inductive sessions_step :: "store \<Rightarrow> shared \<times> claims \<Rightarrow> shared \<times> claims \<Rightarrow> bool" for st :: store where
  admission_moves: "admission_step st a a' \<Longrightarrow> sh_history a' = sh_history a \<Longrightarrow>
     sessions_step st (a, c) (a', c)"
| admission_commits: "admission_step st a a' \<Longrightarrow> sh_history a' = sh_history a @ [x] \<Longrightarrow> is_accept x \<Longrightarrow>
     sessions_step st (a, c) (a', c\<lparr>cl_db := sh_db a', cl_history := cl_history c @ [x]\<rparr>)"
| work_moves: "claims_step st c c' \<Longrightarrow> cl_history c' = cl_history c \<Longrightarrow> sessions_step st (a, c) (a, c')"
| work_commits: "claims_step st c c' \<Longrightarrow> cl_history c' = cl_history c @ [x] \<Longrightarrow> \<not> is_accept x \<Longrightarrow>
     sessions_step st (a, c) (a\<lparr>sh_db := cl_db c', sh_history := sh_history a @ [x]\<rparr>, c')"

definition sessions_ok :: "store \<Rightarrow> shared \<times> claims \<Rightarrow> bool" where
  "sessions_ok st s \<longleftrightarrow> (case s of (a, c) \<Rightarrow> admission_ok st a \<and> claims_ok st empty_db c \<and>
     cl_db c = sh_db a \<and> cl_history c = sh_history a)"

text \<open>A COMMIT does to the tables what its operation does.\<close>

lemma admission_commit_db:
  assumes "admission_ok st a" and "admission_ok st a'" and "sh_history a' = sh_history a @ xs"
  shows "sh_db a' = run_ops st xs (sh_db a)"
  using admission_okD(1) [OF assms(1)] admission_okD(1) [OF assms(2)] assms(3) by (simp add: run_ops_def)

lemma claims_commit_db:
  assumes "claims_ok st d0 c" and "claims_ok st d0 c'" and "cl_history c' = cl_history c @ xs"
  shows "cl_db c' = run_ops st xs (cl_db c)"
  using claims_okD(1) [OF assms(1)] claims_okD(1) [OF assms(2)] assms(3) by (simp add: run_ops_def)

lemma sessions_step_ok:
  assumes ok: "sessions_ok st s" and "sessions_step st s t"
  shows "sessions_ok st t"
  using assms(2)
proof (cases rule: sessions_step.cases)
  case (admission_moves a a' c)
  with ok have a: "admission_ok st a" "admission_ok st a'" and c: "claims_ok st empty_db c" "cl_db c = sh_db a" "cl_history c = sh_history a"
    by (auto simp: sessions_ok_def intro: admission_step_ok)
  with admission_commit_db [OF a, of "[]"] admission_moves show ?thesis by (simp add: sessions_ok_def run_ops_def)
next
  case (admission_commits a a' x c)
  with ok have a: "admission_ok st a" "admission_ok st a'" and c: "claims_ok st empty_db c" "cl_db c = sh_db a" "cl_history c = sh_history a"
    by (auto simp: sessions_ok_def intro: admission_step_ok)
  have db: "sh_db a' = apply_op st x (cl_db c)"
    using admission_commit_db [OF a, of "[x]"] admission_commits(4) c(2) by (simp add: run_ops_def)
  from claims_step_ok [OF c(1) claims_step.admits [OF admission_commits(5)]] a(2) c(3) admission_commits show ?thesis
    unfolding db [symmetric] by (simp add: sessions_ok_def)
next
  case (work_moves c c' a)
  with ok have c: "claims_ok st empty_db c" "claims_ok st empty_db c'" and a: "admission_ok st a" "cl_db c = sh_db a" "cl_history c = sh_history a"
    by (auto simp: sessions_ok_def intro: claims_step_ok)
  with claims_commit_db [OF c, of "[]"] work_moves show ?thesis by (simp add: sessions_ok_def run_ops_def)
next
  case (work_commits c c' x a)
  with ok have c: "claims_ok st empty_db c" "claims_ok st empty_db c'" and a: "admission_ok st a" "cl_db c = sh_db a" "cl_history c = sh_history a"
    by (auto simp: sessions_ok_def intro: claims_step_ok)
  have db: "cl_db c' = apply_op st x (sh_db a)"
    using claims_commit_db [OF c, of "[x]"] work_commits(4) a(2) by (simp add: run_ops_def)
  from admission_step_ok [OF a(1) admission_step.other [OF work_commits(5)]] c(2) a(3) work_commits show ?thesis
    unfolding db [symmetric] by (simp add: sessions_ok_def)
qed

interpretation sessions: step_invariant "sessions_step st" "sessions_ok st" for st
  by unfold_locales (rule sessions_step_ok)


text \<open>A run of admissions before any COMMIT is a run of all sessions.\<close>

lemma admission_step_history: "admission_step st s t \<Longrightarrow> \<exists>xs. sh_history t = sh_history s @ xs"
  by (cases rule: admission_step.cases) (auto simp: commits_admission_def)

lemma admission_steps_history: "(admission_step st)\<^sup>*\<^sup>* s t \<Longrightarrow> \<exists>xs. sh_history t = sh_history s @ xs"
proof (induction rule: rtranclp_induct)
  case (step t u)
  from step(3) admission_step_history [OF step(2)] show ?case by (metis append_assoc)
qed simp

lemma sessions_lift_admission:
  assumes "(admission_step st)\<^sup>*\<^sup>* a a'" and "sh_history a' = sh_history a"
  shows "(sessions_step st)\<^sup>*\<^sup>* (a, c) (a', c)"
  using assms
proof (induction rule: rtranclp_induct)
  case (step b b')
  from admission_steps_history [OF step(1)] obtain xs where xs: "sh_history b = sh_history a @ xs" by blast
  from admission_step_history [OF step(2)] obtain ys where ys: "sh_history b' = sh_history b @ ys" by blast
  from xs ys step(4) have same: "sh_history b = sh_history a" "sh_history b' = sh_history b" by simp_all
  from step(3) [OF same(1)] admission_moves [OF step(2) same(2), of c] show ?case
    by (rule rtranclp.rtrancl_into_rtrancl)
qed simp

lemma sessions_start_ok:
  "0 \<le> sint (maxPending st) \<Longrightarrow> sessions_ok st (admission_start, claims_start empty_db)"
  by (simp add: sessions_ok_def admission_start_ok claims_ok_start) (simp add: claims_start_def admission_start_def)

end
