(* ===== verification/Sessions_Properties.thy ===== *)
theory Sessions_Properties
  imports Sessions Admission_Properties
begin

text \<open>
  The properties of all sessions at once: admissions, batches and retries, statement by statement.
\<close>

section \<open>A run\<close>

text \<open>
  The admission of \<open>Admission_Properties\<close> up to its COMMIT; then a worker claims the event, posts
  it and commits, while the second admission of the same event still waits.
\<close>

definition admitted_claims :: claims where
  "admitted_claims = \<lparr>cl_db = sh_db first_committed, cl_work = \<lambda>j. None, cl_history = sh_history first_committed\<rparr>"

definition claimed_claims :: claims where
  "claimed_claims = works 7 (Batch sample_env 10 [''e1''] Claimed) admitted_claims"

definition settled_claims :: claims where
  "settled_claims = works 7 (Batch sample_env 10 [''e1''] (Removed 9 1)) (works 7 (Batch sample_env 10 [''e1''] (Posted 9)) claimed_claims)"

definition posted_claims :: claims where
  "posted_claims = commits_work 7 (WorkEnded (Some 1) [''e1'']) (OpProcess (serial_env sample_env [''e1''] (\<lambda>k. 9)) 10)
     (settles [(''e1'', PostedAt 9)] (cl_db settled_claims)) settled_claims"

definition first_posted :: shared where
  "first_posted = first_committed\<lparr>sh_db := cl_db posted_claims, sh_history := cl_history posted_claims\<rparr>"

lemma admitted_reached:
  "(sessions_step sample_store)\<^sup>*\<^sup>* (admission_start, claims_start empty_db) (first_committed, admitted_claims)"
proof -
  have "sh_history first_enqueued = sh_history admission_start"
    by (simp add: first_enqueued_def first_inserted_def)
  from sessions_lift_admission [OF first_enqueued_reached this]
  have 1: "(sessions_step sample_store)\<^sup>*\<^sup>* (admission_start, claims_start empty_db) (first_enqueued, claims_start empty_db)" .
  let ?x = "OpAccept (commit_env 5 6) (sample_event ''e1'')"
  have "sh_history first_committed = sh_history first_enqueued @ [?x]" by (simp add: first_committed_def commits_admission_def)
  from sessions_step.admission_commits [OF first_commits this, of "claims_start empty_db"]
  have "sessions_step sample_store (first_enqueued, claims_start empty_db)
     (first_committed, (claims_start empty_db)\<lparr>cl_db := sh_db first_committed, cl_history := cl_history (claims_start empty_db) @ [?x]\<rparr>)"
    by simp
  moreover have "(claims_start empty_db)\<lparr>cl_db := sh_db first_committed, cl_history := cl_history (claims_start empty_db) @ [?x]\<rparr> =
      admitted_claims"
    by (simp add: admitted_claims_def claims_start_def first_committed_def commits_admission_def first_enqueued_def
        first_inserted_def admission_start_def)
  ultimately show ?thesis using 1 by (metis rtranclp.rtrancl_into_rtrancl)
qed

lemma settled_reached:
  "(sessions_step sample_store)\<^sup>*\<^sup>* (admission_start, claims_start empty_db) (first_committed, settled_claims)"
proof -
  let ?s = "works 7 (Batch sample_env 10 [''e1''] (Posted 9)) claimed_claims"
  have free: "row_locked admitted_claims = (\<lambda>i. False)"
    by (rule ext) (simp add: row_locked_def locked_by_def admitted_claims_def)
  have db: "cl_db admitted_claims = admitted (sample_event ''e1'') 5 6 empty_db"
    by (simp add: admitted_claims_def first_committed_def commits_admission_def first_enqueued_def first_inserted_def admission_start_def)
  have "sql_claim (\<lambda>i. False) (env_collate sample_env) 10 0 (admitted (sample_event ''e1'') 5 6 empty_db) =
      Inr ([(''e1'', RequestID (sample_event ''e1''), 0, 0)], admitted (sample_event ''e1'') 5 6 empty_db)" by code_simp
  then have "sql_claim (row_locked admitted_claims) (env_collate sample_env) 10 0 (cl_db admitted_claims) =
      Inr ([(''e1'', RequestID (sample_event ''e1''), 0, 0)], admitted (sample_event ''e1'') 5 6 empty_db)"
    by (simp only: free db)
  from claims_step.claims_rows [OF _ _ _ this, of 7 sample_store]
  have 1: "claims_step sample_store admitted_claims claimed_claims"
    by (simp add: claimed_claims_def) (simp add: admitted_claims_def)
  have "\<not> isl (sql_post_ledger (env_violation sample_env) [''e1''] 9 (admitted (sample_event ''e1'') 5 6 empty_db))"
    by code_simp
  then have "\<exists>n d. sql_post_ledger (env_violation sample_env) [''e1''] 9 (admitted (sample_event ''e1'') 5 6 empty_db) = Inr (n, d)"
    by (cases "sql_post_ledger (env_violation sample_env) [''e1''] 9 (admitted (sample_event ''e1'') 5 6 empty_db)")
      (auto simp del: sql_post_ledger.simps)
  then have 2: "claims_step sample_store claimed_claims ?s"
    using claims_step.posts_all [of claimed_claims 7 sample_env 10 "[''e1'']" 9 _ _ sample_store] db
    by (auto simp: claimed_claims_def simp del: sql_post_ledger.simps)
  have "fst (sum.projr (sql_delete_pending [''e1''] 9 (admitted (sample_event ''e1'') 5 6 empty_db))) = 1" by code_simp
  then have "sql_delete_pending [''e1''] 9 (cl_db ?s) = Inr (1, snd (sum.projr (sql_delete_pending [''e1''] 9 (cl_db ?s))))"
    by (simp add: claimed_claims_def db sql_delete_pending_def)
  from claims_step.removes_all [OF _ this, of 7 sample_env 10 9 sample_store]
  have 3: "claims_step sample_store ?s settled_claims" by (simp add: settled_claims_def)
  have same: "cl_history claimed_claims = cl_history admitted_claims" "cl_history ?s = cl_history claimed_claims"
    "cl_history settled_claims = cl_history ?s" by (simp_all add: claimed_claims_def settled_claims_def)
  have "(sessions_step sample_store)\<^sup>*\<^sup>* (first_committed, admitted_claims) (first_committed, settled_claims)"
    using work_moves [OF 1 same(1)] work_moves [OF 2 same(2)] work_moves [OF 3 same(3)]
    by (meson rtranclp.rtrancl_into_rtrancl rtranclp.rtrancl_refl)
  with admitted_reached show ?thesis by (rule rtranclp_trans)
qed

lemma posted_reached:
  "(sessions_step sample_store)\<^sup>*\<^sup>* (admission_start, claims_start empty_db) (first_posted, posted_claims)"
proof -
  let ?x = "OpProcess (serial_env sample_env [''e1''] (\<lambda>k. 9)) 10"
  have "claims_step sample_store settled_claims posted_claims"
    using claims_step.batch_commits [of settled_claims 7 sample_env 10 "[''e1'']" "Removed 9 1" "[(''e1'', PostedAt 9)]" 1 "\<lambda>k. 9" "Some 1" sample_store]
    by (simp add: posted_claims_def settled_claims_def)
  moreover have "cl_history posted_claims = cl_history settled_claims @ [?x]" by (simp add: posted_claims_def)
  ultimately have "sessions_step sample_store (first_committed, settled_claims)
      (first_committed\<lparr>sh_db := cl_db posted_claims, sh_history := sh_history first_committed @ [?x]\<rparr>, posted_claims)"
    by (rule work_commits) simp
  moreover have "first_committed\<lparr>sh_db := cl_db posted_claims, sh_history := sh_history first_committed @ [?x]\<rparr> = first_posted"
    by (simp add: first_posted_def posted_claims_def settled_claims_def claimed_claims_def admitted_claims_def)
  ultimately show ?thesis using settled_reached by (metis rtranclp.rtrancl_into_rtrancl)
qed

section \<open>Properties\<close>

text \<open>
  C3. All sessions serialize: with any number of admissions, batches and retries interleaved
  statement by statement, the committed tables are those of the committed operations one after
  another in the order of their commits, with the store's invariant and the queue within its
  limit; no queue row is ever locked by two sessions; what an ended batch posted is in the
  ledger, is what it reported if it reported, and was posted by no other session; what an
  admission acknowledged is stored, and no event is created by two of them.
\<close>

theorem sessions_serialize:
  assumes "NewWithQueueLimit False limit = Inr st"
    and "(sessions_step st)\<^sup>*\<^sup>* (admission_start, claims_start empty_db) (a, c)"
  shows "cl_db c = run_ops st (cl_history c) empty_db \<and> sh_db a = cl_db c \<and> store_inv (cl_db c) \<and>
    int (length (pending_events (cl_db c))) \<le> sint limit \<and>
    (\<forall>j k. j \<noteq> k \<longrightarrow> locked_by c j \<inter> locked_by c k = {} \<and> posted_by c j \<inter> posted_by c k = {}) \<and>
    (\<forall>j r ps. cl_work c j = Some (WorkEnded r ps) \<longrightarrow>
       distinct ps \<and> set ps \<subseteq> set (ledger_ids (cl_db c)) \<and> (r = None \<or> r = Some (length ps))) \<and>
    (\<forall>i ev e. sh_session a i = Some (ev, Finished (Accepted e)) \<longrightarrow>
       (\<exists>e'. stored (cl_db c) (EventID (Input ev)) = Some e' \<and> frozen e' = frozen e)) \<and>
    (\<forall>i j. created a i \<and> created a j \<and> key_of a i = key_of a j \<longrightarrow> i = j)"
proof -
  from assms(1) have limit: "maxPending st = limit" "1 \<le> sint limit"
    by (auto simp: NewWithQueueLimit_def split: if_splits)
  then have "sessions_ok st (admission_start, claims_start empty_db)" by (intro sessions_start_ok) simp
  from sessions.reachable_inv [OF assms(2) this] have a: "admission_ok st a" and c: "claims_ok st empty_db c"
    and db: "sh_db a = cl_db c" by (auto simp: sessions_ok_def)
  have "int (length (pending_events (cl_db c))) \<le> sint limit"
    using admission_okD(2) [OF a] limit(1) by (simp add: within_limit_def db)
  moreover have "\<forall>j r ps. cl_work c j = Some (WorkEnded r ps) \<longrightarrow>
      distinct ps \<and> set ps \<subseteq> set (ledger_ids (cl_db c)) \<and> (r = None \<or> r = Some (length ps))"
    using claims_okD(3) [OF c] by fastforce
  moreover have "\<forall>j k. j \<noteq> k \<longrightarrow> locked_by c j \<inter> locked_by c k = {} \<and> posted_by c j \<inter> posted_by c k = {}"
    using claims_okD(4,5) [OF c] by simp
  moreover have "\<forall>i ev e. sh_session a i = Some (ev, Finished (Accepted e)) \<longrightarrow>
      (\<exists>e'. stored (cl_db c) (EventID (Input ev)) = Some e' \<and> frozen e' = frozen e)"
  proof (intro allI impI)
    fix i ev e
    assume "sh_session a i = Some (ev, Finished (Accepted e))"
    with admission_okD(8) [OF a, of i] show "\<exists>e'. stored (cl_db c) (EventID (Input ev)) = Some e' \<and> frozen e' = frozen e"
      unfolding acknowledged_def db by simp
  qed
  moreover have "\<forall>i j. created a i \<and> created a j \<and> key_of a i = key_of a j \<longrightarrow> i = j"
    using admission_okD(9) [OF a] by blast
  ultimately show ?thesis using claims_okD(1,2) [OF c] db by (intro conjI)
qed

theorem sessions_serialize_witness:
  "cl_db posted_claims = run_ops sample_store (cl_history posted_claims) empty_db \<and> ''e1'' \<in> set (ledger_ids (cl_db posted_claims))"
proof -
  have "NewWithQueueLimit False 1 = Inr sample_store" by (simp add: NewWithQueueLimit_def sample_store_def)
  note w = sessions_serialize [OF this posted_reached]
  note ended = w [THEN conjunct2, THEN conjunct2, THEN conjunct2, THEN conjunct2, THEN conjunct2, THEN conjunct1]
  have "cl_work posted_claims 7 = Some (WorkEnded (Some 1) [''e1''])" by (simp add: posted_claims_def)
  from ended [rule_format, OF this] have "''e1'' \<in> set (ledger_ids (cl_db posted_claims))" by simp
  with w [THEN conjunct1] show ?thesis by (rule conjI)
qed



end
