(* ===== verification/Load_Test.thy ===== *)
theory Load_Test
  imports Http_Api "HOL-Library.Sublist"
begin

text \<open>
  \<open>cmd/loadtest/main.go\<close>: the checks before a run, the clients' division of the requests, the
  checks on every answer, and the report. A run is a function of what the outside gives it: the
  answers in the order their samples arrive, those of the monitor and those of the settlement
  loop. Times are nanoseconds, from which the report's floats are computed. The library that
  parses the URL and the address, and \<open>json.Unmarshal\<close> of a reply, are arguments.
\<close>

section \<open>The checks before a run\<close>

record load_config =
  lc_baseURL :: string
  lc_token :: string
  lc_requests :: int
  lc_concurrency :: int
  lc_timeout :: int64
  lc_allowWrites :: bool

record url =
  url_scheme :: string
  url_has_user :: bool
  url_raw_query :: string
  url_fragment :: string
  url_path :: string
  url_opaque :: string
  url_hostname :: string

record load_lib =
  lib_parse_url :: "string \<Rightarrow> url option"
  lib_parse_addr :: "string \<Rightarrow> (bool \<times> string) option"  \<comment> \<open>whether it is loopback, and its zone\<close>
  lib_unmarshal_event :: "string \<Rightarrow> event option"
  lib_unmarshal_summary :: "string \<Rightarrow> summary option"

definition plain_origin :: "url \<Rightarrow> bool" where
  "plain_origin u \<longleftrightarrow> url_scheme u = ''http'' \<and> \<not> url_has_user u \<and> url_raw_query u = [] \<and>
     url_fragment u = [] \<and> url_path u = [] \<and> url_opaque u = []"

definition load_validate :: "load_lib \<Rightarrow> load_config \<Rightarrow> go_error option" where
  "load_validate lib cfg =
     (case lib_parse_url lib (lc_baseURL cfg) of
        None \<Rightarrow> Some (New ''URL must be a plain HTTP loopback origin without credentials, path, query, or fragment'')
      | Some u \<Rightarrow>
     (if \<not> plain_origin u
      then Some (New ''URL must be a plain HTTP loopback origin without credentials, path, query, or fragment'')
      else case lib_parse_addr lib (url_hostname u) of
        None \<Rightarrow> Some (New ''only numeric loopback addresses are permitted'')
      | Some (loopback, zone) \<Rightarrow>
     (if \<not> loopback \<or> zone \<noteq> [] then Some (New ''only numeric loopback addresses are permitted'')
      else if \<not> lc_allowWrites cfg
      then Some (New ''-allow-demo-writes is required; use only a disposable demo database'')
      else if lc_requests cfg < 1 \<or> lc_requests cfg > 10000 \<or> lc_concurrency cfg < 1 \<or> lc_concurrency cfg > 32 \<or>
        sint (lc_timeout cfg) < 1000000000 \<or> sint (lc_timeout cfg) > 300000000000
      then Some (New ''request count, concurrency, or timeout outside safe bounds'')
      else if length (lc_token cfg) < 32 \<or> length (lc_token cfg) > 4096
      then Some (New ''BILLING_API_TOKEN must contain 32..4096 printable ASCII bytes'')
      else if list_ex token_byte_bad (lc_token cfg)
      then Some (New ''BILLING_API_TOKEN must contain printable ASCII without whitespace'')
      else None)))"

section \<open>Requests and their answers\<close>

text \<open>What a request meets; the body is what can be read of it before a fault.\<close>

datatype http_answer = NotBuilt | NoResponse | Response int string bool bool

definition load_request :: "(string \<Rightarrow> 'a option) \<Rightarrow> int \<Rightarrow> http_answer \<Rightarrow> go_error + 'a" where
  "load_request unmarshal want answer =
     (case answer of
        NotBuilt \<Rightarrow> Inl (New ''cannot build request'')
      | NoResponse \<Rightarrow> Inl (New ''HTTP request failed'')
      | Response status body fault close_fault \<Rightarrow>
          (if fault \<or> length body > 16 * 1024 \<or> status \<noteq> want
           then Inl (New ''unexpected HTTP response'')
           else case unmarshal body of
             None \<Rightarrow> Inl (New ''invalid JSON response'')
           | Some v \<Rightarrow> (if close_fault then Inl (New ''cannot close HTTP response'') else Inr v)))"

definition load_accept :: "load_lib \<Rightarrow> input \<Rightarrow> http_answer \<Rightarrow> go_error option" where
  "load_accept lib inp answer =
     (case load_request (lib_unmarshal_event lib) 202 answer of
        Inl err \<Rightarrow> Some err
      | Inr event \<Rightarrow>
          (if Input event \<noteq> inp \<or> Currency event \<noteq> ''USD'' \<or> UnitPriceMicros event \<noteq> 1000 \<or> AmountMicros event \<noteq> 1000
           then Some (New ''unexpected event response; use the default demo price'') else None))"

definition load_summary :: "load_lib \<Rightarrow> string \<Rightarrow> http_answer \<Rightarrow> go_error + summary" where
  "load_summary lib customer answer =
     (case load_request (lib_unmarshal_summary lib) 200 answer of
        Inl err \<Rightarrow> Inl err
      | Inr v \<Rightarrow>
          (if sm_CustomerID v \<noteq> customer \<or> sm_Currency v \<noteq> ''USD'' \<or> sm_Pending v < 0 \<or> sm_Processed v < 0
           then Inl (New ''invalid summary'') else Inr v))"

section \<open>The report\<close>

record load_report =
  rep_requests :: int
  rep_concurrency :: int
  rep_attempted :: nat
  rep_accepted :: nat
  rep_errors :: nat
  rep_unattempted :: int
  rep_latencies :: "int list"
  rep_p95 :: int
  rep_p99 :: int
  rep_samples :: "(int \<times> int \<times> int) list"   \<comment> \<open>elapsed, pending, processed\<close>
  rep_sample_errors :: nat
  rep_max_pending :: int
  rep_settled :: bool
  rep_final :: "summary option"

definition load_observe :: "summary \<Rightarrow> int \<Rightarrow> load_report \<Rightarrow> load_report" where
  "load_observe v elapsed rep =
     rep\<lparr>rep_samples := rep_samples rep @ [(elapsed, sm_Pending v, sm_Processed v)],
         rep_max_pending := max (rep_max_pending rep) (sm_Pending v)\<rparr>"

text \<open>
  Nearest-rank percentile. The rank \<open>math.Ceil(q * n)\<close> is that of the exact product: the float64
  of 0.95 and of 0.99 lies just below the fraction, so a whole product is never rounded up past
  itself, and any other is farther from a whole number than the rounding error.
\<close>

definition percentile :: "int list \<Rightarrow> nat \<Rightarrow> int" where
  "percentile vs hundredths =
     (if vs = [] then 0 else sort vs ! ((hundredths * length vs + 99) div 100 - 1))"

section \<open>The clients\<close>

text \<open>The indices client \<open>w\<close> sends, in its order, and its inputs.\<close>

function client_from :: "nat \<Rightarrow> nat \<Rightarrow> nat \<Rightarrow> nat list" where
  "client_from c n i = (if i < n \<and> 0 < c then i # client_from c n (i + c) else [])"
  by pat_completeness auto
termination
  by (relation "measure (\<lambda>(c, n, i). n - i)") auto

declare client_from.simps [simp del]

definition load_prefix :: "byte list \<Rightarrow> string" where
  "load_prefix nonce = ''load_'' @ hex_encode nonce"

definition load_input :: "string \<Rightarrow> nat \<Rightarrow> input" where
  "load_input pfx i = \<lparr>EventID = pfx @ ''_'' @ show_nat i, CustomerID = pfx, Meter = ''api_calls'', Units = 1\<rparr>"

text \<open>A sample as it arrives: the index, the answer of its request and how long it took.\<close>

type_synonym arrival = "nat \<times> http_answer \<times> int"

text \<open>Each client stops early or sends all of its own; the channel interleaves them.\<close>

definition interleaved :: "nat \<Rightarrow> nat \<Rightarrow> nat list \<Rightarrow> bool" where
  "interleaved c n is \<longleftrightarrow> set is \<subseteq> {..<n} \<and>
     (\<forall>w < c. Sublist.prefix (filter (\<lambda>i. i mod c = w) is) (client_from c n w))"

definition record_sample :: "load_lib \<Rightarrow> string \<Rightarrow> arrival \<Rightarrow> load_report \<Rightarrow> load_report" where
  "record_sample lib pfx a rep =
     (case a of (i, answer, ns) \<Rightarrow>
        (let rep = rep\<lparr>rep_attempted := rep_attempted rep + 1\<rparr> in
         if load_accept lib (load_input pfx i) answer = None
         then rep\<lparr>rep_accepted := rep_accepted rep + 1, rep_latencies := rep_latencies rep @ [ns]\<rparr>
         else rep\<lparr>rep_errors := rep_errors rep + 1\<rparr>))"

section \<open>A run\<close>

text \<open>The monitor: a tick's answer, the time, and whether the context has ended after it.\<close>

fun load_monitor :: "load_lib \<Rightarrow> string \<Rightarrow> (http_answer \<times> int \<times> bool) list \<Rightarrow> load_report \<Rightarrow> load_report" where
  "load_monitor lib customer [] rep = rep"
| "load_monitor lib customer ((answer, ns, ended) # ts) rep =
     (if ended then rep
      else case load_summary lib customer answer of
        Inl err \<Rightarrow> load_monitor lib customer ts (rep\<lparr>rep_sample_errors := rep_sample_errors rep + 1\<rparr>)
      | Inr v \<Rightarrow> load_monitor lib customer ts (load_observe v ns rep))"

definition settled :: "int \<Rightarrow> summary \<Rightarrow> bool" where
  "settled requests v \<longleftrightarrow> sm_Pending v = 0 \<and> sm_Processed v = requests \<and>
     sm_Units v = show_int requests \<and> sm_AmountMicros v = show_int (requests * 1000)"

text \<open>The settlement loop; the list ends where the context does.\<close>

fun load_drain :: "load_lib \<Rightarrow> string \<Rightarrow> (http_answer \<times> int) list \<Rightarrow> load_report \<Rightarrow> load_report" where
  "load_drain lib customer [] rep = rep"
| "load_drain lib customer ((answer, ns) # ts) rep =
     (case load_summary lib customer answer of
        Inl err \<Rightarrow> rep\<lparr>rep_sample_errors := rep_sample_errors rep + 1\<rparr>
      | Inr v \<Rightarrow>
          (let rep = (load_observe v ns rep)\<lparr>rep_final := Some v\<rparr> in
           if settled (rep_requests rep) v then rep\<lparr>rep_settled := True\<rparr>
           else load_drain lib customer ts rep))"

definition empty_report :: "int \<Rightarrow> int \<Rightarrow> load_report" where
  "empty_report requests concurrency =
     \<lparr>rep_requests = requests, rep_concurrency = concurrency, rep_attempted = 0, rep_accepted = 0, rep_errors = 0,
      rep_unattempted = requests, rep_latencies = [], rep_p95 = 0, rep_p99 = 0, rep_samples = [],
      rep_sample_errors = 0, rep_max_pending = 0, rep_settled = False, rep_final = None\<rparr>"

record load_world =
  lw_nonce :: "byte list option"
  lw_probe :: http_answer
  lw_arrivals :: "arrival list"
  lw_monitor :: "(http_answer \<times> int \<times> bool) list"
  lw_drain :: "(http_answer \<times> int) list"

definition load_run :: "load_lib \<Rightarrow> load_config \<Rightarrow> load_world \<Rightarrow> load_report \<times> go_error option" where
  "load_run lib cfg w =
     (let out = empty_report (lc_requests cfg) (lc_concurrency cfg) in
      case load_validate lib cfg of
        Some err \<Rightarrow> (out, Some err)
      | None \<Rightarrow>
     (case lw_nonce w of
        None \<Rightarrow> (out, Some (New ''cannot generate run identifier''))
      | Some nonce \<Rightarrow>
     (let pfx = load_prefix nonce in
      case load_summary lib pfx (lw_probe w) of
        Inl err \<Rightarrow> (out, Some err)
      | Inr v \<Rightarrow>
     (let out = fold (record_sample lib pfx) (lw_arrivals w) out;
          observed = load_monitor lib pfx (lw_monitor w) (empty_report 0 0);
          out = out\<lparr>rep_samples := rep_samples observed, rep_sample_errors := rep_sample_errors observed,
                    rep_max_pending := rep_max_pending observed,
                    rep_unattempted := lc_requests cfg - int (rep_attempted out),
                    rep_p95 := percentile (rep_latencies out) 95, rep_p99 := percentile (rep_latencies out) 99\<rparr>;
          out = load_drain lib pfx (lw_drain w) out
      in (out, if rep_errors out \<noteq> 0 \<or> rep_unattempted out \<noteq> 0 \<or> rep_sample_errors out \<noteq> 0 \<or> \<not> rep_settled out
               then Some (New ''load or settlement failed'') else None)))))"

section \<open>What a run without an error shows\<close>

lemma fold_record_sample:
  "rep_attempted (fold (record_sample lib pfx) as rep) = rep_attempted rep + length as \<and>
   rep_errors (fold (record_sample lib pfx) as rep) =
     rep_errors rep + length (filter (\<lambda>(i, a, t). load_accept lib (load_input pfx i) a \<noteq> None) as) \<and>
   rep_accepted (fold (record_sample lib pfx) as rep) =
     rep_accepted rep + length (filter (\<lambda>(i, a, t). load_accept lib (load_input pfx i) a = None) as) \<and>
   rep_requests (fold (record_sample lib pfx) as rep) = rep_requests rep \<and>
   rep_concurrency (fold (record_sample lib pfx) as rep) = rep_concurrency rep \<and>
   rep_settled (fold (record_sample lib pfx) as rep) = rep_settled rep \<and>
   rep_latencies (fold (record_sample lib pfx) as rep) = rep_latencies rep @
     map (snd \<circ> snd) (filter (\<lambda>(i, a, t). load_accept lib (load_input pfx i) a = None) as)"
proof (induction as arbitrary: rep)
  case (Cons a as)
  obtain i answer ns where a: "a = (i, answer, ns)" by (metis prod_cases3)
  note one = record_sample_def [of lib pfx "(i, answer, ns)" rep]
  show ?case
  proof (cases "load_accept lib (load_input pfx i) answer = None")
    case True
    then show ?thesis by (simp add: Cons.IH one a Let_def)
  next
    case False
    then show ?thesis by (simp add: Cons.IH one a Let_def)
  qed
qed simp

lemma load_drain_settled:
  "\<not> rep_settled rep \<Longrightarrow> rep_settled (load_drain lib c ds rep) \<Longrightarrow>
   \<exists>v. rep_final (load_drain lib c ds rep) = Some v \<and> settled (rep_requests rep) v"
  by (induction lib c ds rep rule: load_drain.induct)
    (auto simp: load_observe_def Let_def split: sum.splits if_splits)

lemma load_drain_counts:
  "rep_errors (load_drain lib c ds rep) = rep_errors rep \<and> rep_unattempted (load_drain lib c ds rep) = rep_unattempted rep \<and>
   rep_p95 (load_drain lib c ds rep) = rep_p95 rep \<and> rep_p99 (load_drain lib c ds rep) = rep_p99 rep \<and>
   rep_latencies (load_drain lib c ds rep) = rep_latencies rep \<and>
   rep_requests (load_drain lib c ds rep) = rep_requests rep \<and> rep_concurrency (load_drain lib c ds rep) = rep_concurrency rep"
  by (induction lib c ds rep rule: load_drain.induct)
    (auto simp: load_observe_def Let_def split: sum.splits)

text \<open>The clients divide the indices: every one is sent by one client, once.\<close>

lemma client_from_props:
  "distinct (client_from c n i) \<and> set (client_from c n i) \<subseteq> {i..<n}"
proof (induction c n i rule: client_from.induct)
  case (1 c n i)
  then show ?case by (subst (1 2) client_from.simps) fastforce
qed

lemma distinct_classes:
  "0 < c \<Longrightarrow> (\<And>w. w < c \<Longrightarrow> distinct (filter (\<lambda>i. i mod c = w) is)) \<Longrightarrow> distinct (is :: nat list)"
proof (induction "is")
  case (Cons x xs)
  have "x \<notin> set xs" using Cons.prems(2) [of "x mod c"] Cons.prems(1) by auto
  moreover have "distinct (filter (\<lambda>i. i mod c = w) xs)" if "w < c" for w
    using Cons.prems(2) [OF that] by (auto split: if_splits)
  ultimately show ?case using Cons by simp
qed simp

lemma interleaved_complete:
  assumes "interleaved c n is" and "0 < c" and "length is = n"
  shows "mset is = mset [0..<n]"
proof -
  from assms(1) have range: "set is \<subseteq> {..<n}"
    and own: "\<And>w. w < c \<Longrightarrow> Sublist.prefix (filter (\<lambda>i. i mod c = w) is) (client_from c n w)"
    unfolding interleaved_def by blast+
  have "distinct (filter (\<lambda>i. i mod c = w) is)" if w: "w < c" for w
  proof -
    from own [OF w] obtain rest where "client_from c n w = filter (\<lambda>i. i mod c = w) is @ rest"
      by (elim Sublist.prefixE)
    moreover have "distinct (client_from c n w)" using client_from_props [of c n w] by blast
    ultimately show ?thesis by simp
  qed
  with assms(2) have d: "distinct is" by (rule distinct_classes)
  have "card (set is) = n" using distinct_card [OF d] assms(3) by simp
  with range have "set is = {..<n}" by (intro card_subset_eq) simp_all
  then have "set is = set [0..<n]" by (simp add: atLeast0LessThan)
  with d show ?thesis by (simp only: set_eq_iff_mset_eq_distinct [of "is" "[0..<n]", OF _ distinct_upt])
qed

text \<open>The percentile is a nearest rank: so many values are at most it, and fewer are below it.\<close>

lemma length_filter_split:
  "length (filter P s) = length (filter P (take n s)) + length (filter P (drop n s))"
  by (metis append_take_drop_id filter_append length_append)

lemma filter_le_sorted:
  assumes "sorted (s :: int list)" and "k < length s"
  shows "Suc k \<le> length (filter (\<lambda>x. x \<le> s ! k) s)" and "length (filter (\<lambda>x. x < s ! k) s) \<le> k"
proof -
  have at_most: "x \<le> s ! k" if "x \<in> set (take (Suc k) s)" for x
  proof -
    from that obtain j where "j < Suc k" "x = s ! j" using assms(2) by (auto simp: in_set_conv_nth)
    then show ?thesis using sorted_nth_mono [OF assms(1), of j k] assms(2) by simp
  qed
  have at_least: "s ! k \<le> x" if "x \<in> set (drop k s)" for x
  proof -
    from that obtain j where "j < length s - k" "x = s ! (k + j)" by (auto simp: in_set_conv_nth)
    then show ?thesis using sorted_nth_mono [OF assms(1), of k "k + j"] by simp
  qed
  note length_filter_split [of "\<lambda>x. x \<le> s ! k" s "Suc k"]
  moreover have "filter (\<lambda>x. x \<le> s ! k) (take (Suc k) s) = take (Suc k) s"
    by (rule filter_True) (use at_most in blast)
  ultimately show "Suc k \<le> length (filter (\<lambda>x. x \<le> s ! k) s)" using assms(2) by simp
  note length_filter_split [of "\<lambda>x. x < s ! k" s k]
  moreover have "filter (\<lambda>x. x < s ! k) (drop k s) = []"
    by (rule filter_False) (use at_least in fastforce)
  moreover have "length (filter (\<lambda>x. x < s ! k) (take k s)) \<le> length (take k s)" by (rule length_filter_le)
  ultimately show "length (filter (\<lambda>x. x < s ! k) s) \<le> k" by simp
qed

lemma length_filter_sort: "length (filter P (sort vs)) = length (filter P (vs :: int list))"
  by (metis mset_filter mset_sort size_mset)

lemma percentile_rank:
  assumes "vs \<noteq> []" and "0 < q" and "q \<le> 100"
  shows "percentile vs q \<in> set vs \<and> q * length vs \<le> 100 * length (filter (\<lambda>x. x \<le> percentile vs q) vs) \<and>
    100 * length (filter (\<lambda>x. x < percentile vs q) vs) < q * length vs"
proof -
  let ?n = "length vs"
  define r where "r = (q * ?n + 99) div 100"
  have n: "0 < ?n" using assms(1) by simp
  have le: "q * ?n \<le> 100 * ?n" using assms(3) by simp
  have pos: "1 \<le> q * ?n" using n assms(2) by (simp add: Suc_leI)
  have r: "1 \<le> r" "r \<le> ?n" "q * ?n \<le> 100 * r" "100 * (r - 1) < q * ?n"
    using le pos unfolding r_def by linarith+
  have p: "percentile vs q = sort vs ! (r - 1)" using assms(1) by (simp add: percentile_def r_def)
  have k: "r - 1 < length (sort vs)" using r by simp
  note ranks = filter_le_sorted [OF sorted_sort k, folded p, unfolded length_filter_sort]
  have "percentile vs q \<in> set vs" using k p by (metis nth_mem set_sort)
  moreover have "100 * r \<le> 100 * length (filter (\<lambda>x. x \<le> percentile vs q) vs)" using ranks(1) r(1) by simp
  moreover have "100 * length (filter (\<lambda>x. x < percentile vs q) vs) \<le> 100 * (r - 1)" using ranks(2) by simp
  ultimately show ?thesis using r(3,4) by linarith
qed

lemma load_accept_None:
  "load_accept lib inp answer = None \<Longrightarrow>
   \<exists>event. load_request (lib_unmarshal_event lib) 202 answer = Inr event \<and> Input event = inp \<and>
     AmountMicros event = 1000"
  by (auto simp: load_accept_def split: sum.splits if_splits)

lemma load_run_sizes:
  assumes "load_run lib cfg w = (rep, err)"
  shows "rep_requests rep = lc_requests cfg \<and> rep_concurrency rep = lc_concurrency cfg"
  using assms fold_record_sample load_drain_counts
  by (auto simp: load_run_def Let_def empty_report_def split: option.splits sum.splits)

lemma load_run_success:
  assumes run: "load_run lib cfg w = (rep, None)"
    and clients: "interleaved (nat (lc_concurrency cfg)) (nat (lc_requests cfg)) (map fst (lw_arrivals w))"
  obtains nonce v where "lw_nonce w = Some nonce"
    "mset (map fst (lw_arrivals w)) = mset [0..<nat (lc_requests cfg)]"
    "\<forall>(i, answer, ns)\<in>set (lw_arrivals w). load_accept lib (load_input (load_prefix nonce) i) answer = None"
    "rep_final rep = Some v" "settled (lc_requests cfg) v"
    "rep_latencies rep = map (snd \<circ> snd) (lw_arrivals w)" "rep_p95 rep = percentile (rep_latencies rep) 95"
    "rep_p99 rep = percentile (rep_latencies rep) 99"
proof -
  from run have v: "load_validate lib cfg = None" by (auto simp: load_run_def Let_def split: option.splits)
  then have bounds: "1 \<le> lc_requests cfg" "1 \<le> lc_concurrency cfg"
    by (auto simp: load_validate_def split: option.splits prod.splits if_splits)
  from run v obtain nonce probe where n: "lw_nonce w = Some nonce"
    "load_summary lib (load_prefix nonce) (lw_probe w) = Inr probe"
    by (auto simp: load_run_def Let_def split: option.splits sum.splits)
  let ?p = "load_prefix nonce"
  define out0 where "out0 = fold (record_sample lib ?p) (lw_arrivals w) (empty_report (lc_requests cfg) (lc_concurrency cfg))"
  define obs where "obs = load_monitor lib ?p (lw_monitor w) (empty_report 0 0)"
  define out1 where "out1 = out0\<lparr>rep_samples := rep_samples obs, rep_sample_errors := rep_sample_errors obs,
      rep_max_pending := rep_max_pending obs, rep_unattempted := lc_requests cfg - int (rep_attempted out0),
      rep_p95 := percentile (rep_latencies out0) 95, rep_p99 := percentile (rep_latencies out0) 99\<rparr>"
  have rep: "rep = load_drain lib ?p (lw_drain w) out1" "rep_errors rep = 0" "rep_unattempted rep = 0" "rep_settled rep"
    using run v n unfolding load_run_def
    by (auto simp: Let_def out0_def [symmetric] obs_def [symmetric] out1_def [symmetric] split: if_splits)
  note f = fold_record_sample [of lib ?p "lw_arrivals w" "empty_report (lc_requests cfg) (lc_concurrency cfg)", folded out0_def]
  have out1: "\<not> rep_settled out1" "rep_requests out1 = lc_requests cfg" "rep_errors out1 = rep_errors out0"
    "rep_unattempted out1 = lc_requests cfg - int (rep_attempted out0)" "rep_latencies out1 = rep_latencies out0"
    "rep_p95 out1 = percentile (rep_latencies out0) 95" "rep_p99 out1 = percentile (rep_latencies out0) 99"
    using f by (simp_all add: out1_def empty_report_def)
  note d = load_drain_counts [of lib ?p "lw_drain w" out1, folded rep(1)]
  from d out1 rep(2,3) f have "int (length (lw_arrivals w)) = lc_requests cfg"
    and none: "filter (\<lambda>(i, a, t). load_accept lib (load_input ?p i) a \<noteq> None) (lw_arrivals w) = []"
    by (simp_all add: empty_report_def)
  then have len: "length (map fst (lw_arrivals w)) = nat (lc_requests cfg)" by simp
  have all: "\<forall>(i, answer, ns)\<in>set (lw_arrivals w). load_accept lib (load_input ?p i) answer = None"
    using none by (auto simp: filter_empty_conv)
  then have "filter (\<lambda>(i, a, t). load_accept lib (load_input ?p i) a = None) (lw_arrivals w) = lw_arrivals w"
    by (auto simp: filter_id_conv)
  with f have lat: "rep_latencies out0 = map (snd \<circ> snd) (lw_arrivals w)" by (simp add: empty_report_def)
  have "0 < nat (lc_concurrency cfg)" using bounds by simp
  from interleaved_complete [OF clients this len]
  have "mset (map fst (lw_arrivals w)) = mset [0..<nat (lc_requests cfg)]" .
  moreover obtain v where "rep_final rep = Some v" "settled (lc_requests cfg) v"
    using load_drain_settled [OF out1(1), of lib ?p "lw_drain w"] rep(1,4) out1(2) by auto
  ultimately show thesis
    using n(1) all d out1 lat by (intro that) auto
qed

section \<open>When a run has no error\<close>

lemma load_monitor_good:
  "\<forall>(answer, ns, ended)\<in>set ts. \<not> isl (load_summary lib c answer) \<Longrightarrow>
   rep_sample_errors (load_monitor lib c ts rep) = rep_sample_errors rep"
  by (induction lib c ts rep rule: load_monitor.induct) (auto simp: load_observe_def split: sum.splits)

lemma load_drain_good:
  "\<forall>(answer, ns)\<in>set ds. \<not> isl (load_summary lib c answer) \<Longrightarrow> load_summary lib c answer = Inr v \<Longrightarrow>
   settled (rep_requests rep) v \<Longrightarrow>
   rep_settled (load_drain lib c (ds @ [(answer, ns)]) rep) \<and>
   rep_sample_errors (load_drain lib c (ds @ [(answer, ns)]) rep) = rep_sample_errors rep"
  by (induction lib c ds rep rule: load_drain.induct) (auto simp: load_observe_def Let_def split: sum.splits)

lemma load_run_passes:
  assumes "load_validate lib cfg = None" and "lw_nonce w = Some nonce" and "pfx = load_prefix nonce"
    and probe: "\<not> isl (load_summary lib pfx (lw_probe w))"
    and arrivals: "int (length (lw_arrivals w)) = lc_requests cfg"
      "\<forall>(i, answer, ns)\<in>set (lw_arrivals w). load_accept lib (load_input pfx i) answer = None"
    and monitor: "\<forall>(answer, ns, ended)\<in>set (lw_monitor w). \<not> isl (load_summary lib pfx answer)"
    and drain: "lw_drain w = ds @ [(answer, ns)]" "\<forall>(answer, ns)\<in>set ds. \<not> isl (load_summary lib pfx answer)"
      "load_summary lib pfx answer = Inr v" "settled (lc_requests cfg) v"
  shows "\<exists>rep. load_run lib cfg w = (rep, None)"
proof -
  from probe obtain v0 where v0: "load_summary lib pfx (lw_probe w) = Inr v0"
    by (cases "load_summary lib pfx (lw_probe w)") simp_all
  define out0 where "out0 = fold (record_sample lib pfx) (lw_arrivals w) (empty_report (lc_requests cfg) (lc_concurrency cfg))"
  define obs where "obs = load_monitor lib pfx (lw_monitor w) (empty_report 0 0)"
  define out1 where "out1 = out0\<lparr>rep_samples := rep_samples obs, rep_sample_errors := rep_sample_errors obs,
      rep_max_pending := rep_max_pending obs, rep_unattempted := lc_requests cfg - int (rep_attempted out0),
      rep_p95 := percentile (rep_latencies out0) 95, rep_p99 := percentile (rep_latencies out0) 99\<rparr>"
  define out2 where "out2 = load_drain lib pfx (lw_drain w) out1"
  have "filter (\<lambda>(i, a, t). load_accept lib (load_input pfx i) a \<noteq> None) (lw_arrivals w) = []"
    using arrivals(2) by (auto simp: filter_empty_conv)
  with fold_record_sample [of lib pfx "lw_arrivals w" "empty_report (lc_requests cfg) (lc_concurrency cfg)", folded out0_def] arrivals(1)
  have out1: "rep_errors out1 = 0" "rep_unattempted out1 = 0" "rep_requests out1 = lc_requests cfg"
    by (simp_all add: out1_def empty_report_def)
  have "rep_sample_errors out1 = 0"
    using load_monitor_good [OF monitor, of "empty_report 0 0"] by (simp add: out1_def obs_def empty_report_def)
  with load_drain_good [OF drain(2,3), of out1 ns] drain(1,4) out1(3) load_drain_counts [of lib pfx "lw_drain w" out1] out1
  have "rep_errors out2 = 0 \<and> rep_unattempted out2 = 0 \<and> rep_sample_errors out2 = 0 \<and> rep_settled out2"
    by (simp add: out2_def)
  moreover have "load_run lib cfg w = (out2, if rep_errors out2 \<noteq> 0 \<or> rep_unattempted out2 \<noteq> 0 \<or>
      rep_sample_errors out2 \<noteq> 0 \<or> \<not> rep_settled out2 then Some (New ''load or settlement failed'') else None)"
    using assms(1-3) v0 unfolding load_run_def out2_def out1_def obs_def out0_def by (simp add: Let_def)
  ultimately show ?thesis by simp
qed

end
