(* ===== verification/System_Run.thy ===== *)
theory System_Run
  imports System_Requests Service_Main
begin

text \<open>
  Runs of the whole service: requests and wake-ups of the worker's loop in any order, each with
  what the database and the clients do during it. A request or an attempt is one step here; what
  interleaves inside them is in \<open>Admission\<close>. Every run is a run of the store's operations, so
  what holds of those holds of the service, and the answers given on the way stay true.
\<close>

section \<open>The running service\<close>

text \<open>
  The handler and the worker's loop over the shared state, as \<open>serve\<close> runs them: the loop's own
  variables, whether it still waits in its \<open>select\<close>, and the answers given so far.
\<close>

record live =
  lv_handler :: "(pg_env, system) handler"
  lv_system :: system
  lv_delay :: int64
  lv_log :: "worker_log list"
  lv_timers :: "int64 list"
  lv_waiting :: bool
  lv_answers :: "(request \<times> reply) list"

definition loop_of :: "live \<Rightarrow> db loop" where
  "loop_of s = \<lparr>lp_delay = lv_delay s, lp_stats = sys_worker (lv_system s), lp_log = lv_log s,
     lp_timers = lv_timers s, lp_store = sys_db (lv_system s)\<rparr>"

definition put_loop :: "db loop \<Rightarrow> live \<Rightarrow> live" where
  "put_loop lp s = s\<lparr>lv_delay := lp_delay lp, lv_log := lp_log lp, lv_timers := lp_timers lp,
     lv_system := (lv_system s)\<lparr>sys_worker := lp_stats lp, sys_db := lp_store lp\<rparr>\<rparr>"

datatype action =
    Request "byte list" int bool "pg_env ctx" request
  | Wakes "pg_env wake"

text \<open>A panic of the handler ends its request only: \<open>net/http\<close> recovers it.\<close>

fun service_action :: "http_lib \<Rightarrow> int64 \<Rightarrow> int \<Rightarrow> action \<Rightarrow> live \<Rightarrow> live" where
  "service_action lib interval batch (Request raw ms broken c r) s =
     (case ServeHTTP lib (Some raw) ms broken (lv_handler s) c r (lv_system s) of
        Panic m \<Rightarrow> s
      | Return (rp, h, sys) \<Rightarrow> s\<lparr>lv_handler := h, lv_system := sys, lv_answers := lv_answers s @ [(r, rp)]\<rparr>)"
| "service_action lib interval batch (Wakes w) s =
     (if \<not> lv_waiting s then s
      else case worker_loop pg_processor interval batch [w] (loop_of s) of
        (ended, lp) \<Rightarrow> (put_loop (if ended then lp\<lparr>lp_stats := worker_stop (lp_stats lp)\<rparr> else lp) s)
           \<lparr>lv_waiting := \<not> ended\<rparr>)"

definition run_service :: "http_lib \<Rightarrow> int64 \<Rightarrow> int \<Rightarrow> action list \<Rightarrow> live \<Rightarrow> live" where
  "run_service lib interval batch = fold (service_action lib interval batch)"

text \<open>One wake-up at a time is the loop: nothing is lost by letting requests in between.\<close>

lemma worker_loop_append:
  "worker_loop p interval batch (ws @ ws') lp =
    (case worker_loop p interval batch ws lp of
       (True, lp') \<Rightarrow> (True, lp') | (False, lp') \<Rightarrow> worker_loop p interval batch ws' lp')"
  by (induction p interval batch ws lp rule: worker_loop.induct) (auto split: prod.splits bool.splits)

lemma loop_of_put [simp]: "loop_of (put_loop lp s) = lp"
  by (simp add: loop_of_def put_loop_def)

lemma loop_of_simps [simp]:
  "lp_stats (loop_of s) = sys_worker (lv_system s)" "lp_store (loop_of s) = sys_db (lv_system s)"
  "loop_of (s\<lparr>lv_waiting := b\<rparr>) = loop_of s"
  by (simp_all add: loop_of_def)

lemma put_loop_simps [simp]:
  "lv_handler (put_loop lp s) = lv_handler s" "lv_answers (put_loop lp s) = lv_answers s"
  "sys_db (lv_system (put_loop lp s)) = lp_store lp" "sys_worker (lv_system (put_loop lp s)) = lp_stats lp"
  by (simp_all add: put_loop_def)

section \<open>The operations behind a request\<close>

text \<open>What changes the tables during a request is at most one operation, and none posts to the ledger.\<close>

definition request_op :: "store \<Rightarrow> db \<Rightarrow> db \<Rightarrow> bool" where
  "request_op st d d' \<longleftrightarrow> d' = d \<or>
     (\<exists>env ev. d' = apply_op st (OpAccept env ev) d) \<or> (\<exists>env i g. d' = apply_op st (OpRetry env i g) d)"

lemma request_op_refl [simp]: "request_op st d d"
  by (simp add: request_op_def)

lemma request_op_run: "request_op st d d' \<Longrightarrow> \<exists>ops. length ops \<le> 1 \<and> d' = run_ops st ops d"
proof -
  have one: "run_ops st [x] d = apply_op st x d" "run_ops st [] d = d" for x
    by (simp_all add: run_ops_def)
  assume "request_op st d d'"
  then consider "d' = run_ops st [] d" | x where "d' = run_ops st [x] d"
    unfolding request_op_def one by blast
  then show ?thesis by cases (auto intro: exI [of _ "[]"] exI [of _ "[_]"])
qed

lemma request_op_ledger:
  assumes "request_op st d d'" and inv: "store_inv d"
  shows "ledger_entries d' = ledger_entries d"
proof -
  have acc: "ledger_entries (snd (store_Accept st env ev d)) = ledger_entries d" for env ev
  proof -
    obtain r d1 where run: "store_Accept st env ev d = (r, d1)" by fastforce
    from run inv show ?thesis by (cases rule: store_Accept_cases) (use run in \<open>auto simp: admitted_def\<close>)
  qed
  have "ledger_entries (snd (store_Retry env i g d)) = ledger_entries d" for env i g
  proof -
    obtain r d1 where run: "store_Retry env i g d = (r, d1)" by fastforce
    from run inv show ?thesis by (cases rule: store_Retry_cases) (use run in \<open>auto simp: reactivated_def\<close>)
  qed
  with acc assms(1) show ?thesis by (auto simp: request_op_def)
qed

lemma service_Accept_op:
  assumes "service_Accept (billing_service st rate) rand c inp d = Return (r, d')"
  shows "request_op st d d'"
proof -
  have op: "request_op st d d1" if "store_Accept st (ctx_env c) ev d = (a, d1)" for ev a d1
    unfolding request_op_def using that by (intro disjI2 disjI1 exI [of _ "ctx_env c"] exI [of _ ev]) simp
  from assms show ?thesis
    by (auto simp: service_Accept_def split: option.splits if_splits sum.splits go_outcome.splits prod.splits dest!: op)
qed

lemma service_Retry_op:
  assumes "service_Retry (billing_service st rate) c i g d = (r, d')"
  shows "request_op st d d'"
proof -
  have op: "request_op st' d d1" if "store_Retry (ctx_env c) i g d = (a, d1)" for st' a d1
    unfolding request_op_def using that by (intro disjI2 exI [of _ "ctx_env c"] exI [of _ i] exI [of _ g]) simp
  from assms show ?thesis
    by (auto simp: service_Retry_def split: option.splits if_splits sum.splits prod.splits dest!: op)
qed

lemma http_serve_op:
  assumes h: "serves_store st rate rand float_text h"
    and run: "http_serve lib h c r index i s rp = Return (w, s')"
  shows "request_op st (sys_db s) (sys_db s') \<and> sys_worker s' = sys_worker s"
proof (cases "serves_accept lib h r index")
  case True
  with run have "http_accept lib h c r s rp = Return (w, s')" by (simp add: serve_accept)
  then show ?thesis
    using h by (auto simp: http_accept_def serves_store_def api_of_def dest: service_Accept_op
      split: sum.splits go_outcome.splits prod.splits)
next
  case False
  have retry: "request_op st (sys_db s) (sys_db (snd (http_retry lib h c r i s rp))) \<and>
      sys_worker (snd (http_retry lib h c r i s rp)) = sys_worker s"
    using h by (auto simp: http_retry_def serves_store_def api_of_def dest!: service_Retry_op
      split: sum.splits prod.splits)
  have metrics: "sys_db (snd (http_metrics h c s rp)) = sys_db s \<and> sys_worker (snd (http_metrics h c s rp)) = sys_worker s"
    using h by (auto simp: http_metrics_def serves_store_def metrics_source_def Let_def case_prod_beta)
  from serve_other [OF False, of c i s rp] run retry metrics show ?thesis by auto
qed


section \<open>What an answer says of the store\<close>

text \<open>
  The answers that carry an event: 200 and 202 on the routes of an event. The event is the one
  kept under the identifier of the request, or for a POST the one with the posted input.
\<close>

definition event_answer :: "request \<Rightarrow> reply \<Rightarrow> bool" where
  "event_answer r rp \<longleftrightarrow> fst (route (rq_path r)) \<in> {3, 4, 7} \<and> rp_status rp \<in> {Some 200, Some 202}"

definition about_event :: "request \<Rightarrow> reply \<Rightarrow> event \<Rightarrow> bool" where
  "about_event r rp e \<longleftrightarrow> (rp_broken rp \<or> rp_body rp = Some (Json (event_json e))) \<and>
     (if fst (route (rq_path r)) = 3 then decodeInput (rq_body r) = Inr (Input e)
      else EventID (Input e) = snd (route (rq_path r)))"

lemma stored_key: "stored d i = Some e \<Longrightarrow> EventID (Input e) = i"
  by (auto simp: stored_def dest: usage_of_key)

lemma store_Retry_stored:
  assumes "store_inv d" and "store_Retry env i g d = (Inr (e, b), d')"
  shows "stored d' i = Some e"
  using assms(2,1)
proof (cases rule: store_Retry_cases)
  case (reactivated now p e')
  with stored_reactivated [OF assms(1) reactivated(3), of now] show ?thesis
    by (simp add: retryable_def)
qed simp_all

lemma service_Retry_stored:
  assumes "store_inv d" and "service_Retry (billing_service st rate) c i g d = (Inr (e, b), d')"
  shows "stored d' i = Some e"
  using assms(2) store_Retry_stored [OF assms(1), of "ctx_env c" i g e b d']
  by (auto simp: service_Retry_def split: option.splits if_splits sum.splits prod.splits)

lemma service_Accept_stored:
  assumes inv: "store_inv d" and rate: "0 < sint rate"
    and run: "service_Accept (billing_service st rate) rand c inp d = Return (Inr (e, b), d')"
  shows "stored d' (EventID inp) = Some e \<and> Input e = inp"
proof (cases b)
  case True
  with pg.Accept_created [OF inv, of "billing_service st rate" st rand c inp e d'] run rate
  show ?thesis by simp
next
  case False
  with pg.Accept_replayed [OF inv, of "billing_service st rate" st rand c inp e d'] run rate
  show ?thesis by simp
qed

text \<open>What is written for a failure is none of the two.\<close>

lemma writeJSON_event:
  assumes "writeJSON st0 (event_json e) rp = (status, rp')" and "status \<in> {200, 202}" and "st0 \<in> {200, 202}"
  shows "rp_broken rp' = rp_broken rp \<and> (rp_broken rp' \<or> rp_body rp' = Some (Json (event_json e)))"
proof (cases "marshal_ok (event_json e)")
  case True
  with assms(1) show ?thesis by (auto simp: writeJSON_def Let_def split: if_splits)
next
  case False
  have "status = fst (writeJSON st0 (event_json e) rp)" by (simp add: assms(1))
  with False assms(2) show ?thesis by (simp add: writeJSON_status)
qed

lemma fail_not_event: "fail st0 code rp = (status, rp') \<Longrightarrow> st0 \<notin> {200, 202} \<Longrightarrow> status \<notin> {200, 202}"
  using fail_status [of st0 code rp] by simp

lemma serviceError_not_event: "serviceError err rp = (status, rp') \<Longrightarrow> status \<notin> {200, 202}"
  by (auto simp: serviceError_def split: if_splits dest!: fail_not_event)

lemma readBody_not_event: "readBody lib r rp = Inl (status, rp') \<Longrightarrow> status \<notin> {200, 202}"
  by (auto simp: readBody_def split: if_splits dest!: fail_not_event)


lemma http_accept_event:
  assumes h: "h_service h = api_of (billing_service st rate) rand" and inv: "store_inv (sys_db s)" and rate: "0 < sint rate"
    and run: "http_accept lib h c r s rp = Return ((status, rp'), s')" and ok: "status \<in> {200, 202}"
  shows "\<exists>e. decodeInput (rq_body r) = Inr (Input e) \<and> stored (sys_db s') (EventID (Input e)) = Some e \<and>
    (rp_broken rp' \<or> rp_body rp' = Some (Json (event_json e)))"
proof -
  obtain data where data: "readBody lib r rp = Inr data"
    using run ok readBody_not_event [of lib r rp status rp'] by (cases "readBody lib r rp") (auto simp: http_accept_def)
  then have body: "data = rq_body r" by (auto simp: readBody_def split: if_splits)
  obtain inp where inp: "decodeInput data = Inr inp"
    using run ok data fail_not_event [of 400 "''invalid_json''" rp status rp']
    by (cases "decodeInput data") (auto simp: http_accept_def)
  obtain res d where acc: "service_Accept (billing_service st rate) rand c inp (sys_db s) = Return (res, d)"
    using run data inp by (cases "service_Accept (billing_service st rate) rand c inp (sys_db s)")
      (auto simp: http_accept_def h api_of_def)
  show ?thesis
  proof (cases res)
    case (Inl err)
    with run data inp acc have "serviceError err rp = (status, rp')" by (simp add: http_accept_def h api_of_def)
    with serviceError_not_event ok show ?thesis by blast
  next
    case (Inr x)
    obtain e b where x: "x = (e, b)" by fastforce
    with run data inp acc Inr have w: "writeJSON (if b then 202 else 200) (event_json e) rp = (status, rp')" "sys_db s' = d"
      by (auto simp: http_accept_def h api_of_def)
    have "(if b then 202 else 200 :: int) \<in> {200, 202}" by simp
    from writeJSON_event [OF w(1) ok this] have sent: "rp_broken rp' \<or> rp_body rp' = Some (Json (event_json e))" by blast
    from service_Accept_stored [OF inv rate acc [unfolded Inr x]] have "stored d (EventID inp) = Some e" "Input e = inp" by simp_all
    with sent inp w(2) body show ?thesis by auto
  qed
qed

lemma http_retry_event:
  assumes h: "h_service h = api_of (billing_service st rate) rand" and inv: "store_inv (sys_db s)"
    and run: "http_retry lib h c r i s rp = ((status, rp'), s')" and ok: "status \<in> {200, 202}"
  shows "\<exists>e. stored (sys_db s') i = Some e \<and> (rp_broken rp' \<or> rp_body rp' = Some (Json (event_json e)))"
proof -
  obtain data where data: "readBody lib r rp = Inr data"
    using run ok readBody_not_event [of lib r rp status rp'] by (cases "readBody lib r rp") (auto simp: http_retry_def)
  obtain g where g: "decodeRetry data = Inr g"
    using run ok data fail_not_event [of 400 "''invalid_json''" rp status rp']
    by (cases "decodeRetry data") (auto simp: http_retry_def)
  obtain res d where ret: "service_Retry (billing_service st rate) c i g (sys_db s) = (res, d)" by fastforce
  show ?thesis
  proof (cases res)
    case (Inl err)
    with run data g ret have "serviceError err rp = (status, rp')" by (simp add: http_retry_def h api_of_def)
    with serviceError_not_event ok show ?thesis by blast
  next
    case (Inr x)
    obtain e b where x: "x = (e, b)" by fastforce
    with run data g ret Inr have w: "writeJSON (if b then 202 else 200) (event_json e) rp = (status, rp')" "sys_db s' = d"
      by (auto simp: http_retry_def h api_of_def)
    have "(if b then 202 else 200 :: int) \<in> {200, 202}" by simp
    from writeJSON_event [OF w(1) ok this] service_Retry_stored [OF inv ret [unfolded Inr x]] w(2) show ?thesis by blast
  qed
qed

lemma service_Get_stored: "service_Get (billing_service st rate) c i d = Inr e \<Longrightarrow> stored d i = Some e"
  by (auto simp: service_Get_def split: option.splits sum.splits dest: store_Get_Inr)

text \<open>The request that is answered so has passed every check before the route's own.\<close>

lemma serve_event_route:
  assumes run: "http_serve lib h c r index i s rp = Return ((status, rp'), s')" and ok: "status \<in> {200, 202}"
    and index: "index \<in> {3, 4, 7}"
  shows "(index = 3 \<longrightarrow> http_accept lib h c r s rp = Return ((status, rp'), s')) \<and>
    (index = 7 \<longrightarrow> http_retry lib h c r i s rp = ((status, rp'), s')) \<and>
    (index = 4 \<longrightarrow> s' = s \<and> (\<exists>e. as_Get (h_service h) c i s = Inr e \<and> writeJSON 200 (event_json e) rp = (status, rp')))"
proof -
  have auth: "authorized lib h r"
    using run ok index fail_not_event [of 401 "''unauthorized''" "set_header ''WWW-Authenticate'' ''Bearer'' rp" status rp']
    by (auto simp: http_serve_def split: if_splits)
  have meth: "rq_method r = route_method index"
    using run ok index auth
      fail_not_event [of 405 "''method_not_allowed''" "set_header ''Allow'' (route_method index) rp" status rp']
    by (auto simp: http_serve_def split: if_splits)
  have "as_Get (h_service h) c i s = Inl err \<Longrightarrow> index = 4 \<Longrightarrow> serviceError err rp = (status, rp')" for err
    using run auth meth by (simp add: http_serve_def)
  then have get: "\<exists>e. as_Get (h_service h) c i s = Inr e" if "index = 4"
    using serviceError_not_event ok that by (cases "as_Get (h_service h) c i s") blast+
  show ?thesis
    using run auth meth index get by (auto simp: http_serve_def)
qed

lemma serve_event:
  assumes h: "serves_store st rate rand float_text h" and inv: "store_inv (sys_db s)" and rate: "0 < sint rate"
    and run: "http_serve lib h c r (fst (route (rq_path r))) (snd (route (rq_path r))) s rp = Return ((status, rp'), s')"
    and ok: "status \<in> {200, 202}" and index: "fst (route (rq_path r)) \<in> {3, 4, 7}"
  shows "\<exists>e. about_event r rp' e \<and> stored (sys_db s') (EventID (Input e)) = Some e"
proof -
  from h have sv: "h_service h = api_of (billing_service st rate) rand" by (simp add: serves_store_def)
  note parts = serve_event_route [OF run ok index]
  consider "fst (route (rq_path r)) = 3" | "fst (route (rq_path r)) = 4" | "fst (route (rq_path r)) = 7" using index by auto
  then show ?thesis
  proof cases
    case 1
    with parts have "http_accept lib h c r s rp = Return ((status, rp'), s')" by simp
    from http_accept_event [OF sv inv rate this ok] 1 show ?thesis by (auto simp: about_event_def)
  next
    case 2
    with parts obtain e where e: "s' = s" "as_Get (h_service h) c (snd (route (rq_path r))) s = Inr e"
      "writeJSON 200 (event_json e) rp = (status, rp')" by auto
    from e(2) have "stored (sys_db s) (snd (route (rq_path r))) = Some e"
      by (auto simp: sv api_of_def dest: service_Get_stored)
    with stored_key [OF this] writeJSON_event [OF e(3) ok] e(1) 2 show ?thesis by (auto simp: about_event_def)
  next
    case 3
    with parts have "http_retry lib h c r (snd (route (rq_path r))) s rp = ((status, rp'), s')" by simp
    from http_retry_event [OF sv inv this ok] 3 stored_key show ?thesis by (fastforce simp: about_event_def)
  qed
qed


section \<open>The request counters\<close>

definition request_total :: "uint64 list list \<Rightarrow> uint64" where
  "request_total t = sum_list (map sum_list t)"

lemma sum_list_list_update:
  "i < length xs \<Longrightarrow> sum_list (xs[i := y]) = sum_list xs - xs ! i + (y :: 'a :: ab_group_add)"
  by (induction xs arbitrary: i) (auto split: nat.splits simp: algebra_simps)

lemma request_total_count:
  assumes "counters_ok (h_requests h)" and "index < 8" and "st \<in> statuses"
  shows "request_total (h_requests (count_request index st h)) = request_total (h_requests h) + 1"
proof -
  let ?t = "h_requests h" and ?k = "nat (st div 100)"
  have idx: "index < length ?t" "?k < length (?t ! index)"
    using assms statuses_class [OF assms(3)] by (auto simp: counters_ok_def list_all_length)
  have "request_total (h_requests (count_request index st h)) =
      sum_list ((map sum_list ?t)[index := sum_list ((?t ! index)[?k := ?t ! index ! ?k + 1])])"
    by (simp add: request_total_def count_request_def map_update)
  also have "\<dots> = request_total ?t - sum_list (?t ! index) + sum_list ((?t ! index)[?k := ?t ! index ! ?k + 1])"
    using idx(1) by (simp add: sum_list_list_update request_total_def)
  also have "\<dots> = request_total ?t + 1"
    using idx(2) by (simp add: sum_list_list_update)
  finally show ?thesis .
qed

section \<open>Runs\<close>

text \<open>An answer that carried an event stays true: the event is kept, further along its life.\<close>

definition answer_kept :: "db \<Rightarrow> request \<times> reply \<Rightarrow> bool" where
  "answer_kept d a \<longleftrightarrow> (case a of (r, rp) \<Rightarrow> event_answer r rp \<longrightarrow>
     (\<exists>e e'. about_event r rp e \<and> stored d (EventID (Input e)) = Some e' \<and> event_step\<^sup>*\<^sup>* e e'))"

lemma answer_kept_advances: "advances d d' \<Longrightarrow> answer_kept d a \<Longrightarrow> answer_kept d' a"
  unfolding answer_kept_def advances_def by (auto split: prod.splits) (meson rtranclp_trans)+

definition service_ok :: "store \<Rightarrow> int64 \<Rightarrow> byte list option \<Rightarrow> (int \<Rightarrow> string) \<Rightarrow> live \<Rightarrow> bool" where
  "service_ok st rate rand float_text s \<longleftrightarrow> serves_store st rate rand float_text (lv_handler s) \<and> 0 < sint rate \<and>
     within_limit st (sys_db (lv_system s)) \<and> list_all (answer_kept (sys_db (lv_system s))) (lv_answers s)"

definition service_grows :: "store \<Rightarrow> live \<Rightarrow> live \<Rightarrow> bool" where
  "service_grows st s s' \<longleftrightarrow>
     (\<exists>ops. sys_db (lv_system s') = run_ops st ops (sys_db (lv_system s))) \<and>
     (\<exists>as. lv_answers s' = lv_answers s @ as \<and>
        request_total (h_requests (lv_handler s')) = request_total (h_requests (lv_handler s)) + of_nat (length as)) \<and>
     wk.accounts (loop_of s) (loop_of s')"

lemma run_ops_append: "run_ops st (xs @ ys) d = run_ops st ys (run_ops st xs d)"
  by (simp add: run_ops_def)

lemma run_ops_advances: "store_inv d \<Longrightarrow> advances d (run_ops st ops d)"
  unfolding run_ops_def by (rule ops.run_below)

lemma run_ops_within_limit: "within_limit st d \<Longrightarrow> within_limit st (run_ops st ops d)"
  unfolding run_ops_def by (rule limit.run_inv)

lemma service_grows_refl: "service_grows st s s"
proof -
  have "sys_db (lv_system s) = run_ops st [] (sys_db (lv_system s))" by (simp add: run_ops_def)
  then show ?thesis unfolding service_grows_def
    by (intro conjI wk.accounts_refl exI [of _ "[] :: (request \<times> reply) list"]) (blast | simp)+
qed

lemma service_grows_trans:
  assumes "service_grows st s t" and "service_grows st t u"
  shows "service_grows st s u"
proof -
  from assms obtain xs ys as bs where
    "sys_db (lv_system t) = run_ops st xs (sys_db (lv_system s))"
    "sys_db (lv_system u) = run_ops st ys (sys_db (lv_system t))"
    and as: "lv_answers t = lv_answers s @ as" "lv_answers u = lv_answers t @ bs"
      "request_total (h_requests (lv_handler t)) = request_total (h_requests (lv_handler s)) + of_nat (length as)"
      "request_total (h_requests (lv_handler u)) = request_total (h_requests (lv_handler t)) + of_nat (length bs)"
    and acc: "wk.accounts (loop_of s) (loop_of t)" "wk.accounts (loop_of t) (loop_of u)"
    unfolding service_grows_def by blast
  then have "sys_db (lv_system u) = run_ops st (xs @ ys) (sys_db (lv_system s))" by (simp add: run_ops_append)
  moreover have "lv_answers u = lv_answers s @ (as @ bs) \<and>
      request_total (h_requests (lv_handler u)) = request_total (h_requests (lv_handler s)) + of_nat (length (as @ bs))"
    using as by simp
  ultimately show ?thesis using wk.accounts_trans [OF acc] unfolding service_grows_def by blast
qed

text \<open>The invariant over any operations of the store and new answers that are true.\<close>

lemma service_ok_step:
  assumes ok: "service_ok st rate rand float_text s" and h: "serves_store st rate rand float_text (lv_handler s')"
    and db: "sys_db (lv_system s') = run_ops st ops (sys_db (lv_system s))"
    and answers: "lv_answers s' = lv_answers s @ as" and new: "list_all (answer_kept (sys_db (lv_system s'))) as"
  shows "service_ok st rate rand float_text s'"
proof -
  from ok have lim: "within_limit st (sys_db (lv_system s))"
    and kept: "list_all (answer_kept (sys_db (lv_system s))) (lv_answers s)" by (simp_all add: service_ok_def)
  have "advances (sys_db (lv_system s)) (sys_db (lv_system s'))"
    using lim run_ops_advances [of "sys_db (lv_system s)" st ops] by (simp add: db within_limit_def)
  from answer_kept_advances [OF this] kept
  have "list_all (answer_kept (sys_db (lv_system s'))) (lv_answers s)" by (auto simp: list_all_iff)
  moreover have "within_limit st (sys_db (lv_system s'))" unfolding db by (rule run_ops_within_limit [OF lim])
  ultimately show ?thesis using ok h answers new by (simp add: service_ok_def)
qed


text \<open>A request that is answered.\<close>

lemma request_answered:
  assumes ok: "service_ok st rate rand float_text s"
    and run: "ServeHTTP lib (Some raw) ms broken (lv_handler s) c r (lv_system s) = Return (rp, h, sys)"
  shows "serves_store st rate rand float_text h \<and> request_op st (sys_db (lv_system s)) (sys_db sys) \<and>
    sys_worker sys = sys_worker (lv_system s) \<and>
    request_total (h_requests h) = request_total (h_requests (lv_handler s)) + 1 \<and> answer_kept (sys_db sys) (r, rp)"
proof -
  let ?i = "fst (route (rq_path r))" and ?c = "WithContext c (hex_encode raw)"
  from ok have h: "serves_store st rate rand float_text (lv_handler s)" and rate: "0 < sint rate"
    and inv: "store_inv (sys_db (lv_system s))" by (simp_all add: service_ok_def within_limit_def)
  obtain status rp0 where
    serve: "http_serve lib (lv_handler s) ?c r ?i (snd (route (rq_path r))) (lv_system s)
        (fresh_reply broken (hex_encode raw)) = Return ((status, rp0), sys)"
    and rp: "rp_status rp = rp_status rp0" "rp_body rp = rp_body rp0" "rp_broken rp = rp_broken rp0"
    and hh: "h = count_request ?i status (lv_handler s)"
    using run by (auto simp: ServeHTTP_eq split: go_outcome.splits prod.splits)
  have st: "status \<in> statuses" using serve_status [OF serve] .
  have wrote: "rp_status rp0 = Some status" using serve_wrote [OF serve] by (simp add: wrote_def)
  have cok: "counters_ok (h_requests (lv_handler s))" using h by (simp add: serves_store_def)
  have "answer_kept (sys_db sys) (r, rp)"
  proof (cases "event_answer r rp")
    case True
    then have "status \<in> {200, 202}" "?i \<in> {3, 4, 7}" using rp(1) wrote by (auto simp: event_answer_def)
    from serve_event [OF h inv rate serve this] rp show ?thesis
      by (auto simp: answer_kept_def about_event_def)
  qed (simp add: answer_kept_def)
  moreover have "serves_store st rate rand float_text h"
    using h count_request_ok [OF cok route_index st] by (simp add: hh serves_store_def)
  ultimately show ?thesis
    using http_serve_op [OF h serve] request_total_count [OF cok route_index st, of "rq_path r"] by (simp add: hh)
qed

lemma request_accounts:
  assumes "request_op st (sys_db (lv_system s)) (sys_db (lv_system s'))" and "store_inv (sys_db (lv_system s))"
    and "sys_worker (lv_system s') = sys_worker (lv_system s)"
  shows "wk.accounts (loop_of s) (loop_of s')"
  by (rule wk.accountsI [of _ _ 0 0 0 0]) (simp_all add: assms(3) request_op_ledger [OF assms(1,2)])

text \<open>A wake-up: the loop ends, or one batch.\<close>

lemma attempt_store_op:
  assumes "attempt pg_processor interval batch t lp = (go, lp')"
  shows "lp_store lp' = apply_op st (OpProcess (tk_env t) batch) (lp_store lp)"
proof -
  obtain err res d' where run: "ProcessBatchWithResults (tk_env t) batch (lp_store lp) = (err, res, d')"
    by (metis prod_cases3)
  then have pb: "processBatch pg_processor batch (tk_env t) (lp_store lp) =
      (br_Processed res, err, concat (map (event_log (err \<noteq> None)) (br_Events res)), d')"
    by (simp add: processBatch_pg)
  with assms show ?thesis
    by (auto simp: attempt_eq [OF pb] Let_def run split: if_splits option.splits)
qed

lemma wake_store:
  assumes "worker_loop pg_processor interval batch [w] lp = (ended, lp')"
  shows "\<exists>ops. lp_store lp' = run_ops st ops (lp_store lp)"
proof -
  have one: "run_ops st [x] d = apply_op st x d" "run_ops st [] d = d" for x d
    by (simp_all add: run_ops_def)
  have "lp_store lp' = run_ops st [] (lp_store lp) \<or> (\<exists>x. lp_store lp' = run_ops st [x] (lp_store lp))"
  proof (cases w)
    case (TimerFired t)
    obtain go lp1 where a: "attempt pg_processor interval batch t lp = (go, lp1)" by fastforce
    then have "lp_store lp' = lp_store lp \<or> lp_store lp' = lp_store lp1"
      using assms TimerFired by (cases go) (auto split: if_splits)
    then show ?thesis unfolding one attempt_store_op [OF a, of st] by blast
  qed (use assms in \<open>simp add: one\<close>)
  then show ?thesis by blast
qed

lemma worker_stop_accounts: "wk.accounts lp (lp\<lparr>lp_stats := worker_stop (lp_stats lp)\<rparr>)"
  by (rule wk.accountsI [of _ _ 0 0 0 0]) (simp_all add: worker_stop_def)

lemma wake_step:
  assumes ok: "service_ok st rate rand float_text s" and s': "s' = service_action lib interval batch (Wakes w) s"
  shows "service_ok st rate rand float_text s' \<and> service_grows st s s'"
proof (cases "lv_waiting s")
  case False
  with ok s' show ?thesis by (simp add: service_grows_refl)
next
  case True
  from ok have inv: "store_inv (lp_store (loop_of s))" by (simp add: service_ok_def within_limit_def)
  obtain ended lp where run: "worker_loop pg_processor interval batch [w] (loop_of s) = (ended, lp)" by fastforce
  let ?lp = "if ended then lp\<lparr>lp_stats := worker_stop (lp_stats lp)\<rparr> else lp"
  have s'_eq: "s' = (put_loop ?lp s)\<lparr>lv_waiting := \<not> ended\<rparr>" using s' True run by simp
  from wake_store [OF run, of st] obtain ops where ops: "lp_store lp = run_ops st ops (sys_db (lv_system s))" by auto
  have acc: "wk.accounts (loop_of s) lp"
    using wk.loop_accounts [OF inv, of interval batch "[w]"] run by simp
  have "wk.accounts (loop_of s) ?lp"
    using acc wk.accounts_trans [OF acc worker_stop_accounts] by (cases ended) simp_all
  then have acc': "wk.accounts (loop_of s) (loop_of s')" by (simp add: s'_eq)
  have db: "sys_db (lv_system s') = run_ops st ops (sys_db (lv_system s))"
    by (cases ended) (simp_all add: s'_eq ops)
  have same: "lv_handler s' = lv_handler s" "lv_answers s' = lv_answers s @ []" by (simp_all add: s'_eq)
  from ok same(1) have h: "serves_store st rate rand float_text (lv_handler s')" by (simp add: service_ok_def)
  have "service_ok st rate rand float_text s'"
    by (rule service_ok_step [OF ok h db same(2)]) simp
  moreover have "service_grows st s s'"
    unfolding service_grows_def using db acc' same
    by (intro conjI exI [of _ ops] exI [of _ "[] :: (request \<times> reply) list"]) simp_all
  ultimately show ?thesis by simp
qed

lemma request_step:
  assumes ok: "service_ok st rate rand float_text s"
    and s': "s' = service_action lib interval batch (Request raw ms broken c r) s"
  shows "service_ok st rate rand float_text s' \<and> service_grows st s s'"
proof (cases "ServeHTTP lib (Some raw) ms broken (lv_handler s) c r (lv_system s)")
  case (Panic m)
  with ok s' show ?thesis by (simp add: service_grows_refl)
next
  case (Return a)
  obtain rp h sys where a: "a = (rp, h, sys)" by (metis prod_cases3)
  note run = Return [unfolded a]
  from ok have inv: "store_inv (sys_db (lv_system s))" by (simp add: service_ok_def within_limit_def)
  have s'_eq: "lv_handler s' = h" "lv_system s' = sys" "lv_answers s' = lv_answers s @ [(r, rp)]"
    using s' run by simp_all
  from request_answered [OF ok run] have h: "serves_store st rate rand float_text (lv_handler s')"
    and op: "request_op st (sys_db (lv_system s)) (sys_db (lv_system s'))"
    and wk: "sys_worker (lv_system s') = sys_worker (lv_system s)"
    and total: "request_total (h_requests (lv_handler s')) = request_total (h_requests (lv_handler s)) + 1"
    and kept: "list_all (answer_kept (sys_db (lv_system s'))) [(r, rp)]" by (simp_all add: s'_eq)
  from request_op_run [OF op] obtain ops where db: "sys_db (lv_system s') = run_ops st ops (sys_db (lv_system s))" by blast
  have "service_ok st rate rand float_text s'" by (rule service_ok_step [OF ok h db s'_eq(3) kept])
  moreover have "service_grows st s s'"
    unfolding service_grows_def using db total s'_eq(3) request_accounts [OF op inv wk]
    by (intro conjI exI [of _ ops] exI [of _ "[(r, rp)]"]) simp_all
  ultimately show ?thesis by simp
qed

lemma action_step:
  assumes "service_ok st rate rand float_text s"
  shows "service_ok st rate rand float_text (service_action lib interval batch x s) \<and>
    service_grows st s (service_action lib interval batch x s)"
  using request_step [OF assms] wake_step [OF assms] by (cases x) auto

interpretation service: growing_steps "service_action lib interval batch" "service_ok st rate rand float_text" "service_grows st"
  for lib interval batch st rate rand float_text
  by unfold_locales (auto simp: action_step intro: service_grows_refl service_grows_trans)

lemmas run_service_ok = service.run_inv [folded run_service_def]
lemmas run_service_grows = service.run_below [folded run_service_def]

text \<open>Every request of a run is answered, once each has the entropy for its identifier.\<close>

definition requests_of :: "action list \<Rightarrow> request list" where
  "requests_of as = concat (map (\<lambda>x. case x of Request raw ms broken c r \<Rightarrow> [r] | Wakes w \<Rightarrow> []) as)"

definition entropy_ok :: "action \<Rightarrow> bool" where
  "entropy_ok x \<longleftrightarrow> (case x of Request raw ms broken c r \<Rightarrow> length raw = 16 | Wakes w \<Rightarrow> True)"

lemma run_service_answers:
  assumes "service_ok st rate rand float_text s" and "list_all entropy_ok as"
  shows "map fst (lv_answers (run_service lib interval batch as s)) = map fst (lv_answers s) @ requests_of as"
  using assms
proof (induction as arbitrary: s)
  case (Cons x as)
  let ?s = "service_action lib interval batch x s"
  have "service_ok st rate rand float_text ?s" using action_step [OF Cons.prems(1)] by blast
  from Cons.IH [OF this] Cons.prems(2)
  have rest: "map fst (lv_answers (run_service lib interval batch as ?s)) = map fst (lv_answers ?s) @ requests_of as" by simp
  have "map fst (lv_answers ?s) = map fst (lv_answers s) @ requests_of [x]"
  proof (cases x)
    case (Request raw ms broken c r)
    with Cons.prems have len: "length raw = 16" by (simp add: entropy_ok_def)
    have h: "serves_store st rate rand float_text (lv_handler s)" "store_inv (sys_db (lv_system s))"
      using Cons.prems(1) by (simp_all add: service_ok_def within_limit_def)
    from ServeHTTP_answers [OF h len, of lib ms broken c r] obtain rp h' sys where
      "ServeHTTP lib (Some raw) ms broken (lv_handler s) c r (lv_system s) = Return (rp, h', sys)" by blast
    with Request show ?thesis by (simp add: requests_of_def)
  next
    case (Wakes w)
    then show ?thesis by (auto simp: requests_of_def split: prod.splits)
  qed
  with rest show ?case by (simp add: run_service_def requests_of_def)
qed (simp add: run_service_def requests_of_def)


section \<open>The service as it is started\<close>

text \<open>
  What \<open>run\<close> hands to \<open>serve\<close>, over the tables it finds: the worker's loop has started, its timer
  set to fire at once, and no request has come in.
\<close>

definition live_start :: "running \<Rightarrow> db \<Rightarrow> live" where
  "live_start rn d = \<lparr>lv_handler = rn_handler rn,
     lv_system = \<lparr>sys_db = d, sys_queue_errors = 0, sys_worker = snd (worker_start (wk_stats (rn_worker rn)))\<rparr>,
     lv_delay = wk_interval (rn_worker rn), lv_log = [], lv_timers = [0], lv_waiting = True, lv_answers = []\<rparr>"

definition live_run :: "http_lib \<Rightarrow> running \<Rightarrow> action list \<Rightarrow> db \<Rightarrow> live" where
  "live_run lib rn as d = run_service lib (wk_interval (rn_worker rn)) (wk_batch (rn_worker rn)) as (live_start rn d)"

text \<open>Without requests it is the worker alone.\<close>

lemma live_run_worker:
  assumes "wk_interval (rn_worker rn) = interval" and "wk_batch (rn_worker rn) = batch"
    and "worker_loop pg_processor interval batch ws (loop_of (live_start rn d)) = (False, lp)"
  shows "loop_of (live_run lib rn (map Wakes ws) d) = lp \<and> lv_waiting (live_run lib rn (map Wakes ws) d)"
proof -
  have "loop_of (run_service lib interval batch (map Wakes ws) s) = lp \<and> lv_waiting (run_service lib interval batch (map Wakes ws) s)"
    if "worker_loop pg_processor interval batch ws (loop_of s) = (False, lp)" "lv_waiting s" for s
    using that
  proof (induction ws arbitrary: s)
    case (Cons w ws)
    obtain ended lp1 where one: "worker_loop pg_processor interval batch [w] (loop_of s) = (ended, lp1)" by fastforce
    with Cons.prems(1) worker_loop_append [of pg_processor interval batch "[w]" ws "loop_of s"]
    have ended: "\<not> ended" and rest: "worker_loop pg_processor interval batch ws lp1 = (False, lp)" by (auto split: bool.splits)
    let ?s = "service_action lib interval batch (Wakes w) s"
    have s: "?s = (put_loop lp1 s)\<lparr>lv_waiting := True\<rparr>" using Cons.prems(2) one ended by simp
    have "run_service lib interval batch (map Wakes (w # ws)) s = run_service lib interval batch (map Wakes ws) ?s"
      by (simp add: run_service_def del: service_action.simps)
    with Cons.IH [of ?s] rest s show ?case by (simp del: service_action.simps)
  qed (simp add: run_service_def)
  from this [of "live_start rn d"] assms show ?thesis by (simp add: live_run_def live_start_def)
qed

lemma live_start_ok:
  assumes cfg: "loadConfig frac getenv = Inr cfg" and run: "run_setup lib su cfg = Inr rn" and "within_limit (rn_store rn) d"
  shows "service_ok (rn_store rn) (cfg_rateMicros cfg) (su_rand su) (su_float_text su) (live_start rn d) \<and>
    maxPending (rn_store rn) = cfg_maxPendingEvents cfg"
proof -
  have ok: "config_ok cfg" by (rule loadConfig_ok [OF cfg])
  from run_setup_ok [OF ok run_setup_ready [OF run], of lib] run
  have "serves_store (rn_store rn) (cfg_rateMicros cfg) (su_rand su) (su_float_text su) (rn_handler rn) \<and>
      maxPending (rn_store rn) = cfg_maxPendingEvents cfg"
    by (auto simp: serves_store_def counters_ok_def list_all_length)
  moreover have "0 < sint (cfg_rateMicros cfg)" using ok by (simp add: config_ok_def)
  ultimately show ?thesis using assms(3) by (simp add: service_ok_def live_start_def)
qed

lemma live_start_total:
  assumes "run_setup lib su cfg = Inr rn"
  shows "request_total (h_requests (lv_handler (live_start rn d))) = 0 \<and> wk_stats (rn_worker rn) = zero_stats"
proof -
  have "h_requests (rn_handler rn) = replicate 8 (replicate 6 0) \<and> wk_stats (rn_worker rn) = zero_stats"
    using assms by (auto simp: run_setup_def http_New_def worker_New_def Let_def split: if_splits sum.splits option.splits)
  then show ?thesis by (simp add: live_start_def request_total_def numeral_eq_Suc)
qed

end
