(* ===== verification/Load_Service.thy ===== *)
theory Load_Service
  imports Load_Test System_Run
begin

text \<open>
  The load test run against the service: the requests it writes, what its client sees of the
  service's replies, and why a service at the default price with room in its queue and an
  answering database makes every check of the load test pass.
\<close>

section \<open>Requests of the load test\<close>

text \<open>
  \<open>request\<close>: what it sends, as the server reads it. The base URL of a checked configuration has no
  path, so the path is the one appended. \<open>extra\<close> are the headers the transport adds.
\<close>

definition load_wire :: "load_config \<Rightarrow> (string \<times> string) list \<Rightarrow> string \<Rightarrow> string \<Rightarrow> string \<Rightarrow> request" where
  "load_wire cfg extra method path data =
     \<lparr>rq_method = method, rq_path = path,
      rq_headers = extra @ [(''Authorization'', ''Bearer '' @ lc_token cfg), (''Content-Type'', ''application/json'')],
      rq_body = data, rq_body_fault = False\<rparr>"

text \<open>\<open>json.Marshal\<close> of a synthetic event: its texts need no escaping.\<close>

definition load_post :: "load_config \<Rightarrow> (string \<times> string) list \<Rightarrow> string \<Rightarrow> nat \<Rightarrow> request" where
  "load_post cfg extra pfx i =
     load_wire cfg extra ''POST'' ''/v1/events'' (object_text [] (input_members (load_input pfx i)))"

definition load_get :: "load_config \<Rightarrow> (string \<times> string) list \<Rightarrow> string \<Rightarrow> request" where
  "load_get cfg extra pfx = load_wire cfg extra ''GET'' (''/v1/customers/'' @ pfx @ ''/summary'') []"

definition load_id :: "string \<Rightarrow> nat \<Rightarrow> string" where
  "load_id pfx i = pfx @ ''_'' @ show_nat i"

lemma load_input_simps [simp]:
  "EventID (load_input pfx i) = load_id pfx i" "CustomerID (load_input pfx i) = pfx"
  "Meter (load_input pfx i) = ''api_calls''" "Units (load_input pfx i) = 1"
  by (simp_all add: load_input_def load_id_def)

lemma load_id_inject [simp]: "load_id pfx i = load_id pfx j \<longleftrightarrow> i = j"
  by (metis append_same_eq load_id_def same_append_eq show_nat_correct)

lemma digit_id_byte: "is_digit c \<Longrightarrow> id_byte c"
  by (simp add: is_digit_def id_byte_def)

lemma lower_hex_id_byte: "is_lower_hex c \<Longrightarrow> id_byte c"
  by (auto simp: is_lower_hex_def id_byte_def less_eq_char_def)

lemma length_show_nat: "n < 10 ^ Suc k \<Longrightarrow> length (show_nat n) \<le> Suc k"
proof (induction k arbitrary: n)
  case (Suc k)
  show ?case
  proof (cases "n < 10")
    case False
    have "n div 10 < 10 ^ Suc k" using Suc.prems by (simp add: less_mult_imp_div_less mult.commute)
    from Suc.IH [OF this] show ?thesis using False by (subst show_nat.simps) simp
  qed (subst show_nat.simps, simp)
qed (subst show_nat.simps, simp)

text \<open>A prefix of the load test is an identifier, and so are its events.\<close>

lemma load_prefix_ok:
  assumes "length nonce = 16" and pfx: "pfx = load_prefix nonce"
  shows "valid_id pfx \<and> CHR ''/'' \<notin> set pfx \<and> length pfx = 37 \<and> list_all id_byte pfx"
proof -
  have bytes: "list_all id_byte pfx"
    using hex_encode_lower [of nonce] lower_hex_id_byte
    by (simp add: pfx load_prefix_def list_all_iff) (simp add: id_byte_def less_eq_char_def)
  then have "CHR ''/'' \<notin> set pfx" by (auto simp: list_all_iff id_byte_def less_eq_char_def)
  with bytes assms show ?thesis by (simp add: valid_id_def pfx load_prefix_def)
qed

lemma load_input_valid:
  assumes "length nonce = 16" and "pfx = load_prefix nonce" and "i < 10000"
  shows "valid_input (load_input pfx i) \<and> fits 1000 (load_input pfx i)"
proof -
  note p = load_prefix_ok [OF assms(1,2)]
  have len: "length (show_nat i) \<le> 4" using length_show_nat [of i 3] assms(3) by simp
  have "list_all id_byte (show_nat i)"
    using show_nat_correct [of i] digit_id_byte by (auto simp: list_all_iff)
  moreover have "id_byte CHR ''_''" by (simp add: id_byte_def)
  ultimately have "valid_id (load_id pfx i)" using p len by (simp add: valid_id_def load_id_def)
  with p show ?thesis by (simp add: valid_input_def fits_def)
qed

text \<open>The server takes them for what they are.\<close>

definition plain_headers :: "(string \<times> string) list \<Rightarrow> bool" where
  "plain_headers extra \<longleftrightarrow> list_all (\<lambda>(k, v). k \<noteq> ''Authorization'' \<and> k \<noteq> ''Content-Type'') extra"

lemma load_wire_headers:
  assumes "plain_headers extra"
  shows "header_values ''Authorization'' (load_wire cfg extra m p data) = [''Bearer '' @ lc_token cfg]"
    "header_get ''Content-Type'' (load_wire cfg extra m p data) = ''application/json''"
proof -
  have "filter (\<lambda>(k', v). k' = k) extra = []" if "k = ''Authorization'' \<or> k = ''Content-Type''" for k
    using assms that by (auto simp: plain_headers_def list_all_iff filter_empty_conv)
  then show "header_values ''Authorization'' (load_wire cfg extra m p data) = [''Bearer '' @ lc_token cfg]"
    "header_get ''Content-Type'' (load_wire cfg extra m p data) = ''application/json''"
    by (simp_all add: header_get_def header_values_def load_wire_def)
qed

lemma load_wire_carries:
  assumes "plain_headers extra"
  shows "carries_token lib (lc_token cfg) (load_wire cfg extra m p data)"
proof -
  have "equal_fold ''Bearer'' ''Bearer''" by code_simp
  then show ?thesis unfolding carries_token_def load_wire_headers [OF assms]
    by (intro exI [of _ "''Bearer''"] exI [of _ "lc_token cfg"]) simp
qed

lemma load_post_posts:
  assumes "plain_headers extra" and "lib_media_type lib ''application/json'' = Some ''application/json''"
    and "length nonce = 16" and "pfx = load_prefix nonce" and "i < 10000"
  shows "posts_event lib (lc_token cfg) (load_input pfx i) (load_post cfg extra pfx i)"
proof -
  have len: "length (show_nat i) \<le> 4" using length_show_nat [of i 3] assms(5) by simp
  have one: "show_int 1 = ''1''" by code_simp
  have "length (object_text [] (input_members (load_input pfx i))) \<le> maxBodyBytes"
    using load_prefix_ok [OF assms(3,4)] len
    by (simp add: object_text_def input_members_def member_text_def quoted_def one load_id_def maxBodyBytes_def)
  moreover have "\<exists>sp ms. list_all is_space sp \<and> mset ms = mset (input_members (load_input pfx i)) \<and>
      object_text [] (input_members (load_input pfx i)) = object_text sp ms"
    by (intro exI [of _ "[]"] exI [of _ "input_members (load_input pfx i)"]) simp
  ultimately show ?thesis
    using load_wire_carries [OF assms(1), of lib cfg] load_wire_headers(2) [OF assms(1)] assms(2)
    unfolding posts_event_def load_post_def by (simp add: load_wire_def)
qed

text \<open>The requests of different indices, and the reads, are different.\<close>

lemma load_post_inject:
  assumes "valid_input (load_input pfx i)" and "valid_input (load_input pfx j)"
    and "load_post cfg extra pfx i = load_post cfg extra pfx j"
  shows "i = j"
proof -
  have "decodeInput (object_text [] (input_members (load_input pfx k))) = Inr (load_input pfx k)"
    if "valid_input (load_input pfx k)" for k
    using decodeInput_members [OF _ valid_input_plain [OF that] refl, of "[]"] by simp
  with assms have "load_input pfx i = load_input pfx j"
    by (auto simp: load_post_def load_wire_def dest: arg_cong [of _ _ decodeInput])
  then have "EventID (load_input pfx i) = EventID (load_input pfx j)" by simp
  then show ?thesis by simp
qed

lemma load_post_get [simp]: "load_post cfg extra pfx i \<noteq> load_get cfg extra pfx"
  by (simp add: load_post_def load_get_def load_wire_def)

section \<open>The tables during a load test\<close>

text \<open>
  The events of the run's customer are those posted so far, in their order, at the default price;
  no other identifier of the run is used; and none of its queue rows has failed.
\<close>

definition load_state :: "string \<Rightarrow> nat list \<Rightarrow> db \<Rightarrow> bool" where
  "load_state pfx is d \<longleftrightarrow> store_inv d \<and>
     map (\<lambda>u. (u_event_id u, u_units u, u_amount_micros u)) (filter (\<lambda>u. u_customer_id u = pfx) (usage_events d)) =
       map (\<lambda>i. (load_id pfx i, 1, 1000)) is \<and>
     (\<forall>i. i \<notin> set is \<longrightarrow> usage_of d (load_id pfx i) = None) \<and>
     (\<forall>i p. pending_of d (load_id pfx i) = Some p \<longrightarrow> p_processing_failures p = 0)"

lemma load_stateD:
  assumes "load_state pfx is d"
  shows "store_inv d"
    "map (\<lambda>u. (u_event_id u, u_units u, u_amount_micros u)) (filter (\<lambda>u. u_customer_id u = pfx) (usage_events d)) =
       map (\<lambda>i. (load_id pfx i, 1, 1000)) is"
    "i \<notin> set is \<Longrightarrow> usage_of d (load_id pfx i) = None"
    "pending_of d (load_id pfx i) = Some p \<Longrightarrow> p_processing_failures p = 0"
  using assms unfolding load_state_def by blast+

lemma load_state_admitted:
  assumes ok: "load_state pfx is d" and i: "i \<notin> set is"
    and d': "d' = admitted (priced_event 1000 rid (load_input pfx i)) now1 now2 d" and inv: "store_inv d'"
  shows "load_state pfx (is @ [i]) d' \<and> length (pending_events d') = length (pending_events d) + 1"
proof -
  have usage: "usage_of d' j = (if j = load_id pfx i then Some (usage_row_of (priced_event 1000 rid (load_input pfx i)) now1)
      else usage_of d j)" for j
    using load_stateD(3) [OF ok i] by (auto simp: d' usage_of_def admitted_def find_append priced_event_def split: option.splits)
  have "load_id pfx i \<notin> set (usage_ids d)" using load_stateD(3) [OF ok i] by (simp add: usage_of_def find_key_None)
  then have "load_id pfx i \<notin> set (pending_ids d)" using store_invD(5) [OF load_stateD(1) [OF ok]] by blast
  then have "find (\<lambda>p. p_event_id p = load_id pfx i) (pending_events d) = None" by (simp add: find_key_None)
  moreover have "p_event_id (pending_row_of (load_id pfx i) now2) = load_id pfx i" by (simp add: pending_row_of_def)
  ultimately have pending: "pending_of d' j = (if j = load_id pfx i then Some (pending_row_of j now2) else pending_of d j)" for j
    by (auto simp: d' pending_of_def admitted_def find_append priced_event_def split: option.splits)
  have "map (\<lambda>u. (u_event_id u, u_units u, u_amount_micros u)) (filter (\<lambda>u. u_customer_id u = pfx) (usage_events d')) =
      map (\<lambda>i. (load_id pfx i, 1, 1000)) (is @ [i])"
    using load_stateD(2) [OF ok] by (simp add: d' admitted_def usage_row_of_def priced_event_def)
  moreover have "\<forall>j. j \<notin> set (is @ [i]) \<longrightarrow> usage_of d' (load_id pfx j) = None"
    using load_stateD(3) [OF ok] by (simp add: usage)
  moreover have "\<forall>j p. pending_of d' (load_id pfx j) = Some p \<longrightarrow> p_processing_failures p = 0"
    using load_stateD(4) [OF ok] by (auto simp: pending pending_row_of_def split: if_splits)
  ultimately show ?thesis using inv by (simp add: load_state_def d' admitted_def)
qed

lemma load_state_batch:
  assumes ok: "load_state pfx is d" and bd: "batch_done env limit d viol n evs d'" and none: "\<And>i. viol i = None"
  shows "load_state pfx is d' \<and> length (pending_events d') \<le> length (pending_events d)"
proof -
  from bd none have usage: "usage_events d' = usage_events d" and inv: "store_inv d'"
    and ids: "pending_ids d' = filter (\<lambda>i. i \<notin> set (claimed_ids env limit d)) (pending_ids d)"
    and kept: "\<And>i. i \<notin> set (claimed_ids env limit d) \<Longrightarrow> pending_of d' i = pending_of d i"
    by (simp_all add: batch_done_def batch_inv_def)
  have "pending_of d i = Some p" if "pending_of d' i = Some p" for i p
  proof -
    have "i \<in> set (pending_ids d')" using that by (metis option.distinct(1) pending_of_None)
    then show ?thesis using kept that ids by simp
  qed
  then have "load_state pfx is d'"
    using ok inv unfolding load_state_def usage_of_def usage by blast
  moreover have "length (pending_ids d') \<le> length (pending_ids d)" unfolding ids by (rule length_filter_le)
  ultimately show ?thesis by simp
qed

text \<open>Once the queue has drained the summary is the one the load test waits for.\<close>

lemma load_state_summary:
  assumes ok: "load_state pfx is d" and "drained d"
  shows "summary_spec pfx (customer_events pfx d) =
    \<lparr>sm_CustomerID = pfx, sm_Currency = ''USD'', sm_Units = show_int (int (length is)),
     sm_AmountMicros = show_int (int (length is) * 1000), sm_Pending = 0, sm_Processed = int (length is), sm_Failed = 0\<rparr>"
proof -
  let ?rows = "filter (\<lambda>u. u_customer_id u = pfx) (usage_events d)"
  note inv = load_stateD(1) [OF ok]
  have mine: "\<exists>i. u_event_id u = load_id pfx i" if "u \<in> set ?rows" for u
  proof -
    have "(u_event_id u, u_units u, u_amount_micros u) \<in> set (map (\<lambda>i. (load_id pfx i, 1, 1000)) is)"
      using that unfolding load_stateD(2) [OF ok, symmetric] by (simp only: set_map) (rule imageI)
    then show ?thesis by auto
  qed
  have view: "view u (u_event_id u \<in> set (ledger_ids d)) (pending_of d (u_event_id u)) = view u True None"
    if u: "u \<in> set ?rows" for u
  proof -
    obtain i where i: "u_event_id u = load_id pfx i" using mine [OF u] by blast
    have none: "pending_of d (u_event_id u) = None"
    proof (cases "pending_of d (u_event_id u)")
      case (Some p)
      with assms(2) pending_of_key [OF Some] have "p_processing_failures p = 3" by (auto simp: drained_def)
      with load_stateD(4) [OF ok] Some i show ?thesis by auto
    qed
    then have "u_event_id u \<notin> set (pending_ids d)" by (simp add: pending_of_None)
    moreover have "u_event_id u \<in> set (usage_ids d)" using u by simp
    ultimately have "u_event_id u \<in> set (ledger_ids d)" using posted_iff_not_pending [OF inv] by blast
    with none show ?thesis by simp
  qed
  have events: "customer_events pfx d = map (\<lambda>u. view u True None) ?rows"
    unfolding customer_events_eq [OF inv] using view by (intro map_cong) auto
  have sums: "map u_units ?rows = map (\<lambda>i. 1) is" "map u_amount_micros ?rows = map (\<lambda>i. 1000) is"
    using arg_cong [OF load_stateD(2) [OF ok], of "map (\<lambda>(a, b, c). b)"]
      arg_cong [OF load_stateD(2) [OF ok], of "map (\<lambda>(a, b, c). c)"] by (simp_all add: o_def)
  have len: "length ?rows = length is" using arg_cong [OF load_stateD(2) [OF ok], of length] by simp
  have "sum_list (map (\<lambda>u. sint (u_units u)) ?rows) = sum_list (map sint (map u_units ?rows))"
    "sum_list (map (\<lambda>u. sint (u_amount_micros u)) ?rows) = sum_list (map sint (map u_amount_micros ?rows))"
    by (simp_all add: o_def)
  then have total: "sum_list (map (\<lambda>u. sint (u_units u)) ?rows) = int (length is)"
    "sum_list (map (\<lambda>u. sint (u_amount_micros u)) ?rows) = int (length is) * 1000"
    unfolding sums by (simp_all add: o_def sum_list_triv)
  show ?thesis
    unfolding summary_spec_def events using total len by (simp add: o_def filter_map waiting_def)
qed

end
