(* ===== verification/Load_Main.thy ===== *)
theory Load_Main
  imports Load_Test Go_Parse
begin

text \<open>
  The load test as a command: its flags as Go's \<open>flag\<close> package reads them, the token from the
  environment, the exit code, what it prints on standard error, and the report. A number may be
  written with a base prefix and underscores, as \<open>strconv.ParseInt\<close> with base 0 takes it.
\<close>

section \<open>Numbers of a flag\<close>

text \<open>A letter or digit as a digit of any base, and the number written by digits and underscores.\<close>

definition any_digit :: "char \<Rightarrow> nat option" where
  "any_digit c =
     (let n = of_char c :: nat in
      if 48 \<le> n \<and> n \<le> 57 then Some (n - 48)
      else if 97 \<le> n \<and> n \<le> 122 then Some (n - 87)
      else if 65 \<le> n \<and> n \<le> 90 then Some (n - 55) else None)"

fun base_value :: "nat \<Rightarrow> nat \<Rightarrow> string \<Rightarrow> nat option" where
  "base_value base acc [] = Some acc"
| "base_value base acc (c # cs) =
     (if c = CHR ''_'' then base_value base acc cs
      else case any_digit c of
        None \<Rightarrow> None
      | Some v \<Rightarrow> (if base \<le> v then None else base_value base (acc * base + v) cs))"

definition base_letter :: "char \<Rightarrow> nat option" where
  "base_letter c = map_of [(CHR ''b'', 2), (CHR ''B'', 2), (CHR ''o'', 8), (CHR ''O'', 8), (CHR ''x'', 16), (CHR ''X'', 16)] c"

definition base_prefix :: "string \<Rightarrow> nat \<times> string" where
  "base_prefix s =
     (if hd s \<noteq> CHR ''0'' then (10, s)
      else if length s \<ge> 3 \<and> base_letter (s ! 1) \<noteq> None then (the (base_letter (s ! 1)), drop 2 s)
      else (8, tl s))"

text \<open>An underscore stands only between digits, or between the prefix and a digit.\<close>

fun underscores :: "bool \<Rightarrow> char \<Rightarrow> string \<Rightarrow> bool" where
  "underscores hex saw [] = (saw \<noteq> CHR ''_'')"
| "underscores hex saw (c # cs) =
     (if is_digit c \<or> hex \<and> (case any_digit c of None \<Rightarrow> False | Some v \<Rightarrow> v < 16) then underscores hex (CHR ''0'') cs
      else if c = CHR ''_'' then saw = CHR ''0'' \<and> underscores hex (CHR ''_'') cs
      else saw \<noteq> CHR ''_'' \<and> underscores hex (CHR ''!'') cs)"

definition underscore_ok :: "string \<Rightarrow> bool" where
  "underscore_ok s =
     (if length s \<ge> 2 \<and> hd s = CHR ''0'' \<and> base_letter (s ! 1) \<noteq> None
      then underscores (base_letter (s ! 1) = Some 16) (CHR ''0'') (drop 2 s)
      else underscores False (CHR ''^'') s)"

definition parse_int_any :: "string \<Rightarrow> int option" where
  "parse_int_any s =
     (let neg = s \<noteq> [] \<and> hd s = CHR ''-'';
          s' = (if s \<noteq> [] \<and> (hd s = CHR ''-'' \<or> hd s = CHR ''+'') then tl s else s) in
      if s' = [] then None
      else case base_value (fst (base_prefix s')) 0 (snd (base_prefix s')) of
        None \<Rightarrow> None
      | Some n \<Rightarrow>
          (if CHR ''_'' \<in> set s' \<and> \<not> underscore_ok s' then None
           else if neg then (if int n \<le> 2 ^ 63 then Some (- int n) else None)
           else if int n < 2 ^ 63 then Some (int n) else None))"

definition parse_bool :: "string \<Rightarrow> bool option" where
  "parse_bool s =
     (if s \<in> set [''1'', ''t'', ''T'', ''true'', ''TRUE'', ''True''] then Some True
      else if s \<in> set [''0'', ''f'', ''F'', ''false'', ''FALSE'', ''False''] then Some False else None)"

section \<open>Flags\<close>

definition load_defaults :: load_config where
  "load_defaults = \<lparr>lc_baseURL = ''http://127.0.0.1:8080'', lc_token = [], lc_requests = 500, lc_concurrency = 8,
     lc_timeout = 2 * 60000000000, lc_allowWrites = False\<rparr>"

definition load_flags :: "string list" where
  "load_flags = [''url'', ''requests'', ''concurrency'', ''timeout'', ''allow-demo-writes'']"

text \<open>One flag is set; \<open>None\<close> when its value is refused.\<close>

definition set_flag :: "(int \<Rightarrow> int \<Rightarrow> int \<Rightarrow> int) \<Rightarrow> string \<Rightarrow> string \<Rightarrow> load_config \<Rightarrow> load_config option" where
  "set_flag frac name v cfg =
     (if name = ''url'' then Some (cfg\<lparr>lc_baseURL := v\<rparr>)
      else if name = ''requests'' then map_option (\<lambda>n. cfg\<lparr>lc_requests := n\<rparr>) (parse_int_any v)
      else if name = ''concurrency'' then map_option (\<lambda>n. cfg\<lparr>lc_concurrency := n\<rparr>) (parse_int_any v)
      else if name = ''timeout'' then map_option (\<lambda>n. cfg\<lparr>lc_timeout := n\<rparr>) (parse_duration frac v)
      else map_option (\<lambda>b. cfg\<lparr>lc_allowWrites := b\<rparr>) (parse_bool v))"

text \<open>
  The name of a flag and the value written in it, after \<open>=\<close>; the boolean flag needs none. \<open>None\<close>
  when the syntax is refused.
\<close>

definition flag_parts :: "string \<Rightarrow> (string \<times> string option) option" where
  "flag_parts s =
     (let body = (if s ! 1 = CHR ''-'' then drop 2 s else tl s);
          name = takeWhile (\<lambda>c. c \<noteq> CHR ''='') body in
      if body = [] \<or> hd body = CHR ''-'' \<or> hd body = CHR ''='' then None
      else Some (name,
        if CHR ''='' \<in> set body then Some (drop (length name + 1) body)
        else if name = ''allow-demo-writes'' then Some ''true'' else None))"

text \<open>\<open>flag.Parse\<close> of the arguments, up to the first that is no flag, or \<open>--\<close>.\<close>

datatype flags = FlagsSet load_config | FlagsHelp | FlagsBad

fun parse_flags :: "(int \<Rightarrow> int \<Rightarrow> int \<Rightarrow> int) \<Rightarrow> string list \<Rightarrow> load_config \<Rightarrow> flags" where
  "parse_flags frac [] cfg = FlagsSet cfg"
| "parse_flags frac (s # args) cfg =
     (if length s < 2 \<or> hd s \<noteq> CHR ''-'' \<or> s = ''--'' then FlagsSet cfg
      else case flag_parts s of
        None \<Rightarrow> FlagsBad
      | Some (name, given) \<Rightarrow>
          (if name \<notin> set load_flags then (if name = ''help'' \<or> name = ''h'' then FlagsHelp else FlagsBad)
           else case given of
             Some v \<Rightarrow> (case set_flag frac name v cfg of None \<Rightarrow> FlagsBad | Some cfg' \<Rightarrow> parse_flags frac args cfg')
           | None \<Rightarrow>
               (case args of
                  [] \<Rightarrow> FlagsBad
                | v # rest \<Rightarrow>
                    (case set_flag frac name v cfg of
                       None \<Rightarrow> FlagsBad | Some cfg' \<Rightarrow> parse_flags frac rest cfg'))))"

section \<open>The command\<close>

text \<open>
  \<open>main\<close>: the exit code, what it prints on standard error (the texts of \<open>flag\<close> apart), and the
  report on standard output. The report may fail to be written, or to be encoded.
\<close>

record load_exit =
  le_code :: int
  le_errors :: "go_error list"
  le_report :: "load_report option"

definition load_main ::
  "load_lib \<Rightarrow> (int \<Rightarrow> int \<Rightarrow> int \<Rightarrow> int) \<Rightarrow> (string \<Rightarrow> string) \<Rightarrow> string list \<Rightarrow> load_world \<Rightarrow> bool \<Rightarrow> load_exit" where
  "load_main lib frac getenv args w writes =
     (case parse_flags frac args load_defaults of
        FlagsHelp \<Rightarrow> \<lparr>le_code = 0, le_errors = [], le_report = None\<rparr>
      | FlagsBad \<Rightarrow> \<lparr>le_code = 2, le_errors = [], le_report = None\<rparr>
      | FlagsSet cfg0 \<Rightarrow>
     (let cfg = cfg0\<lparr>lc_token := getenv ''BILLING_API_TOKEN''\<rparr> in
      case load_validate lib cfg of
        Some err \<Rightarrow> \<lparr>le_code = 2, le_errors = [err], le_report = None\<rparr>
      | None \<Rightarrow>
     (case load_run lib cfg w of
        (rep, err) \<Rightarrow>
          (if \<not> writes then \<lparr>le_code = 1, le_errors = [New ''cannot write load test report''], le_report = None\<rparr>
           else if err \<noteq> None
           then \<lparr>le_code = 1, le_errors = [New ''load test failed; inspect report counts and settlement''], le_report = Some rep\<rparr>
           else \<lparr>le_code = 0, le_errors = [], le_report = Some rep\<rparr>))))"

section \<open>What a command without an error shows\<close>

text \<open>Nothing is written unless an argument names the flag that allows it.\<close>

definition names_flag :: "string \<Rightarrow> string \<Rightarrow> bool" where
  "names_flag name s \<longleftrightarrow> (\<exists>rest. s = CHR ''-'' # name @ rest \<or> s = CHR ''-'' # CHR ''-'' # name @ rest)"

lemma set_flag_writes:
  "set_flag frac name v cfg = Some cfg' \<Longrightarrow> name \<in> set load_flags \<Longrightarrow> lc_allowWrites cfg' \<Longrightarrow>
   lc_allowWrites cfg \<or> name = ''allow-demo-writes''"
  by (auto simp: set_flag_def load_flags_def split: if_splits)

lemma flag_parts_names:
  assumes "flag_parts s = Some (name, v)" and "length s \<ge> 2" and "hd s = CHR ''-''"
  shows "names_flag name s"
proof -
  from assms(2,3) obtain b s' where s: "s = CHR ''-'' # b # s'" by (cases s; cases "tl s") auto
  let ?body = "if b = CHR ''-'' then s' else b # s'"
  from assms(1) s have "name = takeWhile (\<lambda>c. c \<noteq> CHR ''='') ?body"
    by (auto simp: flag_parts_def Let_def split: if_splits)
  then have body: "?body = name @ dropWhile (\<lambda>c. c \<noteq> CHR ''='') ?body" by simp
  show ?thesis
  proof (cases "b = CHR ''-''")
    case True
    with body have "s' = name @ dropWhile (\<lambda>c. c \<noteq> CHR ''='') s'" by simp
    with True show ?thesis unfolding names_flag_def s by blast
  next
    case False
    with body have "b # s' = name @ dropWhile (\<lambda>c. c \<noteq> CHR ''='') (b # s')" by simp
    then show ?thesis unfolding names_flag_def s by blast
  qed
qed

lemma parse_flags_writes:
  "parse_flags frac args cfg0 = FlagsSet cfg \<Longrightarrow> lc_allowWrites cfg \<Longrightarrow>
   lc_allowWrites cfg0 \<or> (\<exists>s\<in>set args. names_flag ''allow-demo-writes'' s)"
proof (induction frac args cfg0 rule: parse_flags.induct)
  case (2 frac s args cfg0)
  show ?case
  proof (cases "length s < 2 \<or> hd s \<noteq> CHR ''-'' \<or> s = ''--''")
    case True
    with "2.prems" show ?thesis by auto
  next
    case False
    with "2.prems"(1) obtain name given where parts: "flag_parts s = Some (name, given)" "name \<in> set load_flags"
      by (auto split: option.splits if_splits)
    have named: "names_flag name s" using flag_parts_names [OF parts(1)] False by simp
    show ?thesis
    proof (cases given)
      case (Some v)
      with False parts "2.prems"(1) obtain cfg' where "set_flag frac name v cfg0 = Some cfg'" "parse_flags frac args cfg' = FlagsSet cfg"
        by (auto split: option.splits)
      with "2.IH"(2) [OF False parts(1) refl _ Some] "2.prems"(2) parts(2) set_flag_writes [of frac name v cfg0 cfg'] named
      show ?thesis by auto
    next
      case None
      with False parts "2.prems"(1) obtain v rest cfg' where args: "args = v # rest"
        and "set_flag frac name v cfg0 = Some cfg'" "parse_flags frac rest cfg' = FlagsSet cfg"
        by (auto split: option.splits list.splits)
      with "2.IH"(1) [OF False parts(1) refl _ None args] "2.prems"(2) parts(2) set_flag_writes [of frac name v cfg0 cfg'] named
      show ?thesis by auto
    qed
  qed
qed simp

lemma load_validate_None:
  assumes "load_validate lib cfg = None"
  shows "(\<exists>u. lib_parse_url lib (lc_baseURL cfg) = Some u \<and> plain_origin u \<and> lib_parse_addr lib (url_hostname u) = Some (True, [])) \<and>
    lc_allowWrites cfg \<and> 1 \<le> lc_requests cfg \<and> lc_requests cfg \<le> 10000 \<and> 1 \<le> lc_concurrency cfg \<and>
    32 \<le> length (lc_token cfg) \<and> length (lc_token cfg) \<le> 4096 \<and> \<not> list_ex token_byte_bad (lc_token cfg)"
  using assms by (auto simp: load_validate_def split: option.splits prod.splits if_splits)

lemma load_main_success:
  assumes "load_main lib frac getenv args w writes = \<lparr>le_code = 0, le_errors = errs, le_report = Some rep\<rparr>"
  obtains cfg0 cfg where "parse_flags frac args load_defaults = FlagsSet cfg0"
    "cfg = cfg0\<lparr>lc_token := getenv ''BILLING_API_TOKEN''\<rparr>" "load_validate lib cfg = None" "load_run lib cfg w = (rep, None)"
    "\<exists>s\<in>set args. names_flag ''allow-demo-writes'' s"
proof -
  from assms obtain cfg0 where flags: "parse_flags frac args load_defaults = FlagsSet cfg0"
    by (auto simp: load_main_def split: flags.splits)
  let ?cfg = "cfg0\<lparr>lc_token := getenv ''BILLING_API_TOKEN''\<rparr>"
  from assms flags have valid: "load_validate lib ?cfg = None"
    by (auto simp: load_main_def Let_def split: option.splits)
  with assms flags have run: "load_run lib ?cfg w = (rep, None)"
    by (auto simp: load_main_def Let_def split: prod.splits if_splits)
  have "lc_allowWrites cfg0" using load_validate_None [OF valid] by simp
  with parse_flags_writes [OF flags] have "\<exists>s\<in>set args. names_flag ''allow-demo-writes'' s"
    by (auto simp: load_defaults_def)
  with flags valid run show thesis by (intro that) auto
qed

end
