(* ===== verification/Load_Demo.thy ===== *)
theory Load_Demo
  imports Load_Service Load_Main
begin

text \<open>
  A load test and the demo service together: the service of \<open>System_Run\<close> serves the posts and the
  reads of the load test while its worker makes attempts, in any order; the load test's world is
  made of what its client sees of the answers.
\<close>

section \<open>The demo\<close>

datatype load_act =
    Post nat "byte list" int "pg_env ctx"
  | Poll "byte list" int "pg_env ctx"
  | Attempt "pg_env tick"

fun load_action :: "load_config \<Rightarrow> (string \<times> string) list \<Rightarrow> string \<Rightarrow> load_act \<Rightarrow> action" where
  "load_action cfg extra pfx (Post i raw ms c) = Request raw ms False c (load_post cfg extra pfx i)"
| "load_action cfg extra pfx (Poll raw ms c) = Request raw ms False c (load_get cfg extra pfx)"
| "load_action cfg extra pfx (Attempt t) = Wakes (TimerFired t)"

text \<open>The database answers; the ledger takes what it is given; the worker is not told to stop.\<close>

fun act_fine :: "load_act \<Rightarrow> bool" where
  "act_fine (Post i raw ms c) \<longleftrightarrow> length raw = 16 \<and> healthy (ctx_env c) \<and> marshal_ok (JTime (env_clock (ctx_env c) 1))"
| "act_fine (Poll raw ms c) \<longleftrightarrow> healthy (ctx_env c)"
| "act_fine (Attempt t) \<longleftrightarrow> \<not> tk_done_before t \<and> \<not> tk_done_after t \<and> good_env (tk_env t) \<and>
     (\<forall>i. env_violation (tk_env t) i = None)"

definition indices :: "load_act list \<Rightarrow> nat list" where
  "indices as = concat (map (\<lambda>a. case a of Post i raw ms c \<Rightarrow> [i] | _ \<Rightarrow> []) as)"

lemma indices_simps [simp]:
  "indices [] = []" "indices (Post i raw ms c # as) = i # indices as"
  "indices (Poll raw ms c # as) = indices as" "indices (Attempt t # as) = indices as"
  "indices (as @ bs) = indices as @ indices bs" "indices (map Attempt ts) = []"
  by (simp_all add: indices_def o_def)

text \<open>The answers the load test counts as good.\<close>

definition good_post :: "load_config \<Rightarrow> (string \<times> string) list \<Rightarrow> string \<Rightarrow> request \<Rightarrow> reply \<Rightarrow> bool" where
  "good_post cfg extra pfx r rp \<longleftrightarrow>
     (\<exists>i e. i < 10000 \<and> r = load_post cfg extra pfx i \<and> rp_status rp = Some 202 \<and> rp_body rp = Some (Json (event_json e)) \<and>
       Input e = load_input pfx i \<and> UnitPriceMicros e = 1000 \<and> AmountMicros e = 1000 \<and> Currency e = ''USD'')"

definition good_get :: "load_config \<Rightarrow> (string \<times> string) list \<Rightarrow> string \<Rightarrow> request \<Rightarrow> reply \<Rightarrow> bool" where
  "good_get cfg extra pfx r rp \<longleftrightarrow>
     (\<exists>evs. r = load_get cfg extra pfx \<and> rp_status rp = Some 200 \<and>
       rp_body rp = Some (Json (summary_json (summary_spec pfx evs))))"

definition demo_ok ::
  "http_lib \<Rightarrow> store \<Rightarrow> byte list option \<Rightarrow> load_config \<Rightarrow> (string \<times> string) list \<Rightarrow> string \<Rightarrow> nat \<Rightarrow> nat list \<Rightarrow> live \<Rightarrow> bool"
  where
  "demo_ok lib st rand cfg extra pfx k is s \<longleftrightarrow>
     h_service (lv_handler s) = api_of (billing_service st 1000) rand \<and>
     h_token_hash (lv_handler s) = lib_sha256 lib (lc_token cfg) \<and> lv_waiting s \<and>
     load_state pfx is (sys_db (lv_system s)) \<and> length (pending_events (sys_db (lv_system s))) \<le> k + length is \<and>
     list_all (\<lambda>(r, rp). good_post cfg extra pfx r rp \<or> good_get cfg extra pfx r rp) (lv_answers s)"

lemma attempt_action:
  assumes "act_fine (Attempt t)" and "1 \<le> batch" and "batch \<le> 1000" and inv: "store_inv (sys_db (lv_system s))" and "lv_waiting s"
  obtains n evs s' where "service_action lib interval batch (Wakes (TimerFired t)) s = s'"
    "batch_done (tk_env t) batch (sys_db (lv_system s)) (env_violation (tk_env t)) n evs (sys_db (lv_system s'))"
    "sys_db (lv_system s') = snd (snd (ProcessBatchWithResults (tk_env t) batch (sys_db (lv_system s))))"
    "lv_handler s' = lv_handler s" "lv_answers s' = lv_answers s" "lv_waiting s'"
proof -
  from assms(1) have fine: "\<not> tk_done_before t" "\<not> tk_done_after t" "healthy (tk_env t)" "integrity_violations (tk_env t)"
    by (simp_all add: good_env_def)
  obtain res d' where run: "ProcessBatchWithResults (tk_env t) batch (sys_db (lv_system s)) = (None, res, d')"
    and bd: "batch_done (tk_env t) batch (sys_db (lv_system s)) (env_violation (tk_env t)) (br_Processed res) (br_Events res) d'"
    using ProcessBatch_healthy [OF fine(3,4) assms(2,3) inv] by blast
  then have "processBatch pg_processor batch (tk_env t) (lp_store (loop_of s)) =
      (br_Processed res, None, concat (map (event_log False) (br_Events res)), d')"
    by (simp add: processBatch_pg)
  from attempt_eq [OF this, of interval] fine(1,2) assms(5)
  obtain lp where act: "service_action lib interval batch (Wakes (TimerFired t)) s = (put_loop lp s)\<lparr>lv_waiting := True\<rparr>"
    and d': "lp_store lp = d'"
    by (auto simp: Let_def)
  show thesis by (rule that [OF act]) (use run bd d' in simp_all)
qed

lemma post_action:
  assumes ok: "demo_ok lib st rand cfg extra pfx k is s" and fine: "act_fine (Post i raw ms c)"
    and i: "i < 10000" "i \<notin> set is" and room: "int (k + length is) < sint (maxPending st)"
    and pfx: "length nonce = 16" "pfx = load_prefix nonce" and hdrs: "plain_headers extra"
    and media: "lib_media_type lib ''application/json'' = Some ''application/json''"
  shows "demo_ok lib st rand cfg extra pfx k (is @ [i]) (service_action lib interval batch (load_action cfg extra pfx (Post i raw ms c)) s)"
proof -
  let ?d = "sys_db (lv_system s)" and ?inp = "load_input pfx i" and ?now = "env_clock (ctx_env c) 1"
  let ?ev = "priced_event 1000 (hex_encode raw) ?inp"
  from ok have h: "h_service (lv_handler s) = api_of (billing_service st 1000) rand"
      "h_token_hash (lv_handler s) = lib_sha256 lib (lc_token cfg)"
    and state: "load_state pfx is ?d" and len: "length (pending_events ?d) \<le> k + length is"
    by (simp_all add: demo_ok_def)
  note inv = load_stateD(1) [OF state]
  from fine have env: "healthy (ctx_env c)" "length raw = 16" "marshal_ok (JTime ?now)" by simp_all
  from load_input_valid [OF pfx i(1)] have valid: "valid_input ?inp" and fits: "fits 1000 ?inp" by simp_all
  have new: "usage_of ?d (EventID ?inp) = None" using load_stateD(3) [OF state i(2)] by simp
  then have none: "stored ?d (EventID ?inp) = None" by (simp add: stored_def)
  have "\<not> queue_full st ?d" using len room by (simp add: queue_full_def)
  with none fits have answer: "post_answer st 1000 (ctx_env c) (hex_encode raw) ?inp ?d =
      ((202, event_json (fresh_event ?ev ?now)), admitted ?ev ?now (env_clock (ctx_env c) 4) ?d)"
    by (simp add: post_answer_def)
  have times: "\<And>e. stored ?d (EventID ?inp) = Some e \<Longrightarrow> marshal_ok (JTime (CreatedAt e))" using none by simp
  from ServeHTTP_posts_at [OF h load_post_posts [OF hdrs media pfx i(1)] valid _ env(1) inv env(2) times env(3) answer, of ms]
  obtain rp where run: "ServeHTTP lib (Some raw) ms False (lv_handler s) c (load_post cfg extra pfx i) (lv_system s) =
      Return (rp, count_request 3 202 (lv_handler s), (lv_system s)\<lparr>sys_db := admitted ?ev ?now (env_clock (ctx_env c) 4) ?d\<rparr>)"
    "rp_status rp = Some 202" "rp_body rp = Some (Json (event_json (fresh_event ?ev ?now)))" by auto
  have "request_id_ok (hex_encode raw)" using env(2) by (simp add: request_id_ok_def hex_encode_lower)
  from priced_row_check [OF valid _ fits disjI2 [OF this]] new
  have "store_inv (admitted ?ev ?now (env_clock (ctx_env c) 4) ?d)"
    by (intro store_inv_admitted inv) (simp_all add: usage_of_None priced_event_def)
  note after = load_state_admitted [OF state i(2) refl this]
  have "good_post cfg extra pfx (load_post cfg extra pfx i) rp"
    unfolding good_post_def using run(2,3) i(1)
    by (intro exI [of _ i] exI [of _ "fresh_event ?ev ?now"]) (simp add: fresh_event_def priced_event_def)
  then show ?thesis using ok run(1) after len by (simp add: demo_ok_def)
qed

lemma poll_action:
  assumes ok: "demo_ok lib st rand cfg extra pfx k is s" and fine: "act_fine (Poll raw ms c)"
    and pfx: "length nonce = 16" "pfx = load_prefix nonce" and hdrs: "plain_headers extra"
  obtains rp s' where "service_action lib interval batch (load_action cfg extra pfx (Poll raw ms c)) s = s'"
    "demo_ok lib st rand cfg extra pfx k is s'" "lv_answers s' = lv_answers s @ [(load_get cfg extra pfx, rp)]"
    "rp_status rp = Some 200"
    "rp_body rp = Some (Json (summary_json (summary_spec pfx (customer_events pfx (sys_db (lv_system s))))))"
    "lv_system s' = lv_system s"
proof -
  from ok have h: "h_service (lv_handler s) = api_of (billing_service st 1000) rand"
      "h_token_hash (lv_handler s) = lib_sha256 lib (lc_token cfg)"
    and inv: "store_inv (sys_db (lv_system s))" by (auto simp: demo_ok_def dest: load_stateD(1))
  have r: "carries_token lib (lc_token cfg) (load_get cfg extra pfx)" "rq_method (load_get cfg extra pfx) = ''GET''"
    "rq_path (load_get cfg extra pfx) = ''/v1/customers/'' @ pfx @ ''/summary''"
    using load_wire_carries [OF hdrs] by (simp_all add: load_get_def load_wire_def)
  note p = load_prefix_ok [OF pfx]
  from ServeHTTP_summary [OF h r _ _ _ inv, of c raw ms] p fine
  obtain rp where run: "ServeHTTP lib (Some raw) ms False (lv_handler s) c (load_get cfg extra pfx) (lv_system s) =
      Return (rp, count_request 5 200 (lv_handler s), lv_system s)"
    "rp_status rp = Some 200"
    "rp_body rp = Some (Json (summary_json (summary_spec pfx (customer_events pfx (sys_db (lv_system s))))))" by auto
  then have "good_get cfg extra pfx (load_get cfg extra pfx) rp" unfolding good_get_def by blast
  with ok run show thesis by (intro that [OF refl]) (auto simp: demo_ok_def)
qed

lemma demo_runs:
  assumes "demo_ok lib st rand cfg extra pfx k is s" and "list_all act_fine as"
    and "distinct (is @ indices as)" and "\<forall>i\<in>set (indices as). i < 10000"
    and "int (k + length is + length (indices as)) \<le> sint (maxPending st)" and batch: "1 \<le> batch" "batch \<le> 1000"
    and pfx: "length nonce = 16" "pfx = load_prefix nonce" and hdrs: "plain_headers extra"
    and media: "lib_media_type lib ''application/json'' = Some ''application/json''"
  shows "demo_ok lib st rand cfg extra pfx k (is @ indices as)
    (run_service lib interval batch (map (load_action cfg extra pfx) as) s)"
  using assms(1-5)
proof (induction as arbitrary: "is" s)
  case (Cons a as)
  have step: "run_service lib interval batch (map (load_action cfg extra pfx) (a # as)) s =
      run_service lib interval batch (map (load_action cfg extra pfx) as) (service_action lib interval batch (load_action cfg extra pfx a) s)"
    by (simp add: run_service_def del: service_action.simps)
  note ok = Cons.prems(1)
  show ?case
  proof (cases a)
    case (Post i raw ms c)
    with Cons.prems have "act_fine (Post i raw ms c)" "i < 10000" "i \<notin> set is" "int (k + length is) < sint (maxPending st)" by auto
    from post_action [OF ok this pfx hdrs media] Cons.IH [of "is @ [i]"] Cons.prems Post show ?thesis
      unfolding step by simp
  next
    case (Poll raw ms c)
    with Cons.prems have "act_fine (Poll raw ms c)" by simp
    from poll_action [OF ok this pfx hdrs] obtain s' where
      "service_action lib interval batch (load_action cfg extra pfx a) s = s'" "demo_ok lib st rand cfg extra pfx k is s'"
      unfolding Poll by blast
    with Cons.IH [of "is" s'] Cons.prems Poll show ?thesis unfolding step by simp
  next
    case (Attempt t)
    with Cons.prems have fine: "act_fine (Attempt t)" by simp
    from ok have "store_inv (sys_db (lv_system s))" "lv_waiting s" by (auto simp: demo_ok_def dest: load_stateD(1))
    from attempt_action [OF fine batch this] obtain n evs s' where
      s': "service_action lib interval batch (load_action cfg extra pfx a) s = s'"
      "batch_done (tk_env t) batch (sys_db (lv_system s)) (env_violation (tk_env t)) n evs (sys_db (lv_system s'))"
      "lv_handler s' = lv_handler s" "lv_answers s' = lv_answers s" "lv_waiting s'"
      unfolding Attempt by (metis load_action.simps(3))
    have "\<And>i. env_violation (tk_env t) i = None" using fine by simp
    from load_state_batch [OF _ s'(2) this] ok s'(3-5) have "demo_ok lib st rand cfg extra pfx k is s'"
      by (fastforce simp: demo_ok_def)
    with Cons.IH [of "is" s'] Cons.prems Attempt s'(1) show ?thesis unfolding step by simp
  qed
qed (simp add: run_service_def)

lemma attempts_db:
  assumes "list_all act_fine (map Attempt ts)" and batch: "1 \<le> batch" "batch \<le> 1000"
    and "store_inv (sys_db (lv_system s))" and "lv_waiting s"
  shows "sys_db (lv_system (run_service lib interval batch (map (load_action cfg extra pfx) (map Attempt ts)) s)) =
    run_batches batch (map tk_env ts) (sys_db (lv_system s))"
  using assms(1,4,5)
proof (induction ts arbitrary: s)
  case (Cons t ts)
  from attempt_action [OF _ batch Cons.prems(2,3), of t lib interval] Cons.prems(1) obtain n evs s' where
    s': "service_action lib interval batch (Wakes (TimerFired t)) s = s'"
    "batch_done (tk_env t) batch (sys_db (lv_system s)) (env_violation (tk_env t)) n evs (sys_db (lv_system s'))"
    "sys_db (lv_system s') = snd (snd (ProcessBatchWithResults (tk_env t) batch (sys_db (lv_system s))))" "lv_waiting s'"
    by (metis list.pred_inject(2) list.simps(9))
  have "run_service lib interval batch (map (load_action cfg extra pfx) (map Attempt (t # ts))) s =
      run_service lib interval batch (map (load_action cfg extra pfx) (map Attempt ts)) s'"
    using s'(1) by (simp add: run_service_def del: service_action.simps)
  with Cons.IH [of s'] Cons.prems(1) batch_done_inv [OF s'(2)] s'(3,4) show ?case by (simp add: run_batches_Cons)
qed (simp add: run_service_def run_batches_def)

text \<open>Every event posted, the queue drained, and the read after it.\<close>

lemma work_bound: "store_inv d \<Longrightarrow> work d \<le> 3 * length (pending_events d)"
proof -
  assume inv: "store_inv d"
  have bound: "sum_list (map f ps) \<le> 3 * length ps" if "\<forall>p\<in>set ps. f p \<le> (3 :: nat)" for f and ps :: "pending_row list"
    using that by (induction ps) auto
  have "0 \<le> p_processing_failures p" if "p \<in> set (pending_events d)" for p
    using store_invD(7) [OF inv] that by (auto simp: list_all_iff pending_check_def)
  then have "\<forall>p\<in>set (pending_events d). nat (3 - p_processing_failures p) \<le> 3" by fastforce
  then show ?thesis unfolding work_def by (rule bound)
qed

lemma demo_settles:
  assumes ok: "demo_ok lib st rand cfg extra pfx k is s" and fine: "list_all act_fine (map Attempt ts)" "act_fine (Poll raw ms c)"
    and many: "3 * (k + length is) \<le> length ts" and batch: "1 \<le> batch" "batch \<le> 1000"
    and room: "int (k + length is) \<le> sint (maxPending st)"
    and pfx: "length nonce = 16" "pfx = load_prefix nonce" and hdrs: "plain_headers extra"
    and media: "lib_media_type lib ''application/json'' = Some ''application/json''" and "distinct is"
    and s': "s' = run_service lib interval batch (map (load_action cfg extra pfx) (map Attempt ts @ [Poll raw ms c])) s"
  obtains rp as where "demo_ok lib st rand cfg extra pfx k is s'" "lv_answers s' = as @ [(load_get cfg extra pfx, rp)]"
    "rp_status rp = Some 200"
    "rp_body rp = Some (Json (summary_json
      \<lparr>sm_CustomerID = pfx, sm_Currency = ''USD'', sm_Units = show_int (int (length is)),
       sm_AmountMicros = show_int (int (length is) * 1000), sm_Pending = 0, sm_Processed = int (length is), sm_Failed = 0\<rparr>))"
proof -
  define s1 where "s1 = run_service lib interval batch (map (load_action cfg extra pfx) (map Attempt ts)) s"
  from demo_runs [OF ok fine(1) _ _ _ batch pfx hdrs media, of interval] room assms(12)
  have ok1: "demo_ok lib st rand cfg extra pfx k is s1" by (simp add: s1_def)
  from ok have inv: "store_inv (sys_db (lv_system s))" and waits: "lv_waiting s"
    and len: "length (pending_events (sys_db (lv_system s))) \<le> k + length is"
    by (auto simp: demo_ok_def dest: load_stateD(1))
  have "work (sys_db (lv_system s)) \<le> length (map tk_env ts)" using work_bound [OF inv] len many by simp
  moreover have "\<forall>env\<in>set (map tk_env ts). good_env env" using fine(1) by (auto simp: list_all_iff)
  ultimately have "drained (sys_db (lv_system s1))"
    unfolding s1_def attempts_db [OF fine(1) batch inv waits] using run_batches_drains [OF _ batch inv] by blast
  from load_state_summary [OF _ this, of pfx "is"] ok1 have sum: "summary_spec pfx (customer_events pfx (sys_db (lv_system s1))) =
      \<lparr>sm_CustomerID = pfx, sm_Currency = ''USD'', sm_Units = show_int (int (length is)),
       sm_AmountMicros = show_int (int (length is) * 1000), sm_Pending = 0, sm_Processed = int (length is), sm_Failed = 0\<rparr>"
    by (simp add: demo_ok_def)
  from poll_action [OF ok1 fine(2) pfx hdrs, of interval batch] obtain rp s2 where
    p: "service_action lib interval batch (load_action cfg extra pfx (Poll raw ms c)) s1 = s2"
    "demo_ok lib st rand cfg extra pfx k is s2" "lv_answers s2 = lv_answers s1 @ [(load_get cfg extra pfx, rp)]"
    "rp_status rp = Some 200"
    "rp_body rp = Some (Json (summary_json (summary_spec pfx (customer_events pfx (sys_db (lv_system s1))))))" .
  have "s' = s2" unfolding s' p(1) [symmetric] s1_def by (simp add: run_service_def del: service_action.simps load_action.simps)
  with p(2-4) p(5) [unfolded sum] show thesis by (intro that) simp_all
qed

section \<open>What the client sees\<close>

text \<open>
  The reply on the client's side: \<open>render\<close> is the encoding of a JSON value. A reply reads back when
  \<open>json.Unmarshal\<close> of the text of an event or a summary gives that event or summary, and the text
  is within the client's limit.
\<close>

definition client_sees :: "(json_value \<Rightarrow> string) \<Rightarrow> reply \<Rightarrow> http_answer" where
  "client_sees render rp =
     (case (rp_status rp, rp_body rp) of
        (Some status, Some (Json v)) \<Rightarrow> Response status (render v) False False
      | (Some status, Some (Text t)) \<Rightarrow> Response status t False False
      | _ \<Rightarrow> NoResponse)"

definition reads_back :: "load_lib \<Rightarrow> (json_value \<Rightarrow> string) \<Rightarrow> reply \<Rightarrow> bool" where
  "reads_back lib render rp \<longleftrightarrow>
     (\<forall>e. rp_body rp = Some (Json (event_json e)) \<longrightarrow>
        lib_unmarshal_event lib (render (event_json e)) = Some e \<and> length (render (event_json e)) \<le> 16 * 1024) \<and>
     (\<forall>v. rp_body rp = Some (Json (summary_json v)) \<longrightarrow>
        lib_unmarshal_summary lib (render (summary_json v)) = Some v \<and> length (render (summary_json v)) \<le> 16 * 1024)"

lemma good_post_accepted:
  assumes "good_post cfg extra pfx (load_post cfg extra pfx i) rp" and "reads_back lib render rp"
    and "i < 10000" and pfx: "length nonce = 16" "pfx = load_prefix nonce"
  shows "load_accept lib (load_input pfx i) (client_sees render rp) = None"
proof -
  from assms(1) obtain j e where j: "j < 10000" "load_post cfg extra pfx i = load_post cfg extra pfx j"
    and e: "rp_status rp = Some 202" "rp_body rp = Some (Json (event_json e))" "Input e = load_input pfx j"
      "UnitPriceMicros e = 1000" "AmountMicros e = 1000" "Currency e = ''USD''"
    unfolding good_post_def by blast
  have "i = j" using load_post_inject [OF _ _ j(2)] load_input_valid [OF pfx] assms(3) j(1) by blast
  moreover have "lib_unmarshal_event lib (render (event_json e)) = Some e \<and> length (render (event_json e)) \<le> 16 * 1024"
    using assms(2) e(2) unfolding reads_back_def by blast
  ultimately show ?thesis using e by (simp add: load_accept_def load_request_def client_sees_def)
qed

lemma get_summary:
  assumes "rp_status rp = Some 200" and "rp_body rp = Some (Json (summary_json v))" and "reads_back lib render rp"
    and "sm_CustomerID v = pfx" and "sm_Currency v = ''USD''" and "0 \<le> sm_Pending v" and "0 \<le> sm_Processed v"
  shows "load_summary lib pfx (client_sees render rp) = Inr v"
proof -
  have "lib_unmarshal_summary lib (render (summary_json v)) = Some v \<and> length (render (summary_json v)) \<le> 16 * 1024"
    using assms(2,3) unfolding reads_back_def by blast
  with assms show ?thesis by (simp add: load_summary_def load_request_def client_sees_def)
qed

lemma good_get_summary:
  assumes "good_get cfg extra pfx r rp" and "reads_back lib render rp"
  shows "\<not> isl (load_summary lib pfx (client_sees render rp))"
proof -
  from assms(1) obtain evs where "rp_status rp = Some 200" "rp_body rp = Some (Json (summary_json (summary_spec pfx evs)))"
    unfolding good_get_def by blast
  from get_summary [OF this assms(2), of pfx] show ?thesis by (simp add: summary_spec_def)
qed

text \<open>
  A world of the load test made of the answers of a run: the answer to each kind of request is
  one the service gave to such a request, every index arrives once, and the last read of the
  settlement loop is the run's last answer.
\<close>

definition answered :: "(json_value \<Rightarrow> string) \<Rightarrow> live \<Rightarrow> request \<Rightarrow> http_answer \<Rightarrow> bool" where
  "answered render s r a \<longleftrightarrow> (\<exists>rp. (r, rp) \<in> set (lv_answers s) \<and> a = client_sees render rp)"

definition observes ::
  "(json_value \<Rightarrow> string) \<Rightarrow> load_config \<Rightarrow> (string \<times> string) list \<Rightarrow> string \<Rightarrow> live \<Rightarrow> load_world \<Rightarrow> bool" where
  "observes render cfg extra pfx s w \<longleftrightarrow>
     answered render s (load_get cfg extra pfx) (lw_probe w) \<and>
     mset (map fst (lw_arrivals w)) = mset [0..<nat (lc_requests cfg)] \<and>
     list_all (\<lambda>(i, a, ns). answered render s (load_post cfg extra pfx i) a) (lw_arrivals w) \<and>
     list_all (\<lambda>(a, ns, ended). answered render s (load_get cfg extra pfx) a) (lw_monitor w) \<and>
     lw_drain w \<noteq> [] \<and> fst (last (lw_drain w)) = client_sees render (snd (last (lv_answers s))) \<and>
     list_all (\<lambda>(a, ns). answered render s (load_get cfg extra pfx) a) (butlast (lw_drain w))"

lemma observed_run_passes:
  assumes valid: "load_validate lib cfg = None" and nonce: "lw_nonce w = Some nonce" "length nonce = 16" "pfx = load_prefix nonce"
    and good: "list_all (\<lambda>(r, rp). good_post cfg extra pfx r rp \<or> good_get cfg extra pfx r rp) (lv_answers s)"
    and codec: "list_all (\<lambda>(r, rp). reads_back lib render rp) (lv_answers s)"
    and obs: "observes render cfg extra pfx s w"
    and last: "lv_answers s = as @ [(r, rp)]" "load_summary lib pfx (client_sees render rp) = Inr v" "settled (lc_requests cfg) v"
  shows "\<exists>rep. load_run lib cfg w = (rep, None)"
proof -
  have gets: "\<not> isl (load_summary lib pfx a)" if a: "answered render s (load_get cfg extra pfx) a" for a
  proof -
    from a obtain rp' where rp': "(load_get cfg extra pfx, rp') \<in> set (lv_answers s)" "a = client_sees render rp'"
      unfolding answered_def by blast
    with good codec have "good_post cfg extra pfx (load_get cfg extra pfx) rp' \<or> good_get cfg extra pfx (load_get cfg extra pfx) rp'"
      and "reads_back lib render rp'" by (auto simp: list_all_iff)
    moreover have "\<not> good_post cfg extra pfx (load_get cfg extra pfx) rp'"
      unfolding good_post_def by (metis load_post_get)
    ultimately show ?thesis using good_get_summary rp'(2) by blast
  qed
  have posts: "load_accept lib (load_input pfx i) a = None"
    if a: "answered render s (load_post cfg extra pfx i) a" and i: "i < 10000" for i a
  proof -
    from a obtain rp' where rp': "(load_post cfg extra pfx i, rp') \<in> set (lv_answers s)" "a = client_sees render rp'"
      unfolding answered_def by blast
    with good codec have "good_post cfg extra pfx (load_post cfg extra pfx i) rp' \<or> good_get cfg extra pfx (load_post cfg extra pfx i) rp'"
      and rb: "reads_back lib render rp'" by (auto simp: list_all_iff)
    then have "good_post cfg extra pfx (load_post cfg extra pfx i) rp'"
      unfolding good_get_def by (metis load_post_get)
    from good_post_accepted [OF this rb i nonce(2,3)] rp'(2) show ?thesis by simp
  qed
  from load_validate_None [OF valid] have n: "1 \<le> lc_requests cfg" "lc_requests cfg \<le> 10000" by simp_all
  from obs have o1: "answered render s (load_get cfg extra pfx) (lw_probe w)"
      "mset (map fst (lw_arrivals w)) = mset [0..<nat (lc_requests cfg)]"
      "list_all (\<lambda>(i, a, ns). answered render s (load_post cfg extra pfx i) a) (lw_arrivals w)"
      "list_all (\<lambda>(a, ns, ended). answered render s (load_get cfg extra pfx) a) (lw_monitor w)"
      "lw_drain w \<noteq> []" "fst (last (lw_drain w)) = client_sees render rp"
      "list_all (\<lambda>(a, ns). answered render s (load_get cfg extra pfx) a) (butlast (lw_drain w))"
    using last(1) by (simp_all add: observes_def)
  have "i < 10000" if "(i, x) \<in> set (lw_arrivals w)" for i x
  proof -
    have "i \<in> set (map fst (lw_arrivals w))" using that by force
    then show ?thesis unfolding mset_eq_setD [OF o1(2)] using n by simp
  qed
  then have arrivals: "\<forall>(i, a, ns)\<in>set (lw_arrivals w). load_accept lib (load_input pfx i) a = None"
    using posts o1(3) by (fastforce simp: list_all_iff)
  have len: "int (length (lw_arrivals w)) = lc_requests cfg" using mset_eq_length [OF o1(2)] n by simp
  have drain: "lw_drain w = butlast (lw_drain w) @ [(client_sees render rp, snd (last (lw_drain w)))]"
    using o1(5,6) by (metis append_butlast_last_id prod.collapse)
  show ?thesis
    by (rule load_run_passes [OF valid nonce(1,3) gets [OF o1(1)] len arrivals _ drain _ last(2,3)])
      (use gets o1(4,7) in \<open>auto simp: list_all_iff\<close>)
qed

section \<open>The start\<close>

definition unused_prefix :: "string \<Rightarrow> db \<Rightarrow> bool" where
  "unused_prefix pfx d \<longleftrightarrow>
     (\<forall>u\<in>set (usage_events d). u_customer_id u \<noteq> pfx \<and> (\<forall>i. u_event_id u \<noteq> load_id pfx i))"

lemma demo_start:
  assumes "loadConfig frac getenv = Inr cfg" and "run_setup lib su cfg = Inr rn" and "store_inv d"
    and "cfg_rateMicros cfg = 1000" and "lc_token lc = cfg_token cfg" and "unused_prefix pfx d"
  shows "demo_ok lib (rn_store rn) (su_rand su) lc extra pfx (length (pending_events d)) [] (live_start rn d) \<and>
    sint (maxPending (rn_store rn)) = sint (cfg_maxPendingEvents cfg) \<and> 1 \<le> wk_batch (rn_worker rn) \<and> wk_batch (rn_worker rn) \<le> 1000"
proof -
  have ok: "config_ok cfg" by (rule loadConfig_ok [OF assms(1)])
  have none: "usage_of d (load_id pfx i) = None" for i
    using assms(6) by (auto simp: unused_prefix_def usage_of_None) metis
  then have "pending_of d (load_id pfx i) = None" for i
    using store_invD(5) [OF assms(3)] by (metis UnI1 pending_of_None usage_of_None)
  moreover have "filter (\<lambda>u. u_customer_id u = pfx) (usage_events d) = []"
    using assms(6) by (auto simp: unused_prefix_def filter_empty_conv)
  ultimately have "load_state pfx [] d" using assms(3) none by (simp add: load_state_def)
  with run_setup_ok [OF ok run_setup_ready [OF assms(2)], of lib] assms(2,4,5) ok show ?thesis
    by (auto simp: demo_ok_def live_start_def config_ok_def worker_New_def)
qed

text \<open>The JSON of an event or a summary determines it.\<close>

lemma event_json_inject [simp]: "event_json e = event_json e' \<longleftrightarrow> e = e'"
  by (cases e; cases e'; cases "Input e"; cases "Input e'") (auto simp: event_json_def sint_eq_iff split: if_splits)

lemma summary_json_inject [simp]: "summary_json v = summary_json v' \<longleftrightarrow> v = v'"
  by (cases v; cases v') (auto simp: summary_json_def)

lemma event_summary_json [simp]: "event_json e \<noteq> summary_json v"
  by (simp add: event_json_def summary_json_def)

lemma demo_passes:
  assumes "loadConfig frac getenv = Inr cfg" and "run_setup lib su cfg = Inr rn" and "store_inv d"
    and "cfg_rateMicros cfg = 1000" and token: "lc_token lc = cfg_token cfg"
    and media: "lib_media_type lib ''application/json'' = Some ''application/json''" and hdrs: "plain_headers extra"
    and valid: "load_validate llib lc = None"
    and nonce: "lw_nonce w = Some nonce" "length nonce = 16" "pfx = load_prefix nonce" and "unused_prefix pfx d"
    and room: "int (length (pending_events d)) + lc_requests lc \<le> sint (cfg_maxPendingEvents cfg)"
    and fine: "list_all act_fine as" "list_all act_fine (map Attempt ts)" "act_fine (Poll raw ms c)"
    and all: "mset (indices as) = mset [0..<nat (lc_requests lc)]"
    and many: "3 * (length (pending_events d) + nat (lc_requests lc)) \<le> length ts"
    and s: "s = live_run lib rn (map (load_action lc extra pfx) (as @ map Attempt ts @ [Poll raw ms c])) d"
    and codec: "list_all (\<lambda>(r, rp). reads_back llib render rp) (lv_answers s)"
    and obs: "observes render lc extra pfx s w"
  shows "\<exists>rep. load_run llib lc w = (rep, None)"
proof -
  let ?run = "run_service lib (wk_interval (rn_worker rn)) (wk_batch (rn_worker rn))" and ?k = "length (pending_events d)"
  from load_validate_None [OF valid] have n: "1 \<le> lc_requests lc" "lc_requests lc \<le> 10000" by simp_all
  from demo_start [OF assms(1-4) token assms(12)]
  have ok0: "demo_ok lib (rn_store rn) (su_rand su) lc extra pfx ?k [] (live_start rn d)"
    and limit: "sint (maxPending (rn_store rn)) = sint (cfg_maxPendingEvents cfg)"
    and batch: "1 \<le> wk_batch (rn_worker rn)" "wk_batch (rn_worker rn) \<le> 1000" by simp_all
  have set: "set (indices as) = {..<nat (lc_requests lc)}" using mset_eq_setD [OF all] by (simp add: atLeast0LessThan)
  have len: "length (indices as) = nat (lc_requests lc)" using mset_eq_length [OF all] by simp
  have dist: "distinct (indices as)" using mset_eq_imp_distinct_iff [OF all] by simp
  have below: "\<forall>i\<in>set (indices as). i < 10000"
  proof
    fix i
    assume "i \<in> set (indices as)"
    then have "i < nat (lc_requests lc)" by (simp add: set)
    then show "i < 10000" using n(2) by linarith
  qed
  define s1 where "s1 = ?run (map (load_action lc extra pfx) as) (live_start rn d)"
  have ok1: "demo_ok lib (rn_store rn) (su_rand su) lc extra pfx ?k (indices as) s1"
    using demo_runs [OF ok0 fine(1) _ below _ batch nonce(2,3) hdrs media] dist len n room limit by (simp add: s1_def)
  have s': "s = ?run (map (load_action lc extra pfx) (map Attempt ts @ [Poll raw ms c])) s1"
    by (simp add: s s1_def live_run_def run_service_def del: service_action.simps load_action.simps)
  have room1: "int (?k + length (indices as)) \<le> sint (maxPending (rn_store rn))" using room limit len n by simp
  have many1: "3 * (?k + length (indices as)) \<le> length ts" using many len by simp
  have total: "int (length (indices as)) = lc_requests lc" using len n by simp
  from demo_settles [OF ok1 fine(2,3) many1 batch room1 nonce(2,3) hdrs media dist s', unfolded total]
  obtain rp rest where ok: "demo_ok lib (rn_store rn) (su_rand su) lc extra pfx ?k (indices as) s"
    and last: "lv_answers s = rest @ [(load_get lc extra pfx, rp)]" "rp_status rp = Some 200"
    and body: "rp_body rp = Some (Json (summary_json
      \<lparr>sm_CustomerID = pfx, sm_Currency = ''USD'', sm_Units = show_int (lc_requests lc),
       sm_AmountMicros = show_int (lc_requests lc * 1000), sm_Pending = 0, sm_Processed = lc_requests lc, sm_Failed = 0\<rparr>))"
    by blast
  have "reads_back llib render rp" using codec last(1) by simp
  from get_summary [OF last(2) body this, of pfx] n
  have "load_summary llib pfx (client_sees render rp) = Inr
      \<lparr>sm_CustomerID = pfx, sm_Currency = ''USD'', sm_Units = show_int (lc_requests lc),
       sm_AmountMicros = show_int (lc_requests lc * 1000), sm_Pending = 0, sm_Processed = lc_requests lc, sm_Failed = 0\<rparr>"
    by simp
  from observed_run_passes [OF valid nonce _ codec obs last(1) this] ok n show ?thesis
    by (simp add: demo_ok_def settled_def)
qed

end
