(* ===== verification/Run_Properties.thy ===== *)
theory Run_Properties
  imports System_Run System_Properties Service_Properties
begin

text \<open>
  The properties of whole runs of the service as it is started from its configuration: requests
  and worker attempts in any order, over the store, with a run of a post, a batch and a read as
  their sample.
\<close>

section \<open>A run\<close>

text \<open>The event is posted, the worker wakes and posts it to the ledger, a client reads it.\<close>

definition sample_config :: config where
  "sample_config = projr (loadConfig (\<lambda>f unit scale. 0) sample_getenv)"

definition sample_started :: running where
  "sample_started = projr (run_setup sample_lib sample_startup sample_config)"

definition sample_actions :: "action list" where
  "sample_actions = [Request sample_raw 3 False (sample_ctx sample_env) sample_post,
     Wakes (TimerFired (sample_tick sample_env)),
     Request sample_raw 3 False (sample_ctx sample_env) (sample_request ''GET'' ''/v1/events/e1'' sample_token [])]"

lemma sample_started_run:
  "loadConfig (\<lambda>f unit scale. 0) sample_getenv = Inr sample_config"
  "run_setup sample_lib sample_startup sample_config = Inr sample_started"
proof -
  have "\<not> isl (loadConfig (\<lambda>f unit scale. 0) sample_getenv)" by code_simp
  then show cfg: "loadConfig (\<lambda>f unit scale. 0) sample_getenv = Inr sample_config"
    by (cases "loadConfig (\<lambda>f unit scale. 0) sample_getenv") (simp_all add: sample_config_def)
  have "cfg_httpAddr sample_config = ''[::1]:8080''" by code_simp
  then have "outside_ready sample_startup sample_config"
    by (simp add: outside_ready_def sample_startup_def pool_settings_def)
  from run_setup_ok [OF loadConfig_ok [OF cfg] this]
  have "\<exists>rn. run_setup sample_lib sample_startup sample_config = Inr rn" by blast
  then show "run_setup sample_lib sample_startup sample_config = Inr sample_started"
    by (auto simp: sample_started_def)
qed

lemma sample_limit: "within_limit (rn_store sample_started) empty_db"
proof -
  have "0 \<le> sint (maxPending (rn_store sample_started))" by code_simp
  then show ?thesis using store_inv_empty by (simp add: within_limit_def) (simp add: empty_db_def)
qed

section \<open>Properties\<close>

text \<open>
  C4. The service refines the store: started from a configuration that loads, whatever the
  requests, the clients, the database and the worker do, in any order, the tables of a run are
  those of a sequence of store operations; so the store's invariant holds, the queue stays
  within the configured limit, and the handler serves on.
\<close>

theorem service_refines_store:
  assumes "loadConfig frac getenv = Inr cfg" and "run_setup lib su cfg = Inr rn"
    and "within_limit (rn_store rn) d" and "live_run lib rn as d = s"
  shows "(\<exists>ops. sys_db (lv_system s) = run_ops (rn_store rn) ops d) \<and> store_inv (sys_db (lv_system s)) \<and>
    int (length (pending_events (sys_db (lv_system s)))) \<le> sint (cfg_maxPendingEvents cfg) \<and>
    serves_store (rn_store rn) (cfg_rateMicros cfg) (su_rand su) (su_float_text su) (lv_handler s)"
proof -
  from live_start_ok [OF assms(1-3)]
  have ok: "service_ok (rn_store rn) (cfg_rateMicros cfg) (su_rand su) (su_float_text su) (live_start rn d)"
    and limit: "maxPending (rn_store rn) = cfg_maxPendingEvents cfg" by simp_all
  have "sys_db (lv_system (live_start rn d)) = d" by (simp add: live_start_def)
  with run_service_ok [OF ok] run_service_grows [OF ok] limit show ?thesis
    unfolding assms(4) [symmetric] live_run_def service_ok_def service_grows_def within_limit_def by fastforce
qed

theorem service_refines_store_witness:
  "\<exists>ops. sys_db (lv_system (live_run sample_lib sample_started sample_actions empty_db)) =
     run_ops (rn_store sample_started) ops empty_db"
  using service_refines_store [OF sample_started_run sample_limit refl] by blast

text \<open>
  C7. Answers stay true: an event a client was given in a run, by a 200 or a 202 to a POST, a GET or
  a retry, is still kept at the end, under the identifier of the request and, for a POST, with
  the posted input; what changed since are steps of its life, so its frozen part did not.
\<close>

theorem answers_stay_true:
  assumes "loadConfig frac getenv = Inr cfg" and "run_setup lib su cfg = Inr rn"
    and "within_limit (rn_store rn) d" and "live_run lib rn as d = s"
    and "(r, rp) \<in> set (lv_answers s)" and "event_answer r rp"
  shows "\<exists>e e'. about_event r rp e \<and> stored (sys_db (lv_system s)) (EventID (Input e)) = Some e' \<and>
    event_step\<^sup>*\<^sup>* e e' \<and> frozen e' = frozen e"
proof -
  from live_start_ok [OF assms(1-3)]
  have ok: "service_ok (rn_store rn) (cfg_rateMicros cfg) (su_rand su) (su_float_text su) (live_start rn d)" by simp
  from run_service_ok [OF this, of lib "wk_interval (rn_worker rn)" "wk_batch (rn_worker rn)" as]
  have "answer_kept (sys_db (lv_system s)) (r, rp)"
    using assms(4,5) by (auto simp: service_ok_def list_all_iff live_run_def)
  with assms(6) obtain e e' where "about_event r rp e" "stored (sys_db (lv_system s)) (EventID (Input e)) = Some e'"
    "event_step\<^sup>*\<^sup>* e e'" by (auto simp: answer_kept_def)
  with event_steps_frozen show ?thesis by blast
qed

lemma sample_answers:
  "map (\<lambda>(r, rp). (rq_method r, fst (route (rq_path r)), rp_status rp))
     (lv_answers (live_run sample_lib sample_started sample_actions empty_db)) =
     [(''POST'', 3, Some 202), (''GET'', 4, Some 200)]"
  by code_simp

theorem answers_stay_true_witness:
  "\<exists>r rp e e'. (r, rp) \<in> set (lv_answers (live_run sample_lib sample_started sample_actions empty_db)) \<and>
     rq_method r = ''GET'' \<and> about_event r rp e \<and>
     stored (sys_db (lv_system (live_run sample_lib sample_started sample_actions empty_db))) (EventID (Input e)) = Some e' \<and>
     frozen e' = frozen e"
proof -
  let ?s = "live_run sample_lib sample_started sample_actions empty_db"
  obtain a r rp where answers: "lv_answers ?s = [a, (r, rp)]" and r: "rq_method r = ''GET''" "event_answer r rp"
    using sample_answers by (auto simp: event_answer_def)
  then have "(r, rp) \<in> set (lv_answers ?s)" by simp
  from answers_stay_true [OF sample_started_run sample_limit refl this r(2)] this r(1) show ?thesis by blast
qed



end
