(* ===== verification/Load_Properties.thy ===== *)
theory Load_Properties
  imports Load_Main Samples
begin

text \<open>What a load test that reports no error has shown, with a run of two requests.\<close>

definition sample_load_lib :: load_lib where
  "sample_load_lib =
     \<lparr>lib_parse_url = \<lambda>s. Some \<lparr>url_scheme = ''http'', url_has_user = False, url_raw_query = [], url_fragment = [],
        url_path = [], url_opaque = [], url_hostname = ''127.0.0.1''\<rparr>,
      lib_parse_addr = \<lambda>h. Some (h = ''127.0.0.1'', []),
      lib_unmarshal_event = \<lambda>b. Some (zero_event\<lparr>Input := \<lparr>EventID = b, CustomerID = take 37 b, Meter = ''api_calls'', Units = 1\<rparr>,
        UnitPriceMicros := 1000, AmountMicros := 1000, Currency := ''USD''\<rparr>),
      lib_unmarshal_summary = \<lambda>b. Some \<lparr>sm_CustomerID = b, sm_Currency = ''USD'', sm_Units = ''2'', sm_AmountMicros = ''2000'',
        sm_Pending = 0, sm_Processed = 2, sm_Failed = 0\<rparr>\<rparr>"

definition sample_load_config :: load_config where
  "sample_load_config = \<lparr>lc_baseURL = ''http://127.0.0.1'', lc_token = replicate 32 CHR ''k'', lc_requests = 2,
     lc_concurrency = 2, lc_timeout = 1000000000, lc_allowWrites = True\<rparr>"

definition sample_world :: load_world where
  "sample_world =
     (let pfx = load_prefix (replicate 16 7) in
      \<lparr>lw_nonce = Some (replicate 16 7), lw_probe = Response 200 pfx False False,
       lw_arrivals = [(1, Response 202 (pfx @ ''_1'') False False, 9), (0, Response 202 (pfx @ ''_0'') False False, 4)],
       lw_monitor = [], lw_drain = [(Response 200 pfx False False, 20)]\<rparr>)"

definition sample_load_args :: "string list" where
  "sample_load_args = [''-requests'', ''0x2'', ''--concurrency=2'', ''-timeout'', ''1s'', ''-allow-demo-writes'']"

definition sample_load_exit :: load_exit where
  "sample_load_exit = load_main sample_load_lib (\<lambda>f unit scale. 0) (\<lambda>name. replicate 32 CHR ''k'') sample_load_args
     sample_world True"

text \<open>
  C40. The load test exits with code 0 only when it was allowed to write by its flag and aimed at a
  plain loopback origin, every request index was sent by exactly one client and answered with
  its own event at the expected price, and the last summary shows all of them processed with the
  exact amount; and the reported percentile is the nearest rank of the times of the accepted
  requests.
\<close>

theorem load_report_honest:
  assumes "load_main lib frac getenv args w writes = \<lparr>le_code = 0, le_errors = errs, le_report = Some rep\<rparr>"
    and "interleaved (nat (rep_concurrency rep)) (nat (rep_requests rep)) (map fst (lw_arrivals w))"
  shows "(\<exists>s\<in>set args. names_flag ''allow-demo-writes'' s) \<and>
    (\<exists>cfg u. parse_flags frac args load_defaults = FlagsSet cfg \<and> lib_parse_url lib (lc_baseURL cfg) = Some u \<and>
       plain_origin u \<and> lib_parse_addr lib (url_hostname u) = Some (True, [])) \<and>
    (\<exists>nonce v. lw_nonce w = Some nonce \<and>
    mset (map fst (lw_arrivals w)) = mset [0..<nat (rep_requests rep)] \<and>
    (\<forall>(i, answer, ns)\<in>set (lw_arrivals w). \<exists>event. load_request (lib_unmarshal_event lib) 202 answer = Inr event \<and>
       Input event = load_input (load_prefix nonce) i \<and> AmountMicros event = 1000) \<and>
    rep_final rep = Some v \<and> sm_Pending v = 0 \<and> sm_Processed v = rep_requests rep \<and>
    sm_AmountMicros v = show_int (rep_requests rep * 1000) \<and>
    rep_p95 rep \<in> set (rep_latencies rep) \<and>
    95 * length (rep_latencies rep) \<le> 100 * length (filter (\<lambda>t. t \<le> rep_p95 rep) (rep_latencies rep)) \<and>
    100 * length (filter (\<lambda>t. t < rep_p95 rep) (rep_latencies rep)) < 95 * length (rep_latencies rep))"
    (is "_ \<and> ?origin \<and> ?honest")
  using assms(1)
proof (rule load_main_success)
  fix cfg0 cfg
  assume flags: "parse_flags frac args load_defaults = FlagsSet cfg0" "cfg = cfg0\<lparr>lc_token := getenv ''BILLING_API_TOKEN''\<rparr>"
    and valid: "load_validate lib cfg = None" and run: "load_run lib cfg w = (rep, None)"
    and named: "\<exists>s\<in>set args. names_flag ''allow-demo-writes'' s"
  note sizes = load_run_sizes [OF run]
  have ?origin using flags load_validate_None [OF valid] by auto
  moreover have ?honest
  proof (rule load_run_success [OF run])
    show "interleaved (nat (lc_concurrency cfg)) (nat (lc_requests cfg)) (map fst (lw_arrivals w))" using assms(2) sizes by simp
    fix nonce v
    assume r: "lw_nonce w = Some nonce" "mset (map fst (lw_arrivals w)) = mset [0..<nat (lc_requests cfg)]"
      "\<forall>(i, answer, ns)\<in>set (lw_arrivals w). load_accept lib (load_input (load_prefix nonce) i) answer = None"
      "rep_final rep = Some v" "settled (lc_requests cfg) v"
      "rep_latencies rep = map (snd \<circ> snd) (lw_arrivals w)" "rep_p95 rep = percentile (rep_latencies rep) 95"
    have "1 \<le> lc_requests cfg" using load_validate_None [OF valid] by simp
    with mset_eq_length [OF r(2)] have "rep_latencies rep \<noteq> []" by (auto simp: r(6))
    from percentile_rank [OF this, of 95] r(7) load_accept_None r(1-5) show ?thesis
      unfolding settled_def sizes [THEN conjunct1] by fastforce
  qed
  ultimately show ?thesis using named by blast
qed

theorem load_report_honest_witness:
  "\<exists>rep. sample_load_exit = \<lparr>le_code = 0, le_errors = [], le_report = Some rep\<rparr> \<and> rep_p95 rep \<in> set (rep_latencies rep)"
proof -
  let ?set = "load_defaults\<lparr>lc_requests := 2, lc_concurrency := 2, lc_timeout := 1000000000, lc_allowWrites := True\<rparr>"
  let ?cfg = "?set\<lparr>lc_token := replicate 32 CHR ''k''\<rparr>"
  have "flag_parts ''-requests'' = Some (''requests'', None)" "flag_parts ''--concurrency=2'' = Some (''concurrency'', Some ''2'')"
    "flag_parts ''-timeout'' = Some (''timeout'', None)" "flag_parts ''-allow-demo-writes'' = Some (''allow-demo-writes'', Some ''true'')"
    "parse_int_any ''0x2'' = Some 2" "parse_int_any ''2'' = Some 2" "parse_bool ''true'' = Some True"
    "parse_duration (\<lambda>f unit scale. 0) ''1s'' = Some 1000000000" by code_simp+
  then have flags: "parse_flags (\<lambda>f unit scale. 0) sample_load_args load_defaults = FlagsSet ?set"
    by (simp add: sample_load_args_def set_flag_def load_flags_def)
  have valid: "load_validate sample_load_lib ?cfg = None" by code_simp
  have "snd (load_run sample_load_lib ?cfg sample_world) = None" by code_simp
  then obtain rep where run: "load_run sample_load_lib ?cfg sample_world = (rep, None)" by (metis prod.collapse)
  with flags valid have exit: "sample_load_exit = \<lparr>le_code = 0, le_errors = [], le_report = Some rep\<rparr>"
    by (simp add: sample_load_exit_def load_main_def Let_def)
  have "rep_concurrency rep = 2" "rep_requests rep = 2" using load_run_sizes [OF run] by simp_all
  moreover have "interleaved 2 2 [1, 0]"
    by (auto simp: interleaved_def client_from.simps less_2_cases_iff numeral_2_eq_2)
  ultimately have "interleaved (nat (rep_concurrency rep)) (nat (rep_requests rep)) (map fst (lw_arrivals sample_world))"
    by (simp add: sample_world_def Let_def)
  from load_report_honest [OF exit [unfolded sample_load_exit_def] this] exit show ?thesis by blast
qed

end
