(* ===== verification/Demo_Properties.thy ===== *)
theory Demo_Properties
  imports Load_Demo Run_Properties Load_Properties
begin

text \<open>
  The load test against the service it was written for: what makes it exit with code 0, with a
  run of one event as the sample.
\<close>

section \<open>A demo of one event\<close>

definition demo_args :: "string list" where
  "demo_args = [''-requests=1'', ''--concurrency'', ''1'', ''-allow-demo-writes'']"

definition demo_config :: load_config where
  "demo_config = load_defaults\<lparr>lc_requests := 1, lc_concurrency := 1, lc_allowWrites := True,
     lc_token := replicate 32 CHR ''k''\<rparr>"

definition demo_prefix :: string where
  "demo_prefix = load_prefix (replicate 16 7)"

definition demo_event :: event where
  "demo_event = fresh_event (priced_event 1000 (hex_encode sample_raw) (load_input demo_prefix 0)) 1001"

definition demo_summary :: "string \<Rightarrow> summary" where
  "demo_summary units = \<lparr>sm_CustomerID = demo_prefix, sm_Currency = ''USD'', sm_Units = units,
     sm_AmountMicros = (if units = ''0'' then ''0'' else ''1000''), sm_Pending = 0,
     sm_Processed = (if units = ''0'' then 0 else 1), sm_Failed = 0\<rparr>"

text \<open>A short encoding that tells the values of this run apart.\<close>

definition demo_render :: "json_value \<Rightarrow> string" where
  "demo_render v =
     (case v of
        JObj fs \<Rightarrow> (case map_of fs ''event_id'' of
          Some x \<Rightarrow> ''event''
        | None \<Rightarrow> (case map_of fs ''units'' of Some (JStr units) \<Rightarrow> units | _ \<Rightarrow> []))
      | _ \<Rightarrow> [])"

definition demo_lib :: load_lib where
  "demo_lib = sample_load_lib\<lparr>lib_unmarshal_event := \<lambda>b. if b = ''event'' then Some demo_event else None,
     lib_unmarshal_summary := \<lambda>b. Some (demo_summary b)\<rparr>"

definition demo_acts :: "load_act list" where
  "demo_acts = [Poll sample_raw 1 (sample_ctx sample_env), Post 0 sample_raw 3 (sample_ctx sample_env)]"

definition demo_ticks :: "pg_env tick list" where
  "demo_ticks = replicate 3 (sample_tick sample_env)"

definition demo_live :: live where
  "demo_live = live_run sample_lib sample_started (map (load_action demo_config [(''User-Agent'', ''Go'')] demo_prefix)
     (demo_acts @ map Attempt demo_ticks @ [Poll sample_raw 1 (sample_ctx sample_env)])) empty_db"

definition demo_world :: load_world where
  "demo_world =
     (let seen = map (\<lambda>(r, rp). client_sees demo_render rp) (lv_answers demo_live) in
      \<lparr>lw_nonce = Some (replicate 16 7), lw_probe = seen ! 0, lw_arrivals = [(0, seen ! 1, 5)], lw_monitor = [],
       lw_drain = [(seen ! 2, 9)]\<rparr>)"

lemma demo_bodies:
  "map (\<lambda>(r, rp). rp_body rp) (lv_answers demo_live) =
     [Some (Json (summary_json (demo_summary ''0''))), Some (Json (event_json demo_event)),
      Some (Json (summary_json (demo_summary ''1'')))]"
  by code_simp

lemma demo_requests:
  "map (\<lambda>(r, rp). r) (lv_answers demo_live) =
     [load_get demo_config [(''User-Agent'', ''Go'')] demo_prefix, load_post demo_config [(''User-Agent'', ''Go'')] demo_prefix 0,
      load_get demo_config [(''User-Agent'', ''Go'')] demo_prefix]"
proof -
  let ?as = "map (load_action demo_config [(''User-Agent'', ''Go'')] demo_prefix)
    (demo_acts @ map Attempt demo_ticks @ [Poll sample_raw 1 (sample_ctx sample_env)])"
  have "list_all entropy_ok ?as"
    by (simp add: demo_acts_def demo_ticks_def entropy_ok_def sample_raw_def numeral_eq_Suc)
  from run_service_answers [OF live_start_ok [OF sample_started_run sample_limit, THEN conjunct1] this]
  show ?thesis
    by (simp add: demo_live_def live_run_def live_start_def demo_acts_def demo_ticks_def requests_of_def numeral_eq_Suc
      case_prod_unfold)
qed

lemma demo_answers:
  obtains rp0 rp1 rp2 where "lv_answers demo_live =
     [(load_get demo_config [(''User-Agent'', ''Go'')] demo_prefix, rp0),
      (load_post demo_config [(''User-Agent'', ''Go'')] demo_prefix 0, rp1),
      (load_get demo_config [(''User-Agent'', ''Go'')] demo_prefix, rp2)]"
    "rp_body rp0 = Some (Json (summary_json (demo_summary ''0'')))"
    "rp_body rp1 = Some (Json (event_json demo_event))"
    "rp_body rp2 = Some (Json (summary_json (demo_summary ''1'')))"
proof -
  have "length (lv_answers demo_live) = 3" using arg_cong [OF demo_bodies, of length] by simp
  then obtain r0 rp0 r1 rp1 r2 rp2 where "lv_answers demo_live = [(r0, rp0), (r1, rp1), (r2, rp2)]"
    by (auto simp: numeral_eq_Suc length_Suc_conv)
  with demo_bodies demo_requests show thesis by (intro that [of rp0 rp1 rp2]) simp_all
qed

lemma demo_reads_back: "list_all (\<lambda>(r, rp). reads_back demo_lib demo_render rp) (lv_answers demo_live)"
proof -
  have r: "demo_render (summary_json (demo_summary ''0'')) = ''0''" "demo_render (summary_json (demo_summary ''1'')) = ''1''"
    "demo_render (event_json demo_event) = ''event''" by code_simp+
  show ?thesis
    by (rule demo_answers) (simp add: reads_back_def demo_lib_def r event_summary_json [symmetric])
qed

lemma demo_observes: "observes demo_render demo_config [(''User-Agent'', ''Go'')] demo_prefix demo_live demo_world"
proof (rule demo_answers)
  fix rp0 rp1 rp2
  assume "lv_answers demo_live =
     [(load_get demo_config [(''User-Agent'', ''Go'')] demo_prefix, rp0),
      (load_post demo_config [(''User-Agent'', ''Go'')] demo_prefix 0, rp1),
      (load_get demo_config [(''User-Agent'', ''Go'')] demo_prefix, rp2)]"
  then show ?thesis
    unfolding observes_def answered_def demo_world_def Let_def
    by (intro conjI) (auto simp: demo_config_def)
qed

section \<open>Properties\<close>

text \<open>
  C8. The load test passes on the service it was written for: aimed at a service with its token and
  the default price, with room in the queue for its events and a prefix not used before, while
  the database answers and the worker makes attempts enough, in any order with the requests, it
  exits with code 0: every post is accepted at its price and the last summary is the exact total.
\<close>

theorem load_test_passes:
  assumes "loadConfig frac getenv = Inr cfg" and "run_setup lib su cfg = Inr rn" and "store_inv d"
    and "cfg_rateMicros cfg = 1000" and "lc_token lc = cfg_token cfg"
    and "lib_media_type lib ''application/json'' = Some ''application/json''" and "plain_headers extra"
    and "parse_flags frac' args load_defaults = FlagsSet lc0" and "lc = lc0\<lparr>lc_token := getenv' ''BILLING_API_TOKEN''\<rparr>"
    and "load_validate llib lc = None"
    and "lw_nonce w = Some nonce" and "length nonce = 16" and "pfx = load_prefix nonce" and "unused_prefix pfx d"
    and "int (length (pending_events d)) + lc_requests lc \<le> sint (cfg_maxPendingEvents cfg)"
    and "list_all act_fine as" and "list_all act_fine (map Attempt ts)" and "act_fine (Poll raw ms c)"
    and "mset (indices as) = mset [0..<nat (lc_requests lc)]"
    and "3 * (length (pending_events d) + nat (lc_requests lc)) \<le> length ts"
    and "s = live_run lib rn (map (load_action lc extra pfx) (as @ map Attempt ts @ [Poll raw ms c])) d"
    and "list_all (\<lambda>(r, rp). reads_back llib render rp) (lv_answers s)"
    and "observes render lc extra pfx s w"
  shows "le_code (load_main llib frac' getenv' args w True) = 0"
proof -
  obtain rep where "load_run llib lc w = (rep, None)"
    using demo_passes [OF assms(1-7,10-23)] by blast
  with assms(8-10) show ?thesis by (simp add: load_main_def Let_def)
qed

theorem load_test_passes_witness:
  "le_code (load_main demo_lib (\<lambda>f unit scale. 0) (\<lambda>name. replicate 32 CHR ''k'') demo_args demo_world True) = 0"
proof (rule load_test_passes [OF sample_started_run store_inv_empty])
  show "cfg_rateMicros sample_config = 1000" "lc_token demo_config = cfg_token sample_config" by code_simp+
  show "lib_media_type sample_lib ''application/json'' = Some ''application/json''" by code_simp
  show "plain_headers [(''User-Agent'', ''Go'')]" by code_simp
  have "flag_parts ''-requests=1'' = Some (''requests'', Some ''1'')" "flag_parts ''--concurrency'' = Some (''concurrency'', None)"
    "flag_parts ''-allow-demo-writes'' = Some (''allow-demo-writes'', Some ''true'')"
    "parse_int_any ''1'' = Some 1" "parse_bool ''true'' = Some True" by code_simp+
  then show "parse_flags (\<lambda>f unit scale. 0) demo_args load_defaults =
      FlagsSet (load_defaults\<lparr>lc_requests := 1, lc_concurrency := 1, lc_allowWrites := True\<rparr>)"
    by (simp add: demo_args_def set_flag_def load_flags_def)
  show "demo_config = load_defaults\<lparr>lc_requests := 1, lc_concurrency := 1, lc_allowWrites := True,
      lc_token := replicate 32 CHR ''k''\<rparr>" by (simp add: demo_config_def)
  show "load_validate demo_lib demo_config = None" by code_simp
  show "lw_nonce demo_world = Some (replicate 16 7)" by (simp add: demo_world_def Let_def)
  show "demo_prefix = load_prefix (replicate 16 7)" by (simp add: demo_prefix_def)
  show "unused_prefix demo_prefix empty_db" by (simp add: unused_prefix_def empty_db_def)
  show "int (length (pending_events empty_db)) + lc_requests demo_config \<le> sint (cfg_maxPendingEvents sample_config)" by code_simp
  show "list_all act_fine demo_acts"
    by (simp add: demo_acts_def sample_ctx_def sample_raw_def) (simp add: sample_env_def)
  show "list_all act_fine (map Attempt demo_ticks)"
    by (simp add: demo_ticks_def numeral_eq_Suc sample_tick_def) (simp add: sample_env_def)
  show "act_fine (Poll sample_raw 1 (sample_ctx sample_env))" by (simp add: sample_ctx_def)
  show "mset (indices demo_acts) = mset [0..<nat (lc_requests demo_config)]" by (simp add: demo_acts_def demo_config_def)
  show "3 * (length (pending_events empty_db) + nat (lc_requests demo_config)) \<le> length demo_ticks"
    by (simp add: empty_db_def demo_config_def demo_ticks_def)
  show "demo_live = live_run sample_lib sample_started (map (load_action demo_config [(''User-Agent'', ''Go'')] demo_prefix)
     (demo_acts @ map Attempt demo_ticks @ [Poll sample_raw 1 (sample_ctx sample_env)])) empty_db" by (rule demo_live_def)
  show "list_all (\<lambda>(r, rp). reads_back demo_lib demo_render rp) (lv_answers demo_live)"
    by (rule demo_reads_back)
  show "observes demo_render demo_config [(''User-Agent'', ''Go'')] demo_prefix demo_live demo_world"
    by (rule demo_observes)
qed simp

end
