(* ===== verification/Migrations.thy ===== *)
theory Migrations
  imports Store_Inv
begin

text \<open>
  The migrations of \<open>migrations/*.sql\<close>: the tables as the first one creates them, what the later
  ones add and what their down migrations take away, with the guards under which these refuse.
  The tables after the third are those of \<open>Pg_Schema\<close>.
\<close>

section \<open>The first tables\<close>

record first_usage =
  f_event_id :: string
  f_customer_id :: string
  f_meter :: string
  f_units :: int64
  f_unit_price_micros :: int64
  f_amount_micros :: int64
  f_currency :: string
  f_created_at :: int

record first_pending =
  q_event_id :: string
  q_enqueued_at :: int

record ('u, 'p) tables =
  tb_usage :: "'u list"
  tb_pending :: "'p list"
  tb_ledger :: "ledger_row list"

definition first_check :: "first_usage \<Rightarrow> bool" where
  "first_check u \<longleftrightarrow> sql_id (f_event_id u) \<and> sql_id (f_customer_id u) \<and> f_meter u = ''api_calls'' \<and>
     0 < sint (f_units u) \<and> 0 < sint (f_unit_price_micros u) \<and> 0 < sint (f_amount_micros u) \<and> f_currency u = ''USD'' \<and>
     sint (f_amount_micros u) = sint (f_units u) * sint (f_unit_price_micros u)"

text \<open>\<open>000001_init\<close>: no table may exist before; the down migration drops them with their rows.\<close>

definition up_init :: "(first_usage, first_pending) tables option \<Rightarrow> string + (first_usage, first_pending) tables" where
  "up_init existing =
     (case existing of
        Some t \<Rightarrow> Inl ''42P07''
      | None \<Rightarrow> Inr \<lparr>tb_usage = [], tb_pending = [], tb_ledger = []\<rparr>)"

definition down_init :: "(first_usage, first_pending) tables \<Rightarrow> (first_usage, first_pending) tables option" where
  "down_init t = None"

section \<open>Event recovery\<close>

definition add_recovery :: "first_pending \<Rightarrow> pending_row" where
  "add_recovery q = \<lparr>p_event_id = q_event_id q, p_enqueued_at = q_enqueued_at q, p_processing_failures = 0,
     p_failure_code = '''', p_retry_generation = 0\<rparr>"

definition drop_recovery :: "pending_row \<Rightarrow> first_pending" where
  "drop_recovery p = \<lparr>q_event_id = p_event_id p, q_enqueued_at = p_enqueued_at p\<rparr>"

definition up_recovery :: "(first_usage, first_pending) tables \<Rightarrow> (first_usage, pending_row) tables" where
  "up_recovery t = \<lparr>tb_usage = tb_usage t, tb_pending = map add_recovery (tb_pending t), tb_ledger = tb_ledger t\<rparr>"

text \<open>
  The guard of the down migration reads the rows of one snapshot, and the columns are dropped
  from those at its end, which the table's lock is taken for: the two arguments.
\<close>

definition recovery_in_use :: "(first_usage, pending_row) tables \<Rightarrow> bool" where
  "recovery_in_use t \<longleftrightarrow>
     list_ex (\<lambda>p. p_processing_failures p > 0 \<or> sint (p_retry_generation p) > 0) (tb_pending t)"

definition down_recovery ::
  "(first_usage, pending_row) tables \<Rightarrow> (first_usage, pending_row) tables \<Rightarrow>
   string + (first_usage, first_pending) tables" where
  "down_recovery checked t =
     (if recovery_in_use checked then Inl ''drain recovery state before reverting event recovery''
      else Inr \<lparr>tb_usage = tb_usage t, tb_pending = map drop_recovery (tb_pending t), tb_ledger = tb_ledger t\<rparr>)"

section \<open>Request identifiers\<close>

definition add_request_id :: "first_usage \<Rightarrow> usage_row" where
  "add_request_id u = \<lparr>u_event_id = f_event_id u, u_customer_id = f_customer_id u, u_meter = f_meter u,
     u_units = f_units u, u_unit_price_micros = f_unit_price_micros u, u_amount_micros = f_amount_micros u,
     u_currency = f_currency u, u_created_at = f_created_at u, u_request_id = ''''\<rparr>"

definition drop_request_id :: "usage_row \<Rightarrow> first_usage" where
  "drop_request_id u = \<lparr>f_event_id = u_event_id u, f_customer_id = u_customer_id u, f_meter = u_meter u,
     f_units = u_units u, f_unit_price_micros = u_unit_price_micros u, f_amount_micros = u_amount_micros u,
     f_currency = u_currency u, f_created_at = u_created_at u\<rparr>"

definition up_request_id :: "(first_usage, pending_row) tables \<Rightarrow> db" where
  "up_request_id t = \<lparr>usage_events = map add_request_id (tb_usage t), pending_events = tb_pending t,
     ledger_entries = tb_ledger t\<rparr>"

text \<open>This guard reads under an exclusive lock of the table, so there is one state.\<close>

definition down_request_id :: "db \<Rightarrow> string + (first_usage, pending_row) tables" where
  "down_request_id d =
     (if list_ex (\<lambda>u. u_request_id u \<noteq> '''') (usage_events d) then Inl ''cannot remove persisted request IDs''
      else Inr \<lparr>tb_usage = map drop_request_id (usage_events d), tb_pending = pending_events d,
                tb_ledger = ledger_entries d\<rparr>)"

section \<open>What is added can be taken away, and nothing else\<close>

lemma drop_add [simp]: "drop_recovery (add_recovery q) = q" "drop_request_id (add_request_id u) = u"
  by (simp_all add: drop_recovery_def add_recovery_def drop_request_id_def add_request_id_def)

lemma add_drop_request_id: "u_request_id u = '''' \<Longrightarrow> add_request_id (drop_request_id u) = u"
  by (simp add: add_request_id_def drop_request_id_def)

lemma add_drop_recovery:
  assumes "pending_check p" and "\<not> (p_processing_failures p > 0 \<or> sint (p_retry_generation p) > 0)"
  shows "add_recovery (drop_recovery p) = p"
proof -
  from assms have "p_processing_failures p = 0" "p_failure_code p = ''''" "sint (p_retry_generation p) = 0"
    by (auto simp: pending_check_def)
  then show ?thesis using sint_eq_iff [of "p_retry_generation p" 0] by (simp add: add_recovery_def drop_recovery_def)
qed

lemma down_up_request_id: "down_request_id (up_request_id t) = Inr t"
proof -
  have "\<not> list_ex (\<lambda>u. u_request_id u \<noteq> '''') (map add_request_id us)" for us
    by (induction us) (simp_all add: add_request_id_def)
  then show ?thesis by (simp add: down_request_id_def up_request_id_def map_idI)
qed

lemma up_down_request_id:
  assumes "down_request_id d = Inr t"
  shows "up_request_id t = d"
proof -
  have "map (add_request_id \<circ> drop_request_id) (usage_events d) = usage_events d"
    using assms by (intro map_idI) (auto simp: down_request_id_def list_ex_iff add_drop_request_id split: if_splits)
  with assms show ?thesis by (auto simp: down_request_id_def up_request_id_def split: if_splits)
qed

lemma down_up_recovery: "down_recovery (up_recovery t) (up_recovery t) = Inr t"
proof -
  have "\<not> list_ex (\<lambda>p. p_processing_failures p > 0 \<or> sint (p_retry_generation p) > 0) (map add_recovery qs)" for qs
    by (induction qs) (simp_all add: add_recovery_def)
  then show ?thesis by (simp add: down_recovery_def up_recovery_def recovery_in_use_def map_idI)
qed

lemma up_down_recovery:
  assumes "list_all pending_check (tb_pending t)" and "down_recovery t t = Inr t1"
  shows "up_recovery t1 = t"
proof -
  have "map (add_recovery \<circ> drop_recovery) (tb_pending t) = tb_pending t"
    using assms by (intro map_idI)
      (auto simp: down_recovery_def recovery_in_use_def list_ex_iff list_all_iff add_drop_recovery split: if_splits)
  with assms(2) show ?thesis by (auto simp: down_recovery_def up_recovery_def split: if_splits)
qed

section \<open>The upgrade of a first database\<close>

definition upgrade :: "(first_usage, first_pending) tables \<Rightarrow> db" where
  "upgrade t = up_request_id (up_recovery t)"

text \<open>What the first schema and the first program keep: keys, references, checks, queued or posted.\<close>

definition first_inv :: "(first_usage, first_pending) tables \<Rightarrow> bool" where
  "first_inv t \<longleftrightarrow> distinct (map f_event_id (tb_usage t)) \<and> distinct (map q_event_id (tb_pending t)) \<and>
     distinct (map l_event_id (tb_ledger t)) \<and>
     set (map q_event_id (tb_pending t)) \<inter> set (map l_event_id (tb_ledger t)) = {} \<and>
     set (map q_event_id (tb_pending t)) \<union> set (map l_event_id (tb_ledger t)) = set (map f_event_id (tb_usage t)) \<and>
     list_all first_check (tb_usage t)"

lemma upgrade_simps [simp]:
  "usage_ids (upgrade t) = map f_event_id (tb_usage t)" "pending_ids (upgrade t) = map q_event_id (tb_pending t)"
  "ledger_ids (upgrade t) = map l_event_id (tb_ledger t)"
  by (simp_all add: upgrade_def up_request_id_def up_recovery_def add_request_id_def add_recovery_def o_def)

lemma upgrade_inv:
  assumes "first_inv t"
  shows "store_inv (upgrade t)"
proof -
  have "list_all usage_check (usage_events (upgrade t))"
    using assms by (auto simp: upgrade_def up_request_id_def up_recovery_def first_inv_def list_all_iff first_check_def
      usage_check_def add_request_id_def sql_request_id_def)
  moreover have "list_all pending_check (pending_events (upgrade t))"
    by (auto simp: upgrade_def up_request_id_def up_recovery_def list_all_iff pending_check_def add_recovery_def failure_codes_def)
  ultimately show ?thesis using assms unfolding store_inv_def upgrade_simps first_inv_def by simp
qed

text \<open>An event as the first program knew it.\<close>

definition first_event :: "first_usage \<Rightarrow> bool \<Rightarrow> event" where
  "first_event u posted = view (add_request_id u) posted None"

lemma first_event_simps [simp]:
  "EventID (Input (first_event u b)) = f_event_id u" "CustomerID (Input (first_event u b)) = f_customer_id u"
  "Meter (Input (first_event u b)) = f_meter u" "Units (Input (first_event u b)) = f_units u"
  "UnitPriceMicros (first_event u b) = f_unit_price_micros u" "AmountMicros (first_event u b) = f_amount_micros u"
  "CreatedAt (first_event u b) = f_created_at u" "RequestID (first_event u b) = ''''"
  "Processed (first_event u b) = b" "\<not> Failed (first_event u b)"
  by (simp_all add: first_event_def add_request_id_def view_def event_of_row_def Let_def)

lemma upgrade_stored:
  assumes "first_inv t" and u: "u \<in> set (tb_usage t)"
  shows "stored (upgrade t) (f_event_id u) = Some (first_event u (f_event_id u \<in> set (map l_event_id (tb_ledger t))))"
proof -
  have inv: "store_inv (upgrade t)" by (rule upgrade_inv [OF assms(1)])
  have row: "add_request_id u \<in> set (usage_events (upgrade t))" using u by (simp add: upgrade_def up_request_id_def up_recovery_def)
  have usage: "usage_of (upgrade t) (f_event_id u) = Some (add_request_id u)"
    using find_key_distinct [OF store_invD(1) [OF inv] row] by (simp add: usage_of_def add_request_id_def)
  have "view (add_request_id u) b (pending_of (upgrade t) i) = view (add_request_id u) b None" for b i
  proof (cases "pending_of (upgrade t) i")
    case (Some p)
    then have "p \<in> set (pending_events (upgrade t))" by (simp add: pending_of_key)
    then obtain q where "p = add_recovery q" by (auto simp: upgrade_def up_request_id_def up_recovery_def)
    with Some show ?thesis by (simp add: view_def add_recovery_def)
  qed simp
  with usage show ?thesis by (simp only: stored_def first_event_def upgrade_simps) simp
qed

end
