(* ===== verification/Migration_Properties.thy ===== *)
theory Migration_Properties
  imports Migrations System_Requests Samples
begin

text \<open>
  What the migrations keep: taking away and adding are inverse wherever the guards allow it, and
  a first database upgraded to the tables of the service is one the service serves.
\<close>

section \<open>A first database\<close>

definition first_sample :: "(first_usage, first_pending) tables" where
  "first_sample =
     (let row = (\<lambda>i. \<lparr>f_event_id = i, f_customer_id = ''acme'', f_meter = ''api_calls'', f_units = 4,
          f_unit_price_micros = 250, f_amount_micros = 1000, f_currency = ''USD'', f_created_at = 7\<rparr>) in
      \<lparr>tb_usage = [row ''e1'', row ''e2''], tb_pending = [\<lparr>q_event_id = ''e2'', q_enqueued_at = 7\<rparr>],
       tb_ledger = [\<lparr>l_event_id = ''e1'', l_processed_at = 8\<rparr>]\<rparr>)"

lemma first_sample_inv: "first_inv first_sample"
  unfolding first_inv_def by (intro conjI) (simp_all add: first_sample_def Let_def, code_simp)

section \<open>Properties\<close>



text \<open>
  C19. An upgrade keeps every event: the tables of a first database, upgraded, satisfy the store's
  invariant, and each event is read with its input, price, amount and creation time as before,
  posted exactly when it was, without a request identifier and never failed; a client that
  repeats its request, at whatever price the service now has, is answered with that event.
\<close>

theorem upgrade_keeps_events:
  assumes "first_inv t" and "u \<in> set (tb_usage t)" and "0 < sint rate" and "healthy (ctx_env c)"
    and "FromContext c = rid" and "request_id_ok rid"
  shows "store_inv (upgrade t) \<and>
    (\<exists>e. stored (upgrade t) (f_event_id u) = Some e \<and> EventID (Input e) = f_event_id u \<and>
       CustomerID (Input e) = f_customer_id u \<and> Units (Input e) = f_units u \<and> UnitPriceMicros e = f_unit_price_micros u \<and>
       AmountMicros e = f_amount_micros u \<and> CreatedAt e = f_created_at u \<and> RequestID e = '''' \<and>
       (Processed e \<longleftrightarrow> f_event_id u \<in> set (map l_event_id (tb_ledger t))) \<and> \<not> Failed e \<and>
       service_Accept (billing_service st rate) rand c (Input e) (upgrade t) = Return (Inr (e, False), upgrade t))"
proof -
  let ?posted = "f_event_id u \<in> set (map l_event_id (tb_ledger t))"
  let ?e = "first_event u ?posted"
  have inv: "store_inv (upgrade t)" by (rule upgrade_inv [OF assms(1)])
  have stored: "stored (upgrade t) (f_event_id u) = Some ?e" by (rule upgrade_stored [OF assms(1,2)])
  have "first_check u" using assms(1,2) by (auto simp: first_inv_def list_all_iff)
  then have "valid_input (Input ?e)" by (simp add: valid_input_def first_check_def valid_id_sql)
  from service_Accept_decision [OF this assms(3,4) inv assms(5,6), of st rand] stored
  have "service_Accept (billing_service st rate) rand c (Input ?e) (upgrade t) = Return (Inr (?e, False), upgrade t)" by simp
  with inv stored show ?thesis by (intro conjI exI [of _ ?e]) simp_all
qed

theorem upgrade_keeps_events_witness:
  "\<exists>e. stored (upgrade first_sample) ''e2'' = Some e \<and> AmountMicros e = 1000 \<and> \<not> Processed e"
proof -
  have "list_ex (\<lambda>u. f_event_id u = ''e2'' \<and> f_amount_micros u = 1000) (tb_usage first_sample)" by code_simp
  then obtain u where u: "u \<in> set (tb_usage first_sample)" "f_event_id u = ''e2''" "f_amount_micros u = 1000"
    by (auto simp: list_ex_iff)
  have "FromContext (sample_ctx sample_env) = ''0123456789abcdef0123456789abcdef''"
    "request_id_ok ''0123456789abcdef0123456789abcdef''" by code_simp+
  from upgrade_keeps_events [OF first_sample_inv u(1) _ _ this, of 9] u(2,3) show ?thesis
    by (force simp: sample_ctx_def first_sample_def Let_def)
qed

section \<open>The guard of event recovery and concurrent workers\<close>

text \<open>
  The guard of \<open>000002_event_recovery.down.sql\<close> takes no lock: a failure recorded by a worker after
  the guard has read and before the columns are dropped is erased, while \<open>000003\<close> locks first.
\<close>

lemma down_recovery_race:
  "\<exists>t t' t1. \<not> recovery_in_use t \<and> tb_usage t' = tb_usage t \<and>
     sql_record_failure ''e2'' ''23514'' 9 (up_request_id t) = Inr (1, up_request_id t') \<and>
     down_recovery t t' = Inr t1 \<and> up_recovery t1 \<noteq> t'"
proof -
  let ?t = "up_recovery first_sample"
  let ?t' = "?t\<lparr>tb_pending := map (\<lambda>p. p\<lparr>p_processing_failures := 1, p_failure_code := ''23514''\<rparr>) (tb_pending ?t)\<rparr>"
  have "\<not> recovery_in_use ?t" by code_simp
  moreover have "sql_record_failure ''e2'' ''23514'' 9 (up_request_id ?t) = Inr (1, up_request_id ?t')"
    by (simp add: sql_record_failure_def sql_update_pending_def up_request_id_def up_recovery_def first_sample_def
      add_recovery_def Let_def failure_codes_def pending_check_def)
  moreover have "up_recovery first_sample \<noteq> ?t'"
    by (simp add: up_recovery_def first_sample_def add_recovery_def Let_def)
  moreover have "down_recovery ?t ?t' = Inr first_sample"
    using \<open>\<not> recovery_in_use ?t\<close>
    by (simp add: down_recovery_def up_recovery_def first_sample_def add_recovery_def drop_recovery_def Let_def)
  ultimately show ?thesis by (intro exI [of _ ?t] exI [of _ ?t'] exI [of _ first_sample]) simp
qed

end
