(* ===== verification/Spec2Isabelle.thy ===== *)
theory Spec2Isabelle
  imports Store_Properties System_Properties Service_Properties Admission_Properties Sessions_Properties
    Demo_Properties Migration_Properties
begin

text \<open>
  A verification development for the usage billing service. Clients post usage events over HTTP;
  an event is priced once at the service's rate, stored together with a row of a durable queue,
  and posted to a ledger by a background worker. Summaries and metrics read the same tables.

  \<^bold>\<open>Parts and how they interact.\<close> The handler (\<open>internal/httpapi\<close>) authorizes, decodes and routes a
  request and calls the service (\<open>internal/billing\<close>), which validates and prices it and calls the
  store (\<open>internal/postgres\<close>), whose transactions are the only writers of the three tables. The
  worker (\<open>internal/worker\<close>) calls the store's batches on a timer with backoff. The collector
  (\<open>internal/telemetry\<close>) reads the queue's statistics and the worker's counters and is the
  handler's metrics source. \<open>cmd/usage-billing\<close> loads the configuration, builds these parts and
  owns the goroutines; \<open>cmd/loadtest\<close> is a client that measures a demo.

  \<^bold>\<open>The theories.\<close>
    \<^item> \<open>Prelude\<close>: int64 as \<open>64 word\<close> with Go's division, rows found by key, and the locales of runs
      and step relations that keep an invariant. \<open>Go_Errors\<close>: error values, \<open>errors.Is\<close>, \<open>errors.Join\<close>.
      \<open>Go_Text\<close>: decimal and hexadecimal texts, \<open>strings.Split\<close>, \<open>Cut\<close>, \<open>EqualFold\<close>. \<open>Go_Json\<close>: the
      token stream of \<open>encoding/json\<close>. \<open>Go_Parse\<close>: \<open>TrimSpace\<close>, \<open>SplitHostPort\<close>, \<open>ParseDuration\<close>.
    \<^item> \<open>Billing_Types\<close> (\<open>types.go\<close>), \<open>Request_Id\<close> (\<open>requestid.go\<close>), \<open>Billing_Service\<close> (\<open>service.go\<close>): the
      service over any repository, and the contract \<open>billing_repository\<close> it relies on.
    \<^item> \<open>Pg_Schema\<close>: the tables of \<open>migrations/*.up.sql\<close> with their checks and every SQL statement of the
      store. \<open>Pg_Driver\<close>: a transaction's calls, any of which may fail, with savepoints, a COMMIT that
      may take effect unnoticed, and \<open>Store.transaction\<close>. \<open>Pg_Store\<close>: every method of \<open>store.go\<close>.
    \<^item> \<open>Store_Inv\<close>, \<open>Store_Accept\<close>, \<open>Store_Batch\<close>, \<open>Store_Retry\<close>: the invariant, and what each method does
      under any failure and when the database answers. \<open>Store_Run\<close>: the life cycle of an event
      and its refinement by every operation. \<open>Store_Repository\<close>: the store keeps the service's
      contract. \<open>Store_Totals\<close>: summaries and queue statistics. \<open>Store_Drain\<close>: batches empty the queue.
    \<^item> \<open>Admission\<close>: \<open>Store.Accept\<close> in many sessions at once, statement by statement. \<open>Store_Settle\<close>: the exact
      tables a batch leaves. \<open>Claims\<close>: \<open>ProcessBatchWithResults\<close> and \<open>Retry\<close> in many sessions at once, with
      their row locks. \<open>Sessions\<close>: all of them over the same tables.
    \<^item> \<open>Migrations\<close>: \<open>migrations/*.sql\<close>, up and down, with the guards of the down migrations.
    \<^item> \<open>Http_Decode\<close>, \<open>Http_Render\<close>, \<open>Http_Api\<close>, \<open>Http_Facts\<close>, \<open>Http_Requests\<close>: the decoders of \<open>httpapi.go\<close>
      and exactly what they accept, the handler, its routes, statuses, counters and authorization.
    \<^item> \<open>Worker\<close> (\<open>worker.go\<close>), \<open>Telemetry\<close> (\<open>metrics.go\<close>), \<open>System\<close> and \<open>System_Requests\<close>: the parts put
      together, with a request's answer as a function of the stored events.
    \<^item> \<open>Service_Config\<close> (\<open>config.go\<close>), \<open>Service_Main\<close> (\<open>main.go\<close>): configuration, construction, and the
      three goroutines of \<open>serve\<close>. \<open>System_Run\<close>: runs of the service so built, requests and attempts of
      the worker in any order over the shared state.
    \<^item> \<open>Load_Test\<close>, \<open>Load_Main\<close> (\<open>cmd/loadtest/main.go\<close>): the run and the command with its flags.
      \<open>Load_Service\<close>, \<open>Load_Demo\<close>: its requests served by the service, and its answers read by it.
    \<^item> \<open>Samples\<close> and the theories named \<open>*_Properties\<close>: concrete inputs and the properties, C1 to C40.

  \<^bold>\<open>State.\<close> The database is the record \<open>db\<close> of three lists of rows; a store method takes it and the
  environment \<open>pg_env\<close> of its calls (which fail, what the clock reads, which rows others lock,
  what the ledger rejects) and returns it updated. \<open>system\<close> adds the collector's counter and the
  worker's counters; the handler is a value with its table of request counters. Go errors are
  values of \<open>go_error\<close>, a result with an error is a sum, a panic is an outcome of its own.

  \<^bold>\<open>Interfaces.\<close> \<open>billing_repository\<close> is what the service needs of its repository (interpreted on the
  store), \<open>http_service\<close> what the handler needs of the service (interpreted on the service over the
  store), \<open>batch_processor\<close> what the worker's counters need of a processor (interpreted on the
  store's batches); \<open>invariant_steps\<close> and \<open>growing_steps\<close> carry an invariant along sequences of store
  operations, \<open>step_invariant\<close> along the steps of concurrent sessions and of \<open>serve\<close>,
  and \<open>growing_steps\<close> also along the actions of a running service.

  \<^bold>\<open>What the lemmas show.\<close> The invariant (keys, checks, each event queued or posted, never both)
  holds after any sequence of operations under any failures, and every operation moves an event
  along its life cycle by one step at most; prices are exact; accept, retry and batch decide as
  tables say; the queue stays within its limit, also with admissions interleaved, which are
  equal to a sequential run in commit order and do not deadlock; so are admissions, batches and
  retries together, no two of which hold a row at once; a run of the whole service refines a run
  of store operations, keeps what it answered and counts everything; the load test passes on it;
  migrating back loses nothing and an upgrade keeps every event; batches, and the worker's
  attempts, leave no event waiting; the handler answers and counts every request once, takes
  exactly the documented objects and paths, and rejects a missing token; the worker's delays,
  log and counters are as documented; the metrics text reads back; a configuration that loads
  builds; \<open>serve\<close> joins its goroutines within ten steps.

  \<^bold>\<open>Bounds.\<close> No definition runs on fuel. A worker run is a function of the finite list of what wakes
  it, and a drain needs as many attempts as the queue has attempts left (\<open>work\<close>). Recursive
  definitions that are not structural (the token reader, durations, a client's indices)
  terminate by the length of what is left.

  \<^bold>\<open>Parameters.\<close> What PostgreSQL and pgx answer (\<open>pg_env\<close>), entropy, SHA-256 and \<open>mime.ParseMediaType\<close>,
  the printing and the fraction arithmetic of floats, the URL parser and \<open>json.Unmarshal\<close> of the
  load test, and \<open>http.ErrServerClosed\<close>. No property assumes more of them than it says.

  \<^bold>\<open>Concurrency.\<close> In \<open>Sessions\<close> a step is one statement of one transaction under READ COMMITTED, with
  row locks, the advisory lock and the unique index as the statements take them; a COMMIT makes
  a session's writes visible. In \<open>System_Run\<close> a step is one request or one attempt of the worker.

  \<^bold>\<open>Not modelled.\<close> The HTTP server below the handler (deadlines, limits of headers, connections) and
  the settings of the load test's HTTP client (\<open>newClient\<close>), which are values handed to a library;
  what the pool does with its settings; the text of a JSON reply (kept as a value; the load test
  only assumes that its decoder reads it back); contexts beyond the identifier and the fact that
  they end; the tool that runs the migrations, and indexes, which have no content. Scripts, CI,
  tests, dashboards and alert rules are not part of the running service.
\<close>

end
